(* ===== verification/Rust_Prelude.thy ===== *)
theory Rust_Prelude
  imports Main "HOL-Library.Word" "HOL-Library.Multiset"
begin

text \<open>
  The vocabulary that every component of the development shares: the machine integers of
  Rust, results with an explicit panic, the two ways the sources sequence fallible steps
  (\<open>?\<close> on plain values, and \<open>?\<close> while buffers behind \<open>&mut\<close> change), checked
  arithmetic, slices, and little-endian byte encodings.  The generic lemmas carry the
  component proofs: \<open>res_simps\<close> turns a successful chain of steps into its conditions,
  \<open>no_panic\<close> shows that a chain cannot panic, \<open>arith_simps\<close> unfolds checked arithmetic.
\<close>

unbundle bit_operations_syntax

type_synonym u8 = "8 word"
type_synonym u16 = "16 word"
type_synonym u32 = "32 word"
type_synonym u64 = "64 word"
type_synonym usize = nat
type_synonym bytes = "u8 list"

named_theorems res_simps "inversion of successful result chains"
named_theorems no_panic "introduction rules for results that are not panics"
named_theorems arith_simps "checked arithmetic on machine integers"

section \<open>Results, errors and panics\<close>

text \<open>
  \<open>Ok\<close> and \<open>Err\<close> are the constructors of Rust's \<open>Result\<close>.  \<open>Panic\<close> is a third
  outcome: an out-of-bounds index, a division by zero, an arithmetic overflow of an
  unchecked operator.  It is propagated like an error, and that no public operation
  produces it is proved, not assumed.
\<close>

datatype ('a, 'e) res = Ok 'a | Err 'e | Panic

fun bind_res :: "('a, 'e) res \<Rightarrow> ('a \<Rightarrow> ('b, 'e) res) \<Rightarrow> ('b, 'e) res" where
  "bind_res (Ok x) f = f x"
| "bind_res (Err e) f = Err e"
| "bind_res Panic f = Panic"

text \<open>\<open>cond.then_some(()).ok_or(e)?\<close>, \<open>option.ok_or(e)?\<close> and \<open>result.map_err(f)?\<close>.\<close>

definition ensure :: "bool \<Rightarrow> 'e \<Rightarrow> (unit, 'e) res" where
  "ensure c e = (if c then Ok () else Err e)"

definition ok_or :: "'a option \<Rightarrow> 'e \<Rightarrow> ('a, 'e) res" where
  "ok_or x e = (case x of Some v \<Rightarrow> Ok v | None \<Rightarrow> Err e)"

fun map_err :: "('e \<Rightarrow> 'f) \<Rightarrow> ('a, 'e) res \<Rightarrow> ('a, 'f) res" where
  "map_err f (Ok x) = Ok x"
| "map_err f (Err e) = Err (f e)"
| "map_err f Panic = Panic"

fun is_err :: "('a, 'e) res \<Rightarrow> bool" where
  "is_err (Err e) = True"
| "is_err _ = False"

text \<open>An indexing expression \<open>xs[i]\<close> panics out of range.\<close>

definition index_at :: "'a list \<Rightarrow> nat \<Rightarrow> ('a, 'e) res" where
  "index_at xs i = (if i < length xs then Ok (xs ! i) else Panic)"

lemma bind_res_cong [fundef_cong]:
  "r = r' \<Longrightarrow> (\<And>x. r' = Ok x \<Longrightarrow> f x = g x) \<Longrightarrow> bind_res r f = bind_res r' g"
  by (cases r') auto

lemma bind_res_Ok [res_simps]:
  "bind_res r f = Ok y \<longleftrightarrow> (\<exists>x. r = Ok x \<and> f x = Ok y)"
  by (cases r) auto

lemma bind_res_Err:
  "bind_res r f = Err e \<longleftrightarrow> r = Err e \<or> (\<exists>x. r = Ok x \<and> f x = Err e)"
  by (cases r) auto

lemma bind_res_Panic:
  "bind_res r f = Panic \<longleftrightarrow> r = Panic \<or> (\<exists>x. r = Ok x \<and> f x = Panic)"
  by (cases r) auto

lemma bind_res_assoc:
  "bind_res (bind_res r f) g = bind_res r (\<lambda>x. bind_res (f x) g)"
  by (cases r) auto

lemma ensure_Ok [res_simps]: "ensure c e = Ok u \<longleftrightarrow> c"
  by (simp add: ensure_def)

lemma ensure_Err: "ensure c e = Err e' \<longleftrightarrow> \<not> c \<and> e' = e"
  by (auto simp: ensure_def)

lemma ensure_simps [simp]: "ensure True e = Ok ()" "ensure False e = Err e"
  by (simp_all add: ensure_def)

lemma ok_or_Ok [res_simps]: "ok_or x e = Ok y \<longleftrightarrow> x = Some y"
  by (simp add: ok_or_def split: option.splits)

lemma ok_or_Err: "ok_or x e = Err e' \<longleftrightarrow> x = None \<and> e' = e"
  by (auto simp: ok_or_def split: option.splits)

lemma ok_or_simps [simp]: "ok_or (Some v) e = Ok v" "ok_or None e = Err e"
  by (simp_all add: ok_or_def)

lemma map_err_Ok [res_simps]: "map_err f r = Ok y \<longleftrightarrow> r = Ok y"
  by (cases r) auto

lemma index_at_Ok [res_simps]: "index_at xs i = Ok y \<longleftrightarrow> i < length xs \<and> y = xs ! i"
  by (auto simp: index_at_def)

lemma bind_no_panic [no_panic]:
  "r \<noteq> Panic \<Longrightarrow> (\<And>x. r = Ok x \<Longrightarrow> f x \<noteq> Panic) \<Longrightarrow> bind_res r f \<noteq> Panic"
  by (cases r) auto

lemma ensure_no_panic [no_panic]: "ensure c e \<noteq> Panic"
  by (simp add: ensure_def)

lemma ok_or_no_panic [no_panic]: "ok_or x e \<noteq> Panic"
  by (simp add: ok_or_def split: option.splits)

lemma map_err_no_panic [no_panic]: "r \<noteq> Panic \<Longrightarrow> map_err f r \<noteq> Panic"
  by (cases r) auto

lemma index_no_panic [no_panic]: "i < length xs \<Longrightarrow> index_at xs i \<noteq> Panic"
  by (simp add: index_at_def)

lemma Ok_no_panic [no_panic]: "Ok x \<noteq> Panic"
  by simp

lemma Err_no_panic [no_panic]: "Err e \<noteq> Panic"
  by simp

lemma if_no_panic [no_panic]:
  "(c \<Longrightarrow> r \<noteq> Panic) \<Longrightarrow> (\<not> c \<Longrightarrow> r' \<noteq> Panic) \<Longrightarrow> (if c then r else r') \<noteq> Panic"
  by simp

lemma prod_no_panic [no_panic]:
  "(\<And>a b. x = (a, b) \<Longrightarrow> f a b \<noteq> Panic) \<Longrightarrow> (case x of (a, b) \<Rightarrow> f a b) \<noteq> Panic"
  by (cases x) simp

lemma option_no_panic [no_panic]:
  "(x = None \<Longrightarrow> r \<noteq> Panic) \<Longrightarrow> (\<And>v. x = Some v \<Longrightarrow> f v \<noteq> Panic)
   \<Longrightarrow> (case x of None \<Rightarrow> r | Some v \<Rightarrow> f v) \<noteq> Panic"
  by (cases x) simp_all

lemma Let_no_panic [no_panic]: "f x \<noteq> Panic \<Longrightarrow> Let x f \<noteq> Panic"
  by (simp add: Let_def)

subsection \<open>Fallible steps over a mutable state\<close>

text \<open>
  A function that takes buffers by \<open>&mut\<close> is a function on the pair of its result and
  the buffers' final contents: what an early return has already written stays written.
\<close>

type_synonym ('s, 'a, 'e) stm = "'s \<Rightarrow> ('a, 'e) res \<times> 's"

definition bind_st :: "('s, 'a, 'e) stm \<Rightarrow> ('a \<Rightarrow> ('s, 'b, 'e) stm) \<Rightarrow> ('s, 'b, 'e) stm" where
  "bind_st m k s = (case m s of
      (Ok x, s') \<Rightarrow> k x s'
    | (Err e, s') \<Rightarrow> (Err e, s')
    | (Panic, s') \<Rightarrow> (Panic, s'))"

definition lift_st :: "('a, 'e) res \<Rightarrow> ('s, 'a, 'e) stm" where
  "lift_st r s = (r, s)"

lemma bind_st_cong [fundef_cong]:
  "m s = m' s' \<Longrightarrow> (\<And>x t. m' s' = (Ok x, t) \<Longrightarrow> k x t = k' x t) \<Longrightarrow> bind_st m k s = bind_st m' k' s'"
  by (auto simp: bind_st_def split: prod.splits res.splits)

lemma bind_st_Ok [res_simps]:
  "bind_st m k s = (Ok y, t) \<longleftrightarrow> (\<exists>x s'. m s = (Ok x, s') \<and> k x s' = (Ok y, t))"
  by (auto simp: bind_st_def split: prod.splits res.splits)

lemma bind_st_no_panic [no_panic]:
  "fst (m s) \<noteq> Panic \<Longrightarrow> (\<And>x s'. m s = (Ok x, s') \<Longrightarrow> fst (k x s') \<noteq> Panic)
   \<Longrightarrow> fst (bind_st m k s) \<noteq> Panic"
  by (auto simp: bind_st_def split: prod.splits res.splits)

lemma lift_st_Ok [res_simps]: "lift_st r s = (Ok x, t) \<longleftrightarrow> r = Ok x \<and> t = s"
  by (auto simp: lift_st_def)

lemma lift_st_no_panic [no_panic]: "r \<noteq> Panic \<Longrightarrow> fst (lift_st r s) \<noteq> Panic"
  by (simp add: lift_st_def)

lemma bind_lift_st [simp]:
  "bind_st (lift_st (Ok x)) k = k x"
  "bind_st (lift_st (Err e)) k s = (Err e, s)"
  "bind_st (lift_st Panic) k s = (Panic, s)"
  by (simp_all add: bind_st_def lift_st_def fun_eq_iff)

lemma bind_st_run: "m s = (Ok x, s') \<Longrightarrow> bind_st m k s = k x s'"
  by (simp add: bind_st_def)

text \<open>
  Weakest preconditions of stateful steps: \<open>wp_st m Q R s\<close> says that from \<open>s\<close> the step
  does not panic, ends with \<open>Q\<close> if it succeeds, and leaves a state with \<open>R\<close> if it fails.
\<close>

definition wp_st :: "('s, 'a, 'e) stm \<Rightarrow> ('a \<Rightarrow> 's \<Rightarrow> bool) \<Rightarrow> ('s \<Rightarrow> bool) \<Rightarrow> 's \<Rightarrow> bool" where
  "wp_st m Q R s = (case m s of (Ok x, t) \<Rightarrow> Q x t | (Err e, t) \<Rightarrow> R t | (Panic, t) \<Rightarrow> False)"

named_theorems wp_intros "weakest-precondition rules"

lemma wp_bind [wp_intros]: "wp_st m (\<lambda>x. wp_st (k x) Q R) R s \<Longrightarrow> wp_st (bind_st m k) Q R s"
  by (auto simp: wp_st_def bind_st_def split: prod.splits res.splits)

lemma wp_lift [wp_intros]:
  "r \<noteq> Panic \<Longrightarrow> (\<And>x. r = Ok x \<Longrightarrow> Q x s) \<Longrightarrow> (\<And>e. r = Err e \<Longrightarrow> R s) \<Longrightarrow> wp_st (lift_st r) Q R s"
  by (cases r) (auto simp: wp_st_def lift_st_def)

lemma wp_conseq:
  "wp_st m Q R s \<Longrightarrow> (\<And>x t. Q x t \<Longrightarrow> Q' x t) \<Longrightarrow> (\<And>t. R t \<Longrightarrow> R' t) \<Longrightarrow> wp_st m Q' R' s"
  by (auto simp: wp_st_def split: prod.splits res.splits)

lemma wp_prod:
  "wp_st (\<lambda>(a, b). f a b) Q R (x, y) \<longleftrightarrow>
     (case f x y of (Ok v, t) \<Rightarrow> Q v t | (Err e, t) \<Rightarrow> R t | (Panic, t) \<Rightarrow> False)"
  by (simp add: wp_st_def)

lemma wp_no_panic: "wp_st m Q R s \<Longrightarrow> fst (m s) \<noteq> Panic"
  by (auto simp: wp_st_def split: prod.splits res.splits)

lemma wp_Ok: "wp_st m Q R s \<Longrightarrow> m s = (Ok x, t) \<Longrightarrow> Q x t"
  by (simp add: wp_st_def)

section \<open>Checked arithmetic\<close>

definition checked_add :: "'a::len word \<Rightarrow> 'a word \<Rightarrow> 'a word option" where
  "checked_add a b = (if unat a + unat b < 2 ^ LENGTH('a) then Some (a + b) else None)"

definition checked_mul :: "'a::len word \<Rightarrow> 'a word \<Rightarrow> 'a word option" where
  "checked_mul a b = (if unat a * unat b < 2 ^ LENGTH('a) then Some (a * b) else None)"

definition checked_sub :: "'a::len word \<Rightarrow> 'a word \<Rightarrow> 'a word option" where
  "checked_sub a b = (if b \<le> a then Some (a - b) else None)"

text \<open>The unchecked operators panic where they overflow, and division panics on zero.\<close>

definition sub_or_panic :: "'a::len word \<Rightarrow> 'a word \<Rightarrow> ('a word, 'e) res" where
  "sub_or_panic a b = (if b \<le> a then Ok (a - b) else Panic)"

definition div_or_panic :: "'a::len word \<Rightarrow> 'a word \<Rightarrow> ('a word, 'e) res" where
  "div_or_panic a b = (if b = 0 then Panic else Ok (a div b))"

text \<open>\<open>is_multiple_of\<close> and \<open>is_power_of_two\<close> of the standard library.\<close>

definition is_multiple_of :: "'a::len word \<Rightarrow> 'a word \<Rightarrow> bool" where
  "is_multiple_of a b = (if b = 0 then a = 0 else a mod b = 0)"

definition count_ones :: "'a::len word \<Rightarrow> nat" where
  "count_ones a = length (filter (bit a) [0..<LENGTH('a)])"

definition is_power_of_two :: "'a::len word \<Rightarrow> bool" where
  "is_power_of_two a = (count_ones a = 1)"

lemma checked_add_Some [arith_simps]:
  fixes a :: "'a::len word"
  shows "checked_add a b = Some c \<longleftrightarrow> unat a + unat b < 2 ^ LENGTH('a) \<and> unat c = unat a + unat b"
  by (auto simp: checked_add_def unat_add_lem [THEN iffD1] word_unat_eq_iff)

lemma checked_add_None [arith_simps]:
  fixes a :: "'a::len word"
  shows "checked_add a b = None \<longleftrightarrow> 2 ^ LENGTH('a) \<le> unat a + unat b"
  by (simp add: checked_add_def)

lemma checked_mul_Some [arith_simps]:
  fixes a :: "'a::len word"
  shows "checked_mul a b = Some c \<longleftrightarrow> unat a * unat b < 2 ^ LENGTH('a) \<and> unat c = unat a * unat b"
  by (auto simp: checked_mul_def unat_mult_lem [THEN iffD1] word_unat_eq_iff)

lemma checked_mul_None [arith_simps]:
  fixes a :: "'a::len word"
  shows "checked_mul a b = None \<longleftrightarrow> 2 ^ LENGTH('a) \<le> unat a * unat b"
  by (simp add: checked_mul_def not_less)

lemma checked_sub_Some [arith_simps]:
  "checked_sub a b = Some c \<longleftrightarrow> unat b \<le> unat a \<and> unat c = unat a - unat b"
  by (auto simp: checked_sub_def word_le_nat_alt unat_sub word_unat_eq_iff)

lemma checked_sub_None [arith_simps]: "checked_sub a b = None \<longleftrightarrow> unat a < unat b"
  by (simp add: checked_sub_def word_le_nat_alt not_le)

lemma sub_or_panic_Ok [arith_simps]:
  "sub_or_panic a b = Ok c \<longleftrightarrow> unat b \<le> unat a \<and> unat c = unat a - unat b"
  by (auto simp: sub_or_panic_def word_le_nat_alt unat_sub word_unat_eq_iff)

lemma sub_or_panic_no_panic [no_panic]: "unat b \<le> unat a \<Longrightarrow> sub_or_panic a b \<noteq> Panic"
  by (simp add: sub_or_panic_def word_le_nat_alt)

lemma div_or_panic_Ok [arith_simps]:
  "div_or_panic a b = Ok c \<longleftrightarrow> unat b \<noteq> 0 \<and> unat c = unat a div unat b"
  by (auto simp: div_or_panic_def unat_div word_unat_eq_iff)

lemma div_or_panic_no_panic [no_panic]: "b \<noteq> 0 \<Longrightarrow> div_or_panic a b \<noteq> Panic"
  by (simp add: div_or_panic_def)

lemma is_multiple_of_dvd: "is_multiple_of a b \<longleftrightarrow> unat b dvd unat a"
proof (cases "b = 0")
  case True
  then show ?thesis by (simp add: is_multiple_of_def unat_eq_zero)
next
  case False
  then have "is_multiple_of a b \<longleftrightarrow> unat (a mod b) = 0"
    by (simp add: is_multiple_of_def unat_eq_zero)
  then show ?thesis by (simp add: unat_mod dvd_eq_mod_eq_0)
qed

lemma unat_bounds [simp]:
  "unat (w :: u64) < 18446744073709551616" "unat (x :: u32) < 4294967296" "unat (y :: u16) < 65536"
  using unsigned_less [of w] unsigned_less [of x] unsigned_less [of y] by simp_all

lemma le_unat_u64: "n \<le> unat (w :: u64) \<Longrightarrow> n < 2 ^ 64"
  by (rule order_le_less_trans [of _ "unat w"]) simp_all

lemma unat_of_nat_u64: "n < 2 ^ 64 \<Longrightarrow> unat (of_nat n :: u64) = n"
  by (simp add: unat_of_nat)

lemma unat_ucast_u32_u64 [simp]: "unat (ucast (x :: u32) :: u64) = unat x"
proof -
  have "unat x < 2 ^ 64" by (rule order_less_trans [OF unat_bounds(2)]) simp
  then show ?thesis by (simp add: unsigned_ucast_eq take_bit_nat_eq_self)
qed

lemma unat_imp_of_nat: "unat w = n \<Longrightarrow> w = of_nat n"
  by auto

lemma unat_2_power: "k < LENGTH('a) \<Longrightarrow> unat (2 ^ k :: 'a::len word) = 2 ^ k"
  using unat_of_nat [where 'a = 'a, of "2 ^ k"] by simp

lemma is_power_of_two_iff:
  fixes a :: "'a::len word"
  shows "is_power_of_two a \<longleftrightarrow> (\<exists>k < LENGTH('a). unat a = 2 ^ k)"
proof
  assume "is_power_of_two a"
  then obtain k where k: "filter (bit a) [0..<LENGTH('a)] = [k]"
    by (auto simp: is_power_of_two_def count_ones_def length_Suc_conv)
  then have mem: "{i \<in> {0..<LENGTH('a)}. bit a i} = {k}"
    by (metis list.set(1,2) set_filter set_upt)
  then have "k < LENGTH('a)" by auto
  moreover have "a = 2 ^ k"
    by (rule bit_word_eqI) (use mem in \<open>auto simp: bit_exp_iff\<close>)
  ultimately show "\<exists>k < LENGTH('a). unat a = 2 ^ k"
    by (auto simp: unat_2_power)
next
  assume "\<exists>k < LENGTH('a). unat a = 2 ^ k"
  then obtain k where k: "k < LENGTH('a)" "unat a = 2 ^ k" by blast
  then have "a = 2 ^ k"
    by (metis unat_2_power word_unat_eq_iff)
  then have "{i \<in> set [0..<LENGTH('a)]. bit a i} = {k}"
    using k by (auto simp: bit_exp_iff)
  then have "set (filter (bit a) [0..<LENGTH('a)]) = {k}" by simp
  then have "length (filter (bit a) [0..<LENGTH('a)]) = 1"
    by (metis One_nat_def card.empty card.insert distinct_card distinct_filter distinct_upt
        empty_iff finite.emptyI)
  then show "is_power_of_two a"
    by (simp add: is_power_of_two_def count_ones_def)
qed

section \<open>Slices\<close>

text \<open>\<open>xs.get(a..b)\<close>, and the write of a slice back into its buffer.\<close>

definition get_range :: "'a list \<Rightarrow> nat \<Rightarrow> nat \<Rightarrow> 'a list option" where
  "get_range xs a b = (if a \<le> b \<and> b \<le> length xs then Some (take (b - a) (drop a xs)) else None)"

definition put_range :: "'a list \<Rightarrow> nat \<Rightarrow> 'a list \<Rightarrow> 'a list" where
  "put_range xs a ys = take a xs @ ys @ drop (a + length ys) xs"

lemma get_range_Some:
  "get_range xs a b = Some ys \<longleftrightarrow> a \<le> b \<and> b \<le> length xs \<and> ys = take (b - a) (drop a xs)"
  by (auto simp: get_range_def)

lemma get_range_length: "get_range xs a b = Some ys \<Longrightarrow> length ys = b - a"
  by (auto simp: get_range_Some)

lemma length_put_range [simp]:
  "a + length ys \<le> length xs \<Longrightarrow> length (put_range xs a ys) = length xs"
  by (simp add: put_range_def)

lemma get_put_range [simp]:
  "a + length ys \<le> length xs \<Longrightarrow> get_range (put_range xs a ys) a (a + length ys) = Some ys"
  by (simp add: get_range_def put_range_def)

lemma take_put_range [simp]:
  "a + length ys \<le> length xs \<Longrightarrow> take (a + length ys) (put_range xs a ys) = take a xs @ ys"
  by (simp add: put_range_def)

text \<open>The slices \<open>&xs[..n]\<close> and \<open>&xs[a..b]\<close> panic out of range.\<close>

definition slice_to :: "'a list \<Rightarrow> usize \<Rightarrow> ('a list, 'e) res" where
  "slice_to xs n = (if n \<le> length xs then Ok (take n xs) else Panic)"

definition slice_range :: "'a list \<Rightarrow> usize \<Rightarrow> usize \<Rightarrow> ('a list, 'e) res" where
  "slice_range xs a b = (case get_range xs a b of Some ys \<Rightarrow> Ok ys | None \<Rightarrow> Panic)"

lemma slice_range_Ok [res_simps]:
  "slice_range xs a b = Ok ys \<longleftrightarrow> a \<le> b \<and> b \<le> length xs \<and> ys = take (b - a) (drop a xs)"
  by (auto simp: slice_range_def get_range_def)

lemma slice_no_panic [no_panic]:
  "a \<le> b \<Longrightarrow> b \<le> length xs \<Longrightarrow> slice_range xs a b \<noteq> Panic" "n \<le> length ys \<Longrightarrow> slice_to ys n \<noteq> Panic"
  by (simp_all add: slice_range_def get_range_def slice_to_def)

text \<open>\<open>Vec::resize(len, 0)\<close>.\<close>

definition resize :: "bytes \<Rightarrow> nat \<Rightarrow> bytes" where
  "resize xs n = take n xs @ replicate (n - length xs) 0"

lemma length_resize [simp]: "length (resize xs n) = n"
  by (simp add: resize_def)

section \<open>Little-endian bytes\<close>

primrec to_le_bytes :: "nat \<Rightarrow> 'a::len word \<Rightarrow> bytes" where
  "to_le_bytes 0 w = []"
| "to_le_bytes (Suc n) w = ucast w # to_le_bytes n (drop_bit 8 w)"

primrec from_le_bytes :: "bytes \<Rightarrow> 'a::len word" where
  "from_le_bytes [] = 0"
| "from_le_bytes (b # bs) = ucast b OR push_bit 8 (from_le_bytes bs)"

lemma length_to_le_bytes [simp]: "length (to_le_bytes n w) = n"
  by (induction n arbitrary: w) auto

lemma from_to_le_bytes: "from_le_bytes (to_le_bytes n w) = take_bit (8 * n) (w :: 'a::len word)"
proof (induction n arbitrary: w)
  case 0
  then show ?case by simp
next
  case (Suc n)
  show ?case
    by (rule bit_word_eqI) (auto simp: Suc bit_simps)
qed

lemma to_from_le_bytes:
  "8 * length bs \<le> LENGTH('a) \<Longrightarrow> to_le_bytes (length bs) (from_le_bytes bs :: 'a::len word) = bs"
proof (induction bs)
  case Nil
  then show ?case by simp
next
  case (Cons b bs)
  let ?w = "from_le_bytes bs :: 'a word"
  have low: "ucast (ucast b OR push_bit 8 ?w :: 'a word) = b"
    using Cons.prems by (intro bit_word_eqI) (auto simp: bit_simps)
  have small: "take_bit (8 * length bs) ?w = ?w"
    using Cons by (metis from_to_le_bytes length_Cons add_leD2 mult_Suc_right)
  have "drop_bit 8 (ucast b OR push_bit 8 ?w :: 'a word) = ?w"
  proof (rule bit_word_eqI)
    fix n assume "n < LENGTH('a)"
    have "bit ?w n \<Longrightarrow> n < 8 * length bs"
      by (metis bit_take_bit_iff small)
    then show "bit (drop_bit 8 (ucast b OR push_bit 8 ?w :: 'a word)) n = bit ?w n"
      using Cons.prems by (auto simp: bit_simps dest: bit_imp_le_length)
  qed
  then show ?case using Cons low by simp
qed

lemma to_from_le_bytes_width:
  "length bs = n \<Longrightarrow> 8 * n \<le> LENGTH('a) \<Longrightarrow> to_le_bytes n (from_le_bytes bs :: 'a::len word) = bs"
  using to_from_le_bytes [of bs, where 'a = 'a] by simp

text \<open>
  The integers of the archive format are fixed-width codecs.  What a decoder needs to know
  of one is proved once, and holds for \<open>u16\<close>, \<open>u32\<close> and \<open>u64\<close>.
\<close>

locale fixed_codec =
  fixes enc :: "'v \<Rightarrow> bytes" and dec :: "bytes \<Rightarrow> 'v" and width :: nat
  assumes enc_width: "length (enc x) = width"
    and dec_enc: "dec (enc x) = x"
    and enc_dec: "length bs = width \<Longrightarrow> enc (dec bs) = bs"
begin

lemma dec_prefix: "dec (take width (enc x @ rest)) = x"
  by (simp add: enc_width dec_enc)

lemma drop_prefix: "drop width (enc x @ rest) = rest"
  by (simp add: enc_width)

lemma enc_inject: "enc x = enc y \<longleftrightarrow> x = y"
  by (metis dec_enc)

lemma enc_eq_iff: "length bs = width \<Longrightarrow> enc x = bs \<longleftrightarrow> x = dec bs"
  by (metis dec_enc enc_dec)

end

interpretation le16: fixed_codec "to_le_bytes 2 :: u16 \<Rightarrow> bytes" from_le_bytes 2
  by unfold_locales (auto simp: from_to_le_bytes take_bit_word_eq_self intro: to_from_le_bytes_width [where 'a = 16])

interpretation le32: fixed_codec "to_le_bytes 4 :: u32 \<Rightarrow> bytes" from_le_bytes 4
  by unfold_locales (auto simp: from_to_le_bytes take_bit_word_eq_self intro: to_from_le_bytes_width [where 'a = 32])

interpretation le64: fixed_codec "to_le_bytes 8 :: u64 \<Rightarrow> bytes" from_le_bytes 8
  by unfold_locales (auto simp: from_to_le_bytes take_bit_word_eq_self intro: to_from_le_bytes_width [where 'a = 64])

end
