(* ===== verification/Rasen_Error.thy ===== *)
theory Rasen_Error
  imports Rust_Prelude
begin

text \<open>
  The error values of the library (\<open>error.rs\<close>) and the I/O errors they wrap.  A Rust
  \<open>String\<close> is the list of its UTF-8 bytes; a \<open>&'static str\<close> message is a \<open>string\<close>.
\<close>

datatype io_kind =
    KInterrupted | KUnexpectedEof | KInvalidInput | KAlreadyExists | KNotFound | KWriteZero | KOther

datatype io_error = IoError (io_kind_of: io_kind) (io_message_of: string)

datatype error =
    Io io_error
  | BadMagic
  | BadTocMagic
  | UnsupportedVersion u16
  | UnsupportedFlags u16
  | UnsupportedHeaderSize u32
  | EmptyXorKey
  | Crypto string
  | IncompletePack
  | NonEmptyDestination
  | InvalidPath
  | InvalidChunkSize
  | InvalidAlignment
  | InvalidRange
  | BufferSizeMismatch usize usize
  | ChunkOutOfRange u32 u32
  | DuplicatePath bytes
  | AssetTooLarge
  | ArchiveTooLarge
  | TooManyEntries
  | TooManyChunks
  | MetadataLimitExceeded
  | Corrupt string
  | TooLarge string
  | Lz4 string
  | NotFound bytes
  | HashCollision u64
  | ChecksumMismatch bytes u32

text \<open>\<open>impl From<io::Error> for Error\<close>, applied by every \<open>?\<close> on an I/O result.\<close>

definition from_io :: "('a, io_error) res \<Rightarrow> ('a, error) res" where
  "from_io r = map_err Io r"

lemma from_io_Ok [res_simps]: "from_io r = Ok x \<longleftrightarrow> r = Ok x"
  by (simp add: from_io_def map_err_Ok)

lemma from_io_simps [simp]:
  "from_io (Ok x) = Ok x" "from_io (Err e) = Err (Io e)" "from_io Panic = Panic"
  by (simp_all add: from_io_def)

lemma from_io_no_panic [no_panic]: "r \<noteq> Panic \<Longrightarrow> from_io r \<noteq> Panic"
  by (simp add: from_io_def no_panic)

end
