(* ===== verification/Externals.thy ===== *)
theory Externals
  imports Rasen_Error
begin

text \<open>
  Code the archive library calls but does not contain: the crates \<open>xxhash-rust\<close>,
  \<open>lz4_flex\<close>, \<open>blake3\<close>, \<open>chacha20poly1305\<close> and \<open>getrandom\<close>, the allocator, the width
  of \<open>usize\<close> on the target, and the unspecified tie order of the standard library's
  unstable sort.  They are the fields of one record that every definition using them
  takes as an argument.  What the callers rely on is stated as separate predicates, each
  of them documented behaviour of that code.
\<close>

text \<open>The identifier of an asset (\<open>path.rs\<close>) is a newtype around the path hash.\<close>

datatype asset_id = AssetId (asset_id_get: u64)

instantiation asset_id :: linorder
begin

definition less_eq_asset_id :: "asset_id \<Rightarrow> asset_id \<Rightarrow> bool" where
  "less_eq_asset_id a b \<longleftrightarrow> asset_id_get a \<le> asset_id_get b"

definition less_asset_id :: "asset_id \<Rightarrow> asset_id \<Rightarrow> bool" where
  "less_asset_id a b \<longleftrightarrow> asset_id_get a < asset_id_get b"

instance
  by standard (auto simp: less_eq_asset_id_def less_asset_id_def asset_id.expand)

end

record env =
  usize_max :: nat
  size_of :: "string \<Rightarrow> nat"
  alloc_ok :: "string \<Rightarrow> nat \<Rightarrow> bool"
  xxh3_64 :: "bytes \<Rightarrow> u64"
  lz4_max_output_size :: "nat \<Rightarrow> nat"
  lz4_compress_into :: "bytes \<Rightarrow> bytes \<Rightarrow> (string + nat) \<times> bytes"
  lz4_decompress_into :: "bytes \<Rightarrow> bytes \<Rightarrow> (string + nat) \<times> bytes"
  blake3_derive_key :: "string \<Rightarrow> bytes \<Rightarrow> bytes"
  aead_encrypt :: "bytes \<Rightarrow> bytes \<Rightarrow> bytes \<Rightarrow> bytes \<Rightarrow> bytes option"
  aead_decrypt :: "bytes \<Rightarrow> bytes \<Rightarrow> bytes \<Rightarrow> bytes \<Rightarrow> bytes option"
  getrandom_fill :: "nat \<Rightarrow> bytes option"
  sort_index :: "(asset_id \<times> nat) list \<Rightarrow> (asset_id \<times> nat) list"

text \<open>
  The fields, in order: the largest \<open>usize\<close>; \<open>std::mem::size_of\<close> of a type named by the
  string (Rust leaves the layout of these types to the compiler); whether \<open>try_reserve\<close> of so many elements
  succeeds at the call with the given message; the XXH3 hash; the bound, the compressor
  and the decompressor of LZ4 (the second argument is the output buffer, the result its
  contents afterwards); key derivation; sealing and opening with key, nonce, message and
  associated data; the bytes the operating system gives to the \<open>n\<close>-th request for a
  nonce; and \<open>sort_unstable_by_key\<close> on the archive index.
\<close>

section \<open>Documented behaviour\<close>

text \<open>
  \<open>env_safe\<close>: what Rust's types and the standard library guarantee on every input.
  \<open>usize\<close> has at least 16 bits, a slice keeps its length, a count of written bytes is
  within the slice, and a sort returns a sorted permutation.
\<close>

definition env_safe :: "env \<Rightarrow> bool" where
  "env_safe E \<longleftrightarrow>
     2 ^ 16 - 1 \<le> usize_max E
   \<and> (\<forall>d out. length (snd (lz4_decompress_into E d out)) = length out)
   \<and> (\<forall>d out n. fst (lz4_decompress_into E d out) = Inr n \<longrightarrow> n \<le> length out)
   \<and> (\<forall>d out. length (snd (lz4_compress_into E d out)) = length out)
   \<and> (\<forall>d out n. fst (lz4_compress_into E d out) = Inr n \<longrightarrow> n \<le> length out)
   \<and> (\<forall>xs. mset (sort_index E xs) = mset xs \<and> sorted (map fst (sort_index E xs)))"

text \<open>
  \<open>lz4_lawful\<close>: compression into a buffer of the documented maximal size succeeds, gives
  at least one byte for a non-empty input, and decompression into a buffer of the original
  size restores the input.
\<close>

definition lz4_lawful :: "env \<Rightarrow> bool" where
  "lz4_lawful E \<longleftrightarrow> (\<forall>d out. lz4_max_output_size E (length d) \<le> length out \<longrightarrow>
     (\<exists>n out'. lz4_compress_into E d out = (Inr n, out') \<and> (d \<noteq> [] \<longrightarrow> 0 < n)
        \<and> (\<forall>buf. length buf = length d \<longrightarrow>
             lz4_decompress_into E (take n out') buf = (Inr (length d), d))))"

text \<open>\<open>lz4_bound_mono\<close>: the documented bound on the output grows with the input.\<close>

definition lz4_bound_mono :: "env \<Rightarrow> bool" where
  "lz4_bound_mono E \<longleftrightarrow> (\<forall>m n. m \<le> n \<longrightarrow> lz4_max_output_size E m \<le> lz4_max_output_size E n)"

text \<open>
  \<open>lz4_pure\<close>: a block that fills the output buffer determines its contents, whatever the
  buffer held before.
\<close>

definition lz4_pure :: "env \<Rightarrow> bool" where
  "lz4_pure E \<longleftrightarrow> (\<forall>d out out' b. length out' = length out \<longrightarrow>
     lz4_decompress_into E d out = (Inr (length out), b) \<longrightarrow>
     lz4_decompress_into E d out' = (Inr (length out), b))"

text \<open>
  \<open>aead_lawful\<close>: a nonce is 24 bytes; sealing adds a tag of 16 bytes, and opening what was
  sealed under the same key, nonce and associated data gives the message back.
\<close>

definition aead_lawful :: "env \<Rightarrow> bool" where
  "aead_lawful E \<longleftrightarrow>
     (\<forall>k nonce. getrandom_fill E k = Some nonce \<longrightarrow> length nonce = 24)
   \<and> (\<forall>key nonce msg aad c. aead_encrypt E key nonce msg aad = Some c \<longrightarrow>
        length c = length msg + 16 \<and> aead_decrypt E key nonce c aad = Some msg)"

text \<open>\<open>alloc_total\<close>: no allocation fails.\<close>

definition alloc_total :: "env \<Rightarrow> bool" where
  "alloc_total E \<longleftrightarrow> (\<forall>what n. alloc_ok E what n)"

lemma env_safe_decompress:
  assumes "env_safe E" "lz4_decompress_into E d out = (r, out')"
  shows "length out' = length out" "r = Inr n \<Longrightarrow> n \<le> length out"
  using assms unfolding env_safe_def by (metis snd_conv, metis fst_conv)

lemma env_safe_compress:
  assumes "env_safe E" "lz4_compress_into E d out = (r, out')"
  shows "length out' = length out" "r = Inr n \<Longrightarrow> n \<le> length out"
  using assms unfolding env_safe_def by (metis snd_conv, metis fst_conv)

lemma env_safe_sort:
  assumes "env_safe E"
  shows "mset (sort_index E xs) = mset xs" "sorted (map fst (sort_index E xs))"
    "set (sort_index E xs) = set xs" "length (sort_index E xs) = length xs"
proof -
  show m: "mset (sort_index E xs) = mset xs" and "sorted (map fst (sort_index E xs))"
    using assms by (auto simp: env_safe_def)
  from m show "set (sort_index E xs) = set xs" "length (sort_index E xs) = length xs"
    by (metis set_mset_mset, metis size_mset)
qed

lemma env_safe_usize: "env_safe E \<Longrightarrow> 65535 \<le> usize_max E"
  by (simp add: env_safe_def)

lemma lz4_roundtrip:
  assumes "lz4_lawful E" "lz4_max_output_size E (length d) \<le> length out"
  obtains n out' where "lz4_compress_into E d out = (Inr n, out')" "d \<noteq> [] \<Longrightarrow> 0 < n"
    "\<And>buf. length buf = length d \<Longrightarrow> lz4_decompress_into E (take n out') buf = (Inr (length d), d)"
  using assms unfolding lz4_lawful_def by blast

lemma alloc_totalD [simp]: "alloc_total E \<Longrightarrow> alloc_ok E what n"
  by (simp add: alloc_total_def)

section \<open>A concrete environment\<close>

text \<open>
  One environment that satisfies every predicate above: a 64-bit target whose compressor
  stores the data behind one tag byte (and so never shrinks a chunk) unless the data is a
  run of one byte, which it encodes as that byte and a length; an additive hash; and a
  sealing function that adds sixteen zero bytes to the message.
\<close>

definition sample_hash :: "bytes \<Rightarrow> u64" where
  "sample_hash bs = foldl (\<lambda>h b. h * 31 + ucast b + 7) 1 bs"

definition sample_pack :: "bytes \<Rightarrow> bytes" where
  "sample_pack d = (if 3 < length d \<and> length d < 256 \<and> d = replicate (length d) (hd d)
     then [1, hd d, of_nat (length d)] else 0 # d)"

definition sample_unpack :: "bytes \<Rightarrow> bytes option" where
  "sample_unpack c = (case c of
      [] \<Rightarrow> None
    | t # d \<Rightarrow> if t = 0 then Some d
               else (case d of [b, n] \<Rightarrow> Some (replicate (unat n) b) | _ \<Rightarrow> None))"

definition sample_env :: env where
  "sample_env = \<lparr>
     usize_max = 2 ^ 64 - 1,
     size_of = (\<lambda>t. if t = ''Chunk'' then 40 else if t = ''(AssetId, usize)'' then 16 else 56),
     alloc_ok = (\<lambda>what n. True),
     xxh3_64 = sample_hash,
     lz4_max_output_size = Suc,
     lz4_compress_into = (\<lambda>d out. if length (sample_pack d) \<le> length out
        then (Inr (length (sample_pack d)), put_range out 0 (sample_pack d))
        else (Inl ''output too small'', out)),
     lz4_decompress_into = (\<lambda>d out. case sample_unpack d of
          None \<Rightarrow> (Inl ''bad block'', out)
        | Some p \<Rightarrow> if length p \<le> length out then (Inr (length p), put_range out 0 p)
                    else (Inl ''output too small'', out)),
     blake3_derive_key = (\<lambda>ctx k. k),
     aead_encrypt = (\<lambda>k nonce m aad. Some (m @ replicate 16 0)),
     aead_decrypt = (\<lambda>k nonce c aad. Some (take (length c - 16) c)),
     getrandom_fill = (\<lambda>n. Some (replicate 24 (of_nat n))),
     sort_index = sort_key fst \<rparr>"

lemma length_sample_pack: "length (sample_pack d) \<le> Suc (length d)"
  by (simp add: sample_pack_def)

lemma sample_unpack_pack: "sample_unpack (sample_pack d) = Some d"
proof (cases "3 < length d \<and> length d < 256 \<and> d = replicate (length d) (hd d)")
  case True
  then have "unat (of_nat (length d) :: u8) = length d"
    by (simp add: unat_of_nat)
  with True show ?thesis by (auto simp: sample_pack_def sample_unpack_def)
next
  case False
  then show ?thesis by (auto simp: sample_pack_def sample_unpack_def)
qed

lemma sample_env_safe: "env_safe sample_env"
  by (auto simp: env_safe_def sample_env_def split: option.splits)

lemma sample_env_lz4: "lz4_lawful sample_env"
  unfolding lz4_lawful_def
proof (intro allI impI)
  fix d out :: bytes
  assume "lz4_max_output_size sample_env (length d) \<le> length out"
  then have fit: "length (sample_pack d) \<le> length out"
    using length_sample_pack [of d] by (simp add: sample_env_def)
  let ?out' = "put_range out 0 (sample_pack d)"
  have "lz4_compress_into sample_env d out = (Inr (length (sample_pack d)), ?out')"
    using fit by (simp add: sample_env_def)
  moreover have "take (length (sample_pack d)) ?out' = sample_pack d"
    by (simp add: put_range_def)
  moreover have "length buf = length d \<Longrightarrow>
      lz4_decompress_into sample_env (sample_pack d) buf = (Inr (length d), d)" for buf
    by (simp add: sample_env_def sample_unpack_pack put_range_def)
  moreover have "0 < length (sample_pack d)"
    by (simp add: sample_pack_def)
  ultimately show "\<exists>n out'. lz4_compress_into sample_env d out = (Inr n, out') \<and> (d \<noteq> [] \<longrightarrow> 0 < n)
        \<and> (\<forall>buf. length buf = length d \<longrightarrow>
             lz4_decompress_into sample_env (take n out') buf = (Inr (length d), d))"
    by force
qed

lemma sample_env_bound: "lz4_bound_mono sample_env"
  by (simp add: lz4_bound_mono_def sample_env_def)

lemma sample_env_pure: "lz4_pure sample_env"
  by (auto simp: lz4_pure_def sample_env_def put_range_def split: option.splits)

lemma sample_env_aead: "aead_lawful sample_env"
  by (auto simp: aead_lawful_def sample_env_def)

lemma sample_env_alloc: "alloc_total sample_env"
  by (simp add: alloc_total_def sample_env_def)

end
