(* ===== verification/Path.thy ===== *)
theory Path
  imports Externals
begin

text \<open>
  Asset paths (\<open>path.rs\<close>): normalisation of virtual paths and their hashes.  A path is the
  list of the UTF-8 bytes of the Rust string; the separators are ASCII, so splitting the
  characters and splitting the bytes agree.  The lemmas characterise normalisation by the
  list of its components, show that its result is a fixed point, and that it keeps UTF-8.
\<close>

section \<open>Model\<close>

definition MAX_PATH_LEN :: usize where
  "MAX_PATH_LEN = 65535"

definition MAX_PATH_SEGMENTS :: usize where
  "MAX_PATH_SEGMENTS = 1024"

definition slash :: u8 where "slash = 0x2F"
definition backslash :: u8 where "backslash = 0x5C"
definition dot :: u8 where "dot = 0x2E"

definition is_sep :: "u8 \<Rightarrow> bool" where
  "is_sep b \<longleftrightarrow> b = slash \<or> b = backslash"

text \<open>\<open>str::split\<close> on the two separators: \<open>n\<close> separators give \<open>n + 1\<close> parts.\<close>

fun split_seps :: "bytes \<Rightarrow> bytes list" where
  "split_seps [] = [[]]"
| "split_seps (b # bs) =
     (if is_sep b then [] # split_seps bs
      else (case split_seps bs of
              [] \<Rightarrow> [[b]]
            | p # ps \<Rightarrow> (b # p) # ps))"

text \<open>The loop over the enumerated parts, with the string built so far.\<close>

fun normalize_parts :: "nat \<Rightarrow> bytes list \<Rightarrow> bytes \<Rightarrow> (bytes, error) res" where
  "normalize_parts index [] normalized = Ok normalized"
| "normalize_parts index (part # rest) normalized =
     (if \<not> index < MAX_PATH_SEGMENTS then Err InvalidPath
      else if part = [] \<or> part = [dot] then normalize_parts (Suc index) rest normalized
      else if part = [dot, dot] then Err InvalidPath
      else normalize_parts (Suc index) rest
             ((if normalized \<noteq> [] then normalized @ [slash] else normalized) @ part))"

definition normalize_path :: "env \<Rightarrow> bytes \<Rightarrow> (bytes, error) res" where
  "normalize_path E path =
     bind_res (ensure (length path \<le> MAX_PATH_LEN \<and> 0 \<notin> set path) InvalidPath) (\<lambda>_.
     bind_res (ensure (\<not> (path \<noteq> [] \<and> is_sep (hd path))) InvalidPath) (\<lambda>_.
     bind_res (ensure (alloc_ok E ''normalized path allocation'' (length path))
                 (TooLarge ''normalized path allocation'')) (\<lambda>_.
     bind_res (normalize_parts 0 (split_seps path) []) (\<lambda>normalized.
       if normalized \<noteq> [] \<and> length normalized \<le> MAX_PATH_LEN
       then Ok normalized else Err InvalidPath))))"

definition normalize_lookup_path :: "env \<Rightarrow> bytes \<Rightarrow> (bytes, error) res" where
  "normalize_lookup_path E path = normalize_path E path"

definition hash_path :: "env \<Rightarrow> bytes \<Rightarrow> (u64, error) res" where
  "hash_path E path = bind_res (normalize_path E path) (\<lambda>normalized. Ok (xxh3_64 E normalized))"

definition asset_id_from_raw :: "u64 \<Rightarrow> asset_id" where
  "asset_id_from_raw value = AssetId value"

definition asset_id_from_path :: "env \<Rightarrow> bytes \<Rightarrow> (asset_id, error) res" where
  "asset_id_from_path E path = bind_res (hash_path E path) (\<lambda>h. Ok (AssetId h))"

text \<open>\<open>hash.rs\<close>.\<close>

definition checksum :: "env \<Rightarrow> bytes \<Rightarrow> u64" where
  "checksum E data = xxh3_64 E data"

text \<open>
  \<open>str::from_utf8\<close> accepts the well-formed byte sequences of the Unicode standard: no
  overlong forms, no surrogates, nothing above U+10FFFF.
\<close>

definition utf8_cont :: "u8 \<Rightarrow> bool" where
  "utf8_cont b \<longleftrightarrow> 0x80 \<le> b \<and> b \<le> 0xBF"

definition utf8_lead2 :: "u8 \<Rightarrow> bool" where
  "utf8_lead2 b \<longleftrightarrow> 0xC2 \<le> b \<and> b \<le> 0xDF"

definition utf8_lead3 :: "u8 \<Rightarrow> bool" where
  "utf8_lead3 b \<longleftrightarrow> 0xE0 \<le> b \<and> b \<le> 0xEF"

definition utf8_lead4 :: "u8 \<Rightarrow> bool" where
  "utf8_lead4 b \<longleftrightarrow> 0xF0 \<le> b \<and> b \<le> 0xF4"

fun utf8_valid :: "bytes \<Rightarrow> bool" where
  "utf8_valid [] = True"
| "utf8_valid (b # bs) =
     (if b < 0x80 then utf8_valid bs
      else if utf8_lead2 b then
        (case bs of c # rest \<Rightarrow> utf8_cont c \<and> utf8_valid rest | [] \<Rightarrow> False)
      else if utf8_lead3 b then
        (case bs of c # d # rest \<Rightarrow>
             utf8_cont c \<and> (b = 0xE0 \<longrightarrow> 0xA0 \<le> c) \<and> (b = 0xED \<longrightarrow> c \<le> 0x9F)
           \<and> utf8_cont d \<and> utf8_valid rest
         | _ \<Rightarrow> False)
      else if utf8_lead4 b then
        (case bs of c # d # e # rest \<Rightarrow>
             utf8_cont c \<and> (b = 0xF0 \<longrightarrow> 0x90 \<le> c) \<and> (b = 0xF4 \<longrightarrow> c \<le> 0x8F)
           \<and> utf8_cont d \<and> utf8_cont e \<and> utf8_valid rest
         | _ \<Rightarrow> False)
      else False)"

section \<open>Splitting and joining\<close>

text \<open>The specification: the components that count, joined by single slashes.\<close>

definition proper_part :: "bytes \<Rightarrow> bool" where
  "proper_part p \<longleftrightarrow> p \<noteq> [] \<and> p \<noteq> [dot] \<and> p \<noteq> [dot, dot] \<and> (\<forall>b \<in> set p. \<not> is_sep b)"

fun join_slash :: "bytes list \<Rightarrow> bytes" where
  "join_slash [] = []"
| "join_slash [p] = p"
| "join_slash (p # q # ps) = p @ slash # join_slash (q # ps)"

definition kept_parts :: "bytes \<Rightarrow> bytes list" where
  "kept_parts path = filter (\<lambda>p. p \<noteq> [] \<and> p \<noteq> [dot]) (split_seps path)"

lemma split_seps_not_Nil [simp]: "split_seps bs \<noteq> []"
  by (cases bs) (auto split: list.splits)

lemma split_seps_no_sep: "p \<in> set (split_seps bs) \<Longrightarrow> \<forall>b \<in> set p. \<not> is_sep b"
  by (induction bs arbitrary: p) (fastforce split: if_splits list.splits)+

lemma split_seps_plain: "\<forall>b \<in> set p. \<not> is_sep b \<Longrightarrow> split_seps p = [p]"
  by (induction p) auto

lemma split_seps_append:
  "\<forall>b \<in> set p. \<not> is_sep b \<Longrightarrow> is_sep s \<Longrightarrow> split_seps (p @ s # bs) = p # split_seps bs"
  by (induction p) auto

lemma split_join:
  "ps \<noteq> [] \<Longrightarrow> \<forall>p \<in> set ps. \<forall>b \<in> set p. \<not> is_sep b \<Longrightarrow> split_seps (join_slash ps) = ps"
proof (induction ps rule: join_slash.induct)
  case (3 p q ps)
  then show ?case by (simp add: split_seps_append is_sep_def slash_def)
qed (auto simp: split_seps_plain)

lemma join_slash_Cons: "join_slash (p # ps) = (if ps = [] then p else p @ slash # join_slash ps)"
  by (cases ps) auto

lemma join_slash_append:
  "ps \<noteq> [] \<Longrightarrow> qs \<noteq> [] \<Longrightarrow> join_slash (ps @ qs) = join_slash ps @ slash # join_slash qs"
  by (induction ps rule: join_slash.induct) (auto simp: join_slash_Cons)

lemma join_slash_snoc: "ps \<noteq> [] \<Longrightarrow> join_slash (ps @ [p]) = join_slash ps @ slash # p"
  by (simp add: join_slash_append)

lemma join_slash_eq_Nil: "\<forall>p \<in> set ps. p \<noteq> [] \<Longrightarrow> join_slash ps = [] \<longleftrightarrow> ps = []"
  by (induction ps rule: join_slash.induct) auto

lemma set_join_slash: "set (join_slash ps) \<subseteq> insert slash (\<Union>p \<in> set ps. set p)"
  by (induction ps rule: join_slash.induct) auto

lemma set_split_seps: "(\<Union>p \<in> set (split_seps bs). set p) \<subseteq> set bs"
  by (induction bs) (fastforce split: list.splits if_splits)+

text \<open>Weights: a joined selection of the parts is no longer than the path was.\<close>

lemma length_join_slash: "ps \<noteq> [] \<Longrightarrow> Suc (length (join_slash ps)) = (\<Sum>p\<leftarrow>ps. Suc (length p))"
  by (induction ps rule: join_slash.induct) auto

lemma length_split_seps: "(\<Sum>p\<leftarrow>split_seps bs. Suc (length p)) = Suc (length bs)"
  by (induction bs) (auto split: list.splits)

lemma sum_list_filter_le: "(\<Sum>x\<leftarrow>filter P xs. f x) \<le> (\<Sum>x\<leftarrow>xs. f x :: nat)"
  by (induction xs) auto

lemma length_join_kept: "length (join_slash (kept_parts path)) \<le> length path"
proof (cases "kept_parts path = []")
  case False
  then have "Suc (length (join_slash (kept_parts path))) = (\<Sum>p\<leftarrow>kept_parts path. Suc (length p))"
    by (rule length_join_slash)
  also have "\<dots> \<le> (\<Sum>p\<leftarrow>split_seps path. Suc (length p))"
    unfolding kept_parts_def by (rule sum_list_filter_le)
  finally show ?thesis by (simp add: length_split_seps)
qed simp

section \<open>Normalisation\<close>

lemma normalize_parts_spec:
  assumes "\<forall>p \<in> set done. p \<noteq> []"
  shows "normalize_parts index parts (join_slash done) =
     (if index + length parts \<le> MAX_PATH_SEGMENTS \<and> [dot, dot] \<notin> set parts \<or> parts = []
      then Ok (join_slash (done @ filter (\<lambda>p. p \<noteq> [] \<and> p \<noteq> [dot]) parts))
      else Err InvalidPath)"
  using assms
proof (induction parts arbitrary: index "done")
  case Nil
  then show ?case by simp
next
  case (Cons part rest)
  consider "\<not> index < MAX_PATH_SEGMENTS" | "index < MAX_PATH_SEGMENTS" "part = [] \<or> part = [dot]"
    | "index < MAX_PATH_SEGMENTS" "part = [dot, dot]"
    | "index < MAX_PATH_SEGMENTS" "part \<noteq> []" "part \<noteq> [dot]" "part \<noteq> [dot, dot]"
    by blast
  then show ?case
  proof cases
    case 4
    have "(if join_slash done \<noteq> [] then join_slash done @ [slash] else join_slash done) @ part
        = join_slash (done @ [part])"
      using Cons.prems by (cases "done = []") (auto simp: join_slash_snoc join_slash_eq_Nil)
    with 4 Cons.prems Cons.IH [of "done @ [part]" "Suc index"] show ?thesis by auto
  qed (use Cons in auto)
qed

lemma normalize_path_Ok:
  "normalize_path E path = Ok q \<longleftrightarrow>
     length path \<le> MAX_PATH_LEN \<and> 0 \<notin> set path \<and> \<not> (path \<noteq> [] \<and> is_sep (hd path))
   \<and> alloc_ok E ''normalized path allocation'' (length path)
   \<and> length (split_seps path) \<le> MAX_PATH_SEGMENTS \<and> [dot, dot] \<notin> set (split_seps path)
   \<and> kept_parts path \<noteq> [] \<and> q = join_slash (kept_parts path)"
proof -
  have nonempty: "\<forall>p \<in> set (kept_parts path). p \<noteq> []"
    by (auto simp: kept_parts_def)
  have "length (join_slash (kept_parts path)) \<le> MAX_PATH_LEN" if "length path \<le> MAX_PATH_LEN"
    using length_join_kept [of path] that by simp
  then show ?thesis
    using normalize_parts_spec [of "[]" 0 "split_seps path"] join_slash_eq_Nil [OF nonempty]
    by (auto simp: normalize_path_def res_simps kept_parts_def [symmetric])
qed

lemma kept_parts_proper:
  "[dot, dot] \<notin> set (split_seps path) \<Longrightarrow> p \<in> set (kept_parts path) \<Longrightarrow> proper_part p"
  using split_seps_no_sep by (auto simp: kept_parts_def proper_part_def)

lemma kept_parts_join:
  assumes "ps \<noteq> []" "\<forall>p \<in> set ps. proper_part p"
  shows "kept_parts (join_slash ps) = ps"
proof -
  have "split_seps (join_slash ps) = ps"
    using assms by (intro split_join) (auto simp: proper_part_def)
  then show ?thesis
    using assms(2) by (simp add: kept_parts_def filter_id_conv proper_part_def)
qed

lemma hd_join_slash: "ps \<noteq> [] \<Longrightarrow> hd ps \<noteq> [] \<Longrightarrow> hd (join_slash ps) = hd (hd ps)"
  by (cases ps rule: join_slash.cases) auto

lemma normalize_path_no_panic [no_panic]: "normalize_path E path \<noteq> Panic"
  using normalize_parts_spec [of "[]" 0 "split_seps path"]
  by (auto simp: normalize_path_def bind_res_Panic ensure_def)

text \<open>A normalised path consists of proper parts, and every path of proper parts is fixed.\<close>

lemma normalize_path_parts:
  assumes "normalize_path E path = Ok q"
  obtains ps where "ps \<noteq> []" "\<forall>p \<in> set ps. proper_part p" "q = join_slash ps"
    "length ps \<le> MAX_PATH_SEGMENTS" "length q \<le> length path" "set q \<subseteq> insert slash (set path)"
proof
  let ?ps = "kept_parts path"
  show "?ps \<noteq> []" "q = join_slash ?ps"
    using assms by (auto simp: normalize_path_Ok)
  show "\<forall>p \<in> set ?ps. proper_part p"
    using assms kept_parts_proper by (auto simp: normalize_path_Ok)
  have "length ?ps \<le> length (split_seps path)"
    by (simp add: kept_parts_def)
  then show "length ?ps \<le> MAX_PATH_SEGMENTS"
    using assms by (simp add: normalize_path_Ok)
  show "length q \<le> length path"
    using assms length_join_kept by (auto simp: normalize_path_Ok)
  have "(\<Union>p \<in> set ?ps. set p) \<subseteq> set path"
    using set_split_seps [of path] by (auto simp: kept_parts_def)
  then show "set q \<subseteq> insert slash (set path)"
    using set_join_slash [of ?ps] \<open>q = join_slash ?ps\<close> by blast
qed

lemma normalize_path_fixed:
  assumes "ps \<noteq> []" "\<forall>p \<in> set ps. proper_part p" "length ps \<le> MAX_PATH_SEGMENTS"
    "length (join_slash ps) \<le> MAX_PATH_LEN" "0 \<notin> set (join_slash ps)"
    "alloc_ok E ''normalized path allocation'' (length (join_slash ps))"
  shows "normalize_path E (join_slash ps) = Ok (join_slash ps)"
proof -
  have split: "split_seps (join_slash ps) = ps"
    using assms by (intro split_join) (auto simp: proper_part_def)
  have "proper_part (hd ps)" using assms by simp
  then have "hd (join_slash ps) = hd (hd ps)" "\<not> is_sep (hd (hd ps))"
    using assms(1) by (auto simp: hd_join_slash proper_part_def)
  then show ?thesis
    using assms split by (auto simp: normalize_path_Ok kept_parts_join proper_part_def)
qed

section \<open>UTF-8\<close>

lemma utf8_cont_not_ascii: "s < 0x80 \<Longrightarrow> \<not> utf8_cont s"
  by (auto simp: utf8_cont_def)

lemma utf8_valid_split:
  "s < 0x80 \<Longrightarrow> utf8_valid (xs @ s # ys) \<longleftrightarrow> utf8_valid xs \<and> utf8_valid ys"
proof (induction xs rule: utf8_valid.induct)
  case 1
  then show ?case by simp
next
  case (2 b bs)
  note nc = utf8_cont_not_ascii [OF "2.prems"]
  consider (one) "b < 0x80" | (two) "\<not> b < 0x80" "utf8_lead2 b"
    | (three) "\<not> b < 0x80" "\<not> utf8_lead2 b" "utf8_lead3 b"
    | (four) "\<not> b < 0x80" "\<not> utf8_lead2 b" "\<not> utf8_lead3 b"
        "utf8_lead4 b"
    | (bad) "\<not> b < 0x80" "\<not> utf8_lead2 b" "\<not> utf8_lead3 b"
        "\<not> utf8_lead4 b"
    by blast
  then show ?case
  proof cases
    case one
    with "2.IH"(1) "2.prems" show ?thesis by simp
  next
    case two
    with "2.IH"(2) "2.prems" nc show ?thesis by (cases bs) simp_all
  next
    case three
    with "2.IH"(3) "2.prems" nc show ?thesis by (cases bs; cases "tl bs") (simp_all split: list.splits)
  next
    case four
    with "2.IH"(4) "2.prems" nc show ?thesis
      by (cases bs; cases "tl bs"; cases "tl (tl bs)") (simp_all split: list.splits)
  next
    case bad
    then show ?thesis by simp
  qed
qed

lemma is_sep_ascii: "is_sep b \<Longrightarrow> b < 0x80"
  by (auto simp: is_sep_def slash_def backslash_def)

lemma utf8_valid_parts: "utf8_valid path \<longleftrightarrow> (\<forall>p \<in> set (split_seps path). utf8_valid p)"
proof (induction "length path" arbitrary: path rule: less_induct)
  case less
  show ?case
  proof (cases "\<exists>b \<in> set path. is_sep b")
    case False
    then show ?thesis by (simp add: split_seps_plain)
  next
    case True
    then obtain p s rest where path: "path = p @ s # rest" "is_sep s" "\<forall>b \<in> set p. \<not> is_sep b"
      using split_list_first_prop by metis
    then have "utf8_valid rest \<longleftrightarrow> (\<forall>p \<in> set (split_seps rest). utf8_valid p)"
      by (intro less) simp
    then show ?thesis
      using path by (simp add: utf8_valid_split is_sep_ascii split_seps_append)
  qed
qed

lemma utf8_valid_join:
  "\<forall>p \<in> set ps. utf8_valid p \<Longrightarrow> utf8_valid (join_slash ps)"
  by (induction ps rule: join_slash.induct) (auto simp: utf8_valid_split slash_def)

lemma normalize_path_utf8:
  assumes "utf8_valid path" "normalize_path E path = Ok q"
  shows "utf8_valid q"
  using assms utf8_valid_parts [of path]
  by (auto simp: normalize_path_Ok kept_parts_def intro!: utf8_valid_join)

lemma normalize_path_idempotent:
  assumes "normalize_path E path = Ok q"
    and "alloc_ok E ''normalized path allocation'' (length q)"
  shows "normalize_path E q = Ok q"
proof -
  obtain ps where ps: "ps \<noteq> []" "\<forall>p \<in> set ps. proper_part p" "q = join_slash ps"
    "length ps \<le> MAX_PATH_SEGMENTS" "length q \<le> length path" "set q \<subseteq> insert slash (set path)"
    using assms(1) by (rule normalize_path_parts)
  have "length path \<le> MAX_PATH_LEN" "0 \<notin> set path"
    using assms(1) by (auto simp: normalize_path_Ok)
  then have "length q \<le> MAX_PATH_LEN" "0 \<notin> set q"
    using ps(5,6) by (auto simp: slash_def)
  then show ?thesis
    using normalize_path_fixed [of ps E] ps assms(2) by simp
qed

section \<open>Properties\<close>

lemma normalize_sample:
  "normalize_path sample_env [0x2E, 0x2F, 0x61, 0x2F, 0x2F, 0x62] = Ok [0x61, 0x2F, 0x62]"
  by (simp add: normalize_path_def sample_env_def MAX_PATH_LEN_def MAX_PATH_SEGMENTS_def is_sep_def
      slash_def backslash_def dot_def)

text \<open>
  C37: what a normalised path looks like.  It is a non-empty sequence of at most 1024
  components joined by single slashes; no component is empty, \<open>.\<close> or \<open>..\<close>, none contains a
  separator, the path holds no NUL byte, it fits in the 16-bit length field, it is no longer
  than the input, and it is UTF-8 if the input is.  So no archive path escapes upwards.
\<close>

theorem normalize_path_shape:
  assumes "normalize_path E path = Ok q"
  shows "\<exists>ps. ps \<noteq> [] \<and> length ps \<le> MAX_PATH_SEGMENTS \<and> q = join_slash ps
    \<and> (\<forall>p \<in> set ps. p \<noteq> [] \<and> p \<noteq> [dot] \<and> p \<noteq> [dot, dot] \<and> slash \<notin> set p \<and> backslash \<notin> set p)
    \<and> 0 \<notin> set q \<and> length q \<le> 65535 \<and> length q \<le> length path
    \<and> (utf8_valid path \<longrightarrow> utf8_valid q)"
proof -
  obtain ps where ps: "ps \<noteq> []" "\<forall>p \<in> set ps. proper_part p" "q = join_slash ps"
    "length ps \<le> MAX_PATH_SEGMENTS" "length q \<le> length path" "set q \<subseteq> insert slash (set path)"
    using assms by (rule normalize_path_parts)
  moreover have "length path \<le> 65535" "0 \<notin> set path"
    using assms by (auto simp: normalize_path_Ok MAX_PATH_LEN_def)
  moreover have "utf8_valid path \<longrightarrow> utf8_valid q"
    using assms normalize_path_utf8 by blast
  ultimately show ?thesis
    by (intro exI [of _ ps]) (auto simp: proper_part_def is_sep_def slash_def)
qed

theorem normalize_path_shape_witness:
  "\<exists>ps. ps \<noteq> [] \<and> length ps \<le> MAX_PATH_SEGMENTS \<and> [0x61, 0x2F, 0x62] = join_slash ps"
  using normalize_path_shape [OF normalize_sample] by blast

end
