(* ===== verification/Format_IO.thy ===== *)
theory Format_IO
  imports Path
begin

text \<open>
  The bottom of the archive format: the constants of \<open>format/mod.rs\<close>, the records of
  \<open>format/model.rs\<close> and the helpers of \<open>format/io.rs\<close> (alignment, checked conversions, a
  reader over a byte slice, and the cursor over the decoded table of contents).
\<close>

section \<open>Constants\<close>

definition MAGIC :: bytes where "MAGIC = [0x52, 0x50, 0x41, 0x4B]"
definition TOC_MAGIC :: bytes where "TOC_MAGIC = [0x54, 0x4F, 0x43, 0x32]"
definition VERSION :: u16 where "VERSION = 1"
definition HEADER_SIZE :: u64 where "HEADER_SIZE = 60"
definition DEFAULT_CHUNK_SIZE :: usize where "DEFAULT_CHUNK_SIZE = 64 * 1024"
definition DEFAULT_ALIGNMENT :: u32 where "DEFAULT_ALIGNMENT = 16"

definition HEADER_FLAG_TOC_LZ4 :: u16 where "HEADER_FLAG_TOC_LZ4 = 1"
definition HEADER_FLAG_TOC_XOR :: u16 where "HEADER_FLAG_TOC_XOR = 2"
definition HEADER_FLAG_CHUNKED :: u16 where "HEADER_FLAG_CHUNKED = 4"
definition HEADER_FLAG_XXH3 :: u16 where "HEADER_FLAG_XXH3 = 8"
definition HEADER_FLAG_PATHS_STRIPPED :: u16 where "HEADER_FLAG_PATHS_STRIPPED = 16"
definition HEADER_FLAG_AEAD :: u16 where "HEADER_FLAG_AEAD = 32"

definition REQUIRED_HEADER_FLAGS :: u16 where
  "REQUIRED_HEADER_FLAGS = HEADER_FLAG_TOC_LZ4 OR HEADER_FLAG_CHUNKED OR HEADER_FLAG_XXH3"

definition KNOWN_HEADER_FLAGS :: u16 where
  "KNOWN_HEADER_FLAGS =
     REQUIRED_HEADER_FLAGS OR HEADER_FLAG_TOC_XOR OR HEADER_FLAG_PATHS_STRIPPED OR HEADER_FLAG_AEAD"

definition CHUNK_FLAG_LZ4 :: u16 where "CHUNK_FLAG_LZ4 = 1"

definition MAX_TOC_STORED_SIZE :: u64 where "MAX_TOC_STORED_SIZE = 256 * 1024 * 1024"
definition MAX_TOC_RAW_SIZE :: u64 where "MAX_TOC_RAW_SIZE = 512 * 1024 * 1024"
definition MAX_CHUNK_SIZE :: usize where "MAX_CHUNK_SIZE = 64 * 1024 * 1024"
definition MAX_ALIGNMENT :: u32 where "MAX_ALIGNMENT = 1024 * 1024"
definition TOC_ENTRY_FIXED_SIZE :: usize where "TOC_ENTRY_FIXED_SIZE = 36"
definition TOC_CHUNK_FIXED_SIZE :: usize where "TOC_CHUNK_FIXED_SIZE = 36"

definition validate_chunk_size :: "usize \<Rightarrow> (unit, error) res" where
  "validate_chunk_size chunk_size =
     (if chunk_size = 0 \<or> MAX_CHUNK_SIZE < chunk_size then Err InvalidChunkSize else Ok ())"

definition validate_alignment :: "u32 \<Rightarrow> (unit, error) res" where
  "validate_alignment alignment =
     (if alignment = 0 \<or> MAX_ALIGNMENT < alignment \<or> \<not> is_power_of_two alignment
      then Err InvalidAlignment else Ok ())"

section \<open>Records of the table of contents\<close>

record toc_entry =
  e_path :: bytes
  e_path_hash :: u64
  e_original_size :: u64
  e_stored_size :: u64
  e_first_chunk :: u32
  e_chunk_count :: u32

record chunk =
  c_offset :: u64
  c_stored_size :: u64
  c_original_size :: u64
  c_checksum :: u64
  c_compressed :: bool

section \<open>Conversions and alignment\<close>

definition align_up :: "u64 \<Rightarrow> u64 \<Rightarrow> (u64, error) res" where
  "align_up value alignment =
     bind_res (sub_or_panic alignment 1) (\<lambda>mask.
       ok_or (map_option (\<lambda>v. v AND NOT mask) (checked_add value mask)) (TooLarge ''aligned offset''))"

definition usize_to_u32 :: "usize \<Rightarrow> string \<Rightarrow> (u32, error) res" where
  "usize_to_u32 v what = (if v < 2 ^ 32 then Ok (of_nat v) else Err (TooLarge what))"

definition usize_to_u64 :: "usize \<Rightarrow> string \<Rightarrow> (u64, error) res" where
  "usize_to_u64 v what = (if v < 2 ^ 64 then Ok (of_nat v) else Err (TooLarge what))"

definition u64_to_usize :: "env \<Rightarrow> u64 \<Rightarrow> string \<Rightarrow> (usize, error) res" where
  "u64_to_usize E v what = (if unat v \<le> usize_max E then Ok (unat v) else Err (TooLarge what))"

text \<open>\<open>usize::try_from\<close> of a \<open>u32\<close>, and checked arithmetic on \<open>usize\<close>.\<close>

definition u32_to_usize :: "env \<Rightarrow> u32 \<Rightarrow> usize option" where
  "u32_to_usize E v = (if unat v \<le> usize_max E then Some (unat v) else None)"

definition usize_add :: "env \<Rightarrow> usize \<Rightarrow> usize \<Rightarrow> usize option" where
  "usize_add E a b = (if a + b \<le> usize_max E then Some (a + b) else None)"

definition usize_mul :: "env \<Rightarrow> usize \<Rightarrow> usize \<Rightarrow> usize option" where
  "usize_mul E a b = (if a * b \<le> usize_max E then Some (a * b) else None)"

lemma usize_to_u32_Ok [arith_simps]:
  "usize_to_u32 v what = Ok w \<longleftrightarrow> v < 2 ^ 32 \<and> unat w = v"
  by (auto simp: usize_to_u32_def word_unat_eq_iff unat_of_nat)

lemma usize_to_u64_Ok [arith_simps]:
  "usize_to_u64 v what = Ok w \<longleftrightarrow> v < 2 ^ 64 \<and> unat w = v"
  by (auto simp: usize_to_u64_def word_unat_eq_iff unat_of_nat)

lemma u64_to_usize_Ok [arith_simps]:
  "u64_to_usize E v what = Ok n \<longleftrightarrow> unat v \<le> usize_max E \<and> n = unat v"
  by (auto simp: u64_to_usize_def)

lemma u32_to_usize_Some [arith_simps]:
  "u32_to_usize E v = Some n \<longleftrightarrow> unat v \<le> usize_max E \<and> n = unat v"
  by (auto simp: u32_to_usize_def)

lemma usize_add_Some [arith_simps]:
  "usize_add E a b = Some c \<longleftrightarrow> a + b \<le> usize_max E \<and> c = a + b"
  by (auto simp: usize_add_def)

lemma usize_mul_Some [arith_simps]:
  "usize_mul E a b = Some c \<longleftrightarrow> a * b \<le> usize_max E \<and> c = a * b"
  by (auto simp: usize_mul_def)

lemma conversions_no_panic [no_panic]:
  "usize_to_u32 v what \<noteq> Panic" "usize_to_u64 v what \<noteq> Panic" "u64_to_usize E w what \<noteq> Panic"
  "validate_chunk_size v \<noteq> Panic" "validate_alignment a \<noteq> Panic"
  by (simp_all add: usize_to_u32_def usize_to_u64_def u64_to_usize_def validate_chunk_size_def
      validate_alignment_def)

lemma validate_chunk_size_Ok [res_simps]:
  "validate_chunk_size n = Ok u \<longleftrightarrow> 0 < n \<and> n \<le> MAX_CHUNK_SIZE"
  by (auto simp: validate_chunk_size_def)

lemma validate_alignment_Ok [res_simps]:
  "validate_alignment a = Ok u \<longleftrightarrow> (\<exists>k \<le> 20. unat a = 2 ^ k)"
proof -
  have "a \<le> MAX_ALIGNMENT \<longleftrightarrow> unat a \<le> 2 ^ 20"
    by (simp add: MAX_ALIGNMENT_def word_le_nat_alt)
  then have "validate_alignment a = Ok u \<longleftrightarrow> unat a \<noteq> 0 \<and> unat a \<le> 2 ^ 20 \<and> (\<exists>k < 32. unat a = 2 ^ k)"
    by (auto simp: validate_alignment_def is_power_of_two_iff unat_eq_zero not_less)
  also have "\<dots> \<longleftrightarrow> (\<exists>k \<le> 20. unat a = 2 ^ k)"
  proof -
    have p: "(2::nat) ^ k \<le> 2 ^ 20 \<longleftrightarrow> k \<le> 20" for k
      by (rule power_increasing_iff) simp
    show ?thesis
    proof
      assume "\<exists>k \<le> 20. unat a = 2 ^ k"
      then obtain k where k: "k \<le> 20" "unat a = 2 ^ k" by blast
      then have "k < 32" "unat a \<le> 2 ^ 20" "unat a \<noteq> 0" using p by simp_all
      with k(2) show "unat a \<noteq> 0 \<and> unat a \<le> 2 ^ 20 \<and> (\<exists>k < 32. unat a = 2 ^ k)" by blast
    qed (use p in metis)
  qed
  finally show ?thesis .
qed

text \<open>
  \<open>align_up\<close> with a power of two: the least multiple that is not below the value.
\<close>

lemma and_not_mask:
  fixes v :: "'a::len word"
  assumes "k < LENGTH('a)"
  shows "v AND NOT (2 ^ k - 1) = push_bit k (drop_bit k v)"
  by (rule bit_word_eqI) (use assms in \<open>auto simp: bit_simps simp flip: mask_eq_exp_minus_1\<close>)

lemma unat_and_not_mask:
  fixes v :: "'a::len word"
  assumes "k < LENGTH('a)"
  shows "unat (v AND NOT (2 ^ k - 1)) = unat v div 2 ^ k * 2 ^ k"
proof -
  have d: "unat (v div 2 ^ k) = unat v div 2 ^ k"
    using assms by (simp add: unat_div unat_2_power)
  have "unat v div 2 ^ k * 2 ^ k \<le> unat v" by simp
  also have "unat v < 2 ^ LENGTH('a)" by simp
  finally have "unat (v div 2 ^ k * 2 ^ k) = unat v div 2 ^ k * 2 ^ k"
    using assms d unat_mult_lem [of "v div 2 ^ k" "2 ^ k"] by (simp add: unat_2_power)
  then show ?thesis
    by (simp add: and_not_mask [OF assms] push_bit_eq_mult drop_bit_eq_div)
qed

lemma align_up_pow2:
  assumes "unat a = 2 ^ k" "k < 64"
  shows "align_up v a = (if unat v + (2 ^ k - 1) < 2 ^ 64
           then Ok (of_nat ((unat v + (2 ^ k - 1)) div 2 ^ k * 2 ^ k))
           else Err (TooLarge ''aligned offset''))"
proof -
  have a: "a = 2 ^ k"
    using assms by (simp add: word_unat_eq_iff unat_2_power)
  have mask: "unat (a - 1) = 2 ^ k - 1"
    using assms by (simp add: a unat_sub word_le_nat_alt unat_2_power)
  have sub: "sub_or_panic a 1 = Ok (a - 1)"
    using assms by (simp add: sub_or_panic_def word_le_nat_alt)
  show ?thesis
  proof (cases "unat v + (2 ^ k - 1) < 2 ^ 64")
    case True
    then have sum: "unat (v + (a - 1)) = unat v + (2 ^ k - 1)"
      using mask unat_add_lem [of v "a - 1"] by simp
    have "(v + (a - 1)) AND NOT (a - 1) = of_nat ((unat v + (2 ^ k - 1)) div 2 ^ k * 2 ^ k)"
      using unat_and_not_mask [of k "v + (a - 1)"] assms(2) sum
      by (intro unat_imp_of_nat) (simp add: a)
    then show ?thesis
      using True mask by (simp add: align_up_def sub checked_add_def)
  next
    case False
    then show ?thesis
      using mask by (simp add: align_up_def sub checked_add_def)
  qed
qed

section \<open>Reading from a byte slice\<close>

text \<open>
  \<open>read_u16\<close>, \<open>read_u32\<close> and \<open>read_u64\<close> over \<open>io::Cursor\<close>: the state is the rest of
  the bytes, and a short read is \<open>UnexpectedEof\<close>.
\<close>

definition read_exact :: "usize \<Rightarrow> bytes \<Rightarrow> (bytes \<times> bytes, error) res" where
  "read_exact n r = (if n \<le> length r then Ok (take n r, drop n r)
                     else Err (Io (IoError KUnexpectedEof ''failed to fill whole buffer'')))"

definition read_u16 :: "bytes \<Rightarrow> (u16 \<times> bytes, error) res" where
  "read_u16 r = bind_res (read_exact 2 r) (\<lambda>(b, r'). Ok (from_le_bytes b, r'))"

definition read_u32 :: "bytes \<Rightarrow> (u32 \<times> bytes, error) res" where
  "read_u32 r = bind_res (read_exact 4 r) (\<lambda>(b, r'). Ok (from_le_bytes b, r'))"

definition read_u64 :: "bytes \<Rightarrow> (u64 \<times> bytes, error) res" where
  "read_u64 r = bind_res (read_exact 8 r) (\<lambda>(b, r'). Ok (from_le_bytes b, r'))"

section \<open>The cursor over a table of contents\<close>

record cursor =
  cur_data :: bytes
  cur_pos :: usize

definition cursor_new :: "bytes \<Rightarrow> cursor" where
  "cursor_new data = \<lparr> cur_data = data, cur_pos = 0 \<rparr>"

definition cursor_take :: "env \<Rightarrow> cursor \<Rightarrow> usize \<Rightarrow> (bytes \<times> cursor, error) res" where
  "cursor_take E c n =
     bind_res (ok_or (usize_add E (cur_pos c) n) (Corrupt ''TOC cursor overflow'')) (\<lambda>end.
     bind_res (ok_or (get_range (cur_data c) (cur_pos c) end) (Corrupt ''truncated TOC'')) (\<lambda>slice.
       Ok (slice, c\<lparr> cur_pos := end \<rparr>)))"

definition cursor_u16 :: "env \<Rightarrow> cursor \<Rightarrow> (u16 \<times> cursor, error) res" where
  "cursor_u16 E c = bind_res (cursor_take E c 2) (\<lambda>(b, c'). Ok (from_le_bytes b, c'))"

definition cursor_u32 :: "env \<Rightarrow> cursor \<Rightarrow> (u32 \<times> cursor, error) res" where
  "cursor_u32 E c = bind_res (cursor_take E c 4) (\<lambda>(b, c'). Ok (from_le_bytes b, c'))"

definition cursor_u64 :: "env \<Rightarrow> cursor \<Rightarrow> (u64 \<times> cursor, error) res" where
  "cursor_u64 E c = bind_res (cursor_take E c 8) (\<lambda>(b, c'). Ok (from_le_bytes b, c'))"

definition cursor_is_empty :: "cursor \<Rightarrow> bool" where
  "cursor_is_empty c \<longleftrightarrow> cur_pos c = length (cur_data c)"

lemma read_no_panic [no_panic]:
  "read_exact n r \<noteq> Panic" "read_u16 r \<noteq> Panic" "read_u32 r \<noteq> Panic" "read_u64 r \<noteq> Panic"
  by (auto simp: read_exact_def read_u16_def read_u32_def read_u64_def bind_res_Panic)

lemma cursor_no_panic [no_panic]:
  "cursor_take E c n \<noteq> Panic" "cursor_u16 E c \<noteq> Panic" "cursor_u32 E c \<noteq> Panic" "cursor_u64 E c \<noteq> Panic"
  by (auto simp: cursor_take_def cursor_u16_def cursor_u32_def cursor_u64_def bind_res_Panic
      ok_or_no_panic)

text \<open>
  The rest of a cursor is what it has not read.  On it the cursor behaves as a stream: a
  read takes a prefix off, and bytes written by an encoder are read back.
\<close>

definition cur_rest :: "cursor \<Rightarrow> bytes" where
  "cur_rest c = drop (cur_pos c) (cur_data c)"

definition cursor_wf :: "env \<Rightarrow> cursor \<Rightarrow> bool" where
  "cursor_wf E c \<longleftrightarrow> cur_pos c \<le> length (cur_data c) \<and> length (cur_data c) \<le> usize_max E"

lemma cursor_take_Ok:
  assumes "cursor_wf E c"
  shows "cursor_take E c n = Ok (b, c') \<longleftrightarrow>
     n \<le> length (cur_rest c) \<and> b = take n (cur_rest c) \<and> c' = c\<lparr> cur_pos := cur_pos c + n \<rparr>"
  using assms
  by (auto simp: cursor_take_def res_simps arith_simps get_range_Some cur_rest_def cursor_wf_def)

lemma cursor_advance [simp]:
  assumes "cursor_wf E c" "n \<le> length (cur_rest c)"
  shows "cursor_wf E (c\<lparr> cur_pos := cur_pos c + n \<rparr>)"
    "cur_rest (c\<lparr> cur_pos := cur_pos c + n \<rparr>) = drop n (cur_rest c)"
    "cur_data (c\<lparr> cur_pos := cur_pos c + n \<rparr>) = cur_data c"
  using assms by (auto simp: cursor_wf_def cur_rest_def add.commute)

lemma cursor_is_empty_rest: "cursor_wf E c \<Longrightarrow> cursor_is_empty c \<longleftrightarrow> cur_rest c = []"
  by (auto simp: cursor_is_empty_def cur_rest_def cursor_wf_def)

text \<open>The stream view of every reader: prefix off, state advanced.\<close>

definition cursor_reads :: "env \<Rightarrow> (cursor \<Rightarrow> ('v \<times> cursor, error) res) \<Rightarrow> ('v \<Rightarrow> bytes) \<Rightarrow> bool" where
  "cursor_reads E rd enc \<longleftrightarrow> (\<forall>c v c'. cursor_wf E c \<longrightarrow>
     (rd c = Ok (v, c') \<longleftrightarrow> (\<exists>rest. cur_rest c = enc v @ rest \<and> cursor_wf E c' \<and>
        cur_data c' = cur_data c \<and> cur_rest c' = rest \<and> cur_pos c' = cur_pos c + length (enc v))))"

context fixed_codec
begin

lemma cursor_reads_codec:
  assumes rd: "\<And>c. rd c = bind_res (cursor_take E c width) (\<lambda>(b, c'). Ok (dec b, c'))"
  shows "cursor_reads E rd enc"
  unfolding cursor_reads_def
proof (intro allI impI)
  fix c v and c' :: cursor
  assume wf: "cursor_wf E c"
  show "rd c = Ok (v, c') \<longleftrightarrow> (\<exists>rest. cur_rest c = enc v @ rest \<and> cursor_wf E c' \<and>
        cur_data c' = cur_data c \<and> cur_rest c' = rest \<and> cur_pos c' = cur_pos c + length (enc v))"
    (is "?l \<longleftrightarrow> ?r")
  proof
    assume ?l
    then have fits: "width \<le> length (cur_rest c)" and v: "v = dec (take width (cur_rest c))"
      and c': "c' = c\<lparr> cur_pos := cur_pos c + width \<rparr>"
      by (auto simp: rd res_simps cursor_take_Ok [OF wf])
    have "enc v = take width (cur_rest c)"
      using fits by (simp add: v enc_dec)
    then have "cur_rest c = enc v @ drop width (cur_rest c)"
      by (metis append_take_drop_id)
    then show ?r
      using wf fits by (simp add: c' enc_width)
  next
    assume ?r
    then obtain rest where rest: "cur_rest c = enc v @ rest" and data: "cur_data c' = cur_data c"
      and pos: "cur_pos c' = cur_pos c + width"
      by (auto simp: enc_width)
    have "c' = c\<lparr> cur_pos := cur_pos c + width \<rparr>"
      using data pos by simp
    then show ?l
      using rest by (simp add: rd bind_res_Ok cursor_take_Ok [OF wf] dec_enc enc_width)
  qed
qed

end

lemma cursor_reads_ints:
  "cursor_reads E (cursor_u16 E) (to_le_bytes 2)"
  "cursor_reads E (cursor_u32 E) (to_le_bytes 4)"
  "cursor_reads E (cursor_u64 E) (to_le_bytes 8)"
  by (auto intro!: le16.cursor_reads_codec le32.cursor_reads_codec le64.cursor_reads_codec
      simp: cursor_u16_def cursor_u32_def cursor_u64_def)

section \<open>Properties\<close>

text \<open>
  Alignment.  For every alignment that option and header validation accept, \<open>align_up\<close>
  returns the least multiple of the alignment that is not below the value; it reports
  \<open>TooLarge\<close> exactly if that sum leaves 64 bits, and the subtraction \<open>alignment - 1\<close> never
  underflows.
\<close>

lemma align_up_least:
  assumes "validate_alignment a = Ok ()"
  shows "case align_up v (ucast a) of
      Ok r \<Rightarrow> unat a dvd unat r \<and> unat v \<le> unat r \<and> (\<forall>m. unat a dvd m \<and> unat v \<le> m \<longrightarrow> unat r \<le> m)
    | Err e \<Rightarrow> e = TooLarge ''aligned offset'' \<and> 2 ^ 64 \<le> unat v + (unat a - 1)
    | Panic \<Rightarrow> False"
proof -
  obtain k where k: "k \<le> 20" "unat a = 2 ^ k" using assms by (auto simp: validate_alignment_Ok)
  then have k': "unat (ucast a :: u64) = 2 ^ k" "k < 64" by simp_all
  let ?r = "(unat v + (2 ^ k - 1)) div 2 ^ k * 2 ^ k"
  show ?thesis
  proof (cases "unat v + (2 ^ k - 1) < 2 ^ 64")
    case False
    then show ?thesis using k by (simp add: align_up_pow2 [OF k'])
  next
    case True
    have le: "?r \<le> unat v + (2 ^ k - 1)" by simp
    then have r: "unat (of_nat ?r :: u64) = ?r" using True by (intro unat_of_nat_u64) linarith
    have low: "unat v \<le> ?r"
    proof -
      have "unat v + (2 ^ k - 1) < ?r + 2 ^ k"
        using div_mult_mod_eq [of "unat v + (2 ^ k - 1)" "2 ^ k"] mod_less_divisor [of "2 ^ k" "unat v + (2 ^ k - 1)"]
        by (metis add_less_cancel_left nat_zero_less_power_iff zero_less_numeral)
      then show ?thesis by (simp add: less_diff_conv)
    qed
    have "?r \<le> m" if m: "2 ^ k dvd m" "unat v \<le> m" for m
    proof -
      obtain q where q: "m = q * 2 ^ k" using m(1) by (metis dvd_def mult.commute)
      have "(unat v + (2 ^ k - 1)) div 2 ^ k < Suc q"
      proof (subst div_less_iff_less_mult)
        show pos: "0 < (2::nat) ^ k" by simp
        show "unat v + (2 ^ k - 1) < Suc q * 2 ^ k" using m(2) q pos unfolding mult_Suc by linarith
      qed
      then show ?thesis unfolding q by (intro mult_le_mono1) simp
    qed
    with k r low True show ?thesis by (simp add: align_up_pow2 [OF k'] del: of_nat_mult)
  qed
qed

end
