(* ===== verification/Header.thy ===== *)
theory Header
  imports Format_IO
begin

text \<open>
  The fixed-size archive header (\<open>format/header.rs\<close>): its fields, the bytes the writer
  emits, the parser and the validation.  The parser inverts the writer in both directions,
  and validation is characterised by the conditions it leaves behind.
\<close>

section \<open>Model\<close>

record header =
  h_version :: u16
  h_flags :: u16
  h_header_size :: u32
  h_alignment :: u32
  h_chunk_size :: u32
  h_entry_count :: u32
  h_chunk_count :: u32
  h_toc_offset :: u64
  h_toc_size :: u64
  h_toc_raw_size :: u64
  h_toc_hash :: u64

text \<open>The pieces \<open>write_header\<close> passes to \<open>write_all\<close>, in order.\<close>

definition header_fields :: "header \<Rightarrow> bytes list" where
  "header_fields h =
     [MAGIC, to_le_bytes 2 (h_version h), to_le_bytes 2 (h_flags h), to_le_bytes 4 (h_header_size h),
      to_le_bytes 4 (h_alignment h), to_le_bytes 4 (h_chunk_size h), to_le_bytes 4 (h_entry_count h),
      to_le_bytes 4 (h_chunk_count h), to_le_bytes 8 (h_toc_offset h), to_le_bytes 8 (h_toc_size h),
      to_le_bytes 8 (h_toc_raw_size h), to_le_bytes 8 (h_toc_hash h)]"

fun write_pieces :: "(bytes \<Rightarrow> ('w, unit, io_error) stm) \<Rightarrow> bytes list \<Rightarrow> ('w, unit, error) stm" where
  "write_pieces write_all [] w = (Ok (), w)"
| "write_pieces write_all (p # ps) w =
     bind_st (\<lambda>w. map_prod from_io id (write_all p w)) (\<lambda>_. write_pieces write_all ps) w"

definition write_header :: "(bytes \<Rightarrow> ('w, unit, io_error) stm) \<Rightarrow> header \<Rightarrow> ('w, unit, error) stm" where
  "write_header write_all h = write_pieces write_all (header_fields h)"

definition read_header :: "bytes \<Rightarrow> (header \<times> bytes, error) res" where
  "read_header r =
     bind_res (read_exact 4 r) (\<lambda>(magic, r).
     bind_res (ensure (magic = MAGIC) BadMagic) (\<lambda>_.
     bind_res (read_u16 r) (\<lambda>(version, r).
     bind_res (read_u16 r) (\<lambda>(flags, r).
     bind_res (read_u32 r) (\<lambda>(header_size, r).
     bind_res (read_u32 r) (\<lambda>(alignment, r).
     bind_res (read_u32 r) (\<lambda>(chunk_size, r).
     bind_res (read_u32 r) (\<lambda>(entry_count, r).
     bind_res (read_u32 r) (\<lambda>(chunk_count, r).
     bind_res (read_u64 r) (\<lambda>(toc_offset, r).
     bind_res (read_u64 r) (\<lambda>(toc_size, r).
     bind_res (read_u64 r) (\<lambda>(toc_raw_size, r).
     bind_res (read_u64 r) (\<lambda>(toc_hash, r).
       Ok (\<lparr> h_version = version, h_flags = flags, h_header_size = header_size,
             h_alignment = alignment, h_chunk_size = chunk_size, h_entry_count = entry_count,
             h_chunk_count = chunk_count, h_toc_offset = toc_offset, h_toc_size = toc_size,
             h_toc_raw_size = toc_raw_size, h_toc_hash = toc_hash \<rparr>, r))))))))))))))"

definition validate_header :: "env \<Rightarrow> header \<Rightarrow> (unit, error) res" where
  "validate_header E h =
     bind_res (ensure (h_version h = VERSION) (UnsupportedVersion (h_version h))) (\<lambda>_.
     bind_res (ensure (h_header_size h = ucast HEADER_SIZE) (UnsupportedHeaderSize (h_header_size h))) (\<lambda>_.
     let protection = h_flags h AND (HEADER_FLAG_TOC_XOR OR HEADER_FLAG_AEAD) in
     bind_res (ensure (h_flags h AND REQUIRED_HEADER_FLAGS = REQUIRED_HEADER_FLAGS
                  \<and> h_flags h AND NOT KNOWN_HEADER_FLAGS = 0
                  \<and> count_ones protection = 1) (UnsupportedFlags (h_flags h))) (\<lambda>_.
     bind_res (ok_or (u32_to_usize E (h_chunk_size h)) InvalidChunkSize) (\<lambda>chunk_size.
     bind_res (validate_chunk_size chunk_size) (\<lambda>_.
     bind_res (validate_alignment (h_alignment h)) (\<lambda>_.
     bind_res (ensure (h_toc_size h \<le> MAX_TOC_STORED_SIZE) (TooLarge ''stored TOC'')) (\<lambda>_.
       ensure (h_toc_raw_size h \<le> MAX_TOC_RAW_SIZE) (TooLarge ''raw TOC''))))))))"

section \<open>Encoding and parsing\<close>

definition header_bytes :: "header \<Rightarrow> bytes" where
  "header_bytes h = concat (header_fields h)"

lemma length_header_bytes: "length (header_bytes h) = 60"
  by (simp add: header_bytes_def header_fields_def MAGIC_def)

lemma read_exact_append [simp]: "length a = n \<Longrightarrow> read_exact n (a @ r) = Ok (a, r)"
  by (simp add: read_exact_def)

lemma read_int_append [simp]:
  "read_u16 (to_le_bytes 2 v @ r) = Ok (v, r)"
  "read_u32 (to_le_bytes 4 w @ r) = Ok (w, r)"
  "read_u64 (to_le_bytes 8 x @ r) = Ok (x, r)"
  by (simp_all add: read_u16_def read_u32_def read_u64_def le16.dec_enc le32.dec_enc le64.dec_enc)

lemma read_exact_Ok [res_simps]:
  "read_exact n r = Ok (a, r') \<longleftrightarrow> length a = n \<and> r = a @ r'"
proof
  assume "read_exact n r = Ok (a, r')"
  then show "length a = n \<and> r = a @ r'"
    by (auto simp: read_exact_def split: if_splits)
qed auto

lemma read_int_Ok [res_simps]:
  "read_u16 r = Ok (v, r') \<longleftrightarrow> r = to_le_bytes 2 v @ r'"
  "read_u32 r = Ok (w, r') \<longleftrightarrow> r = to_le_bytes 4 w @ r'"
  "read_u64 r = Ok (x, r') \<longleftrightarrow> r = to_le_bytes 8 x @ r'"
  by (auto simp: read_u16_def read_u32_def read_u64_def res_simps
      le16.dec_enc le32.dec_enc le64.dec_enc le16.enc_dec le32.enc_dec le64.enc_dec)

lemma read_header_append: "read_header (header_bytes h @ rest) = Ok (h, rest)"
  by (simp add: read_header_def header_bytes_def header_fields_def MAGIC_def read_exact_def)

lemma read_header_Ok: "read_header r = Ok (h, rest) \<longleftrightarrow> r = header_bytes h @ rest"
proof
  assume "read_header r = Ok (h, rest)"
  then show "r = header_bytes h @ rest"
    by (auto simp: read_header_def res_simps header_bytes_def header_fields_def MAGIC_def)
qed (simp add: read_header_append)

lemma read_header_no_panic [no_panic]: "read_header r \<noteq> Panic"
  unfolding read_header_def by (intro no_panic)

section \<open>Validation\<close>

lemma validate_header_no_panic [no_panic]: "validate_header E h \<noteq> Panic"
  unfolding validate_header_def by (intro no_panic)

lemma validate_header_Ok:
  "validate_header E h = Ok u \<longleftrightarrow>
     h_version h = VERSION \<and> h_header_size h = 60
   \<and> h_flags h AND REQUIRED_HEADER_FLAGS = REQUIRED_HEADER_FLAGS
   \<and> h_flags h AND NOT KNOWN_HEADER_FLAGS = 0
   \<and> count_ones (h_flags h AND (HEADER_FLAG_TOC_XOR OR HEADER_FLAG_AEAD)) = 1
   \<and> unat (h_chunk_size h) \<le> usize_max E
   \<and> 0 < unat (h_chunk_size h) \<and> unat (h_chunk_size h) \<le> MAX_CHUNK_SIZE
   \<and> (\<exists>k \<le> 20. unat (h_alignment h) = 2 ^ k)
   \<and> h_toc_size h \<le> MAX_TOC_STORED_SIZE \<and> h_toc_raw_size h \<le> MAX_TOC_RAW_SIZE"
  unfolding validate_header_def Let_def
  by (auto simp: res_simps arith_simps HEADER_SIZE_def)

text \<open>Exactly one of the two protection flags is set.\<close>

lemma count_ones_protection:
  "count_ones (f AND (HEADER_FLAG_TOC_XOR OR HEADER_FLAG_AEAD)) =
     of_bool (bit f 1) + of_bool (bit f 5)"
proof -
  have 2: "HEADER_FLAG_TOC_XOR OR HEADER_FLAG_AEAD = (34 :: u16)"
    by (simp add: HEADER_FLAG_TOC_XOR_def HEADER_FLAG_AEAD_def)
  have "bit (34 :: u16) i \<longleftrightarrow> i = 1 \<or> i = 5" if "i < 16" for i
    using that by (simp add: numeral_eq_Suc less_Suc_eq) (elim disjE; simp add: numeral_eq_Suc)
  then show ?thesis
    by (simp add: count_ones_def 2 bit_and_iff upt_rec numeral_eq_Suc)
qed

lemma flag_set: "f AND HEADER_FLAG_TOC_XOR \<noteq> 0 \<longleftrightarrow> bit f 1" "f AND HEADER_FLAG_AEAD \<noteq> 0 \<longleftrightarrow> bit f 5"
    "f AND HEADER_FLAG_PATHS_STRIPPED \<noteq> 0 \<longleftrightarrow> bit f 4"
proof -
  have e: "HEADER_FLAG_TOC_XOR = 2 ^ 1" "HEADER_FLAG_AEAD = 2 ^ 5" "HEADER_FLAG_PATHS_STRIPPED = 2 ^ 4"
    by (simp_all add: HEADER_FLAG_TOC_XOR_def HEADER_FLAG_AEAD_def HEADER_FLAG_PATHS_STRIPPED_def)
  show "f AND HEADER_FLAG_TOC_XOR \<noteq> 0 \<longleftrightarrow> bit f 1" "f AND HEADER_FLAG_AEAD \<noteq> 0 \<longleftrightarrow> bit f 5"
    "f AND HEADER_FLAG_PATHS_STRIPPED \<noteq> 0 \<longleftrightarrow> bit f 4"
    unfolding e and_exp_eq_0_iff_not_bit by simp_all
qed

lemma flag_bits:
  "f AND REQUIRED_HEADER_FLAGS = REQUIRED_HEADER_FLAGS \<longleftrightarrow> bit f 0 \<and> bit f 2 \<and> bit f 3"
  "f AND NOT KNOWN_HEADER_FLAGS = 0 \<longleftrightarrow> (\<forall>i. 6 \<le> i \<longrightarrow> \<not> bit f i)"
proof -
  have 13: "REQUIRED_HEADER_FLAGS = 13" and 63: "KNOWN_HEADER_FLAGS = mask 6"
    by (simp_all add: REQUIRED_HEADER_FLAGS_def KNOWN_HEADER_FLAGS_def HEADER_FLAG_TOC_LZ4_def
        HEADER_FLAG_CHUNKED_def HEADER_FLAG_XXH3_def HEADER_FLAG_TOC_XOR_def
        HEADER_FLAG_PATHS_STRIPPED_def HEADER_FLAG_AEAD_def mask_eq_exp_minus_1)
  have "bit (13 :: u16) i \<longleftrightarrow> i = 0 \<or> i = 2 \<or> i = 3" if "i < 16" for i
    using that by (simp add: numeral_eq_Suc less_Suc_eq) (elim disjE; simp add: numeral_eq_Suc)
  then have b13: "bit (13 :: u16) i \<longleftrightarrow> i = 0 \<or> i = 2 \<or> i = 3" for i
    by (cases "i < 16") (auto dest: bit_imp_le_length)
  show "f AND REQUIRED_HEADER_FLAGS = REQUIRED_HEADER_FLAGS \<longleftrightarrow> bit f 0 \<and> bit f 2 \<and> bit f 3"
  proof -
    have "f AND 13 = 13 \<longleftrightarrow> (\<forall>n. bit (f AND 13) n = bit (13 :: u16) n)" by (metis bit_eqI)
    also have "\<dots> \<longleftrightarrow> bit f 0 \<and> bit f 2 \<and> bit f 3" unfolding bit_and_iff b13 by metis
    finally show ?thesis unfolding 13 .
  qed
  show "f AND NOT KNOWN_HEADER_FLAGS = 0 \<longleftrightarrow> (\<forall>i. 6 \<le> i \<longrightarrow> \<not> bit f i)"
  proof -
    have "f AND NOT (mask 6) = 0 \<longleftrightarrow> (\<forall>n. bit (f AND NOT (mask 6)) n = bit (0 :: u16) n)" by (metis bit_eqI)
    also have "\<dots> \<longleftrightarrow> (\<forall>i. 6 \<le> i \<longrightarrow> \<not> bit f i)"
      using bit_imp_le_length [of f]
      by (simp add: bit_and_iff bit_not_iff bit_mask_iff not_less) (metis not_le)
    finally show ?thesis unfolding 63 .
  qed
qed

section \<open>Properties\<close>

lemma write_pieces_append:
  "write_pieces (\<lambda>p w. (Ok (), w @ p)) ps w = (Ok (), w @ concat ps)"
  by (induction ps arbitrary: w) (simp_all add: bind_st_def)

text \<open>
  C25: parsing inverts writing, in both directions.  The parser accepts exactly the byte
  strings that start with what \<open>write_header\<close> writes for the header it returns, and leaves
  the bytes behind it untouched; so header bytes and header values determine each other.
\<close>

theorem header_roundtrip:
  "read_header r = Ok (h, rest) \<longleftrightarrow>
     (\<exists>out. write_header (\<lambda>p w. (Ok (), w @ p)) h [] = (Ok (), out) \<and> length out = unat HEADER_SIZE \<and> r = out @ rest)"
  by (auto simp: read_header_Ok write_header_def write_pieces_append header_bytes_def [symmetric]
      length_header_bytes HEADER_SIZE_def)

text \<open>
  C26: what header validation accepts, bit by bit: version 1, a 60-byte header, the LZ4,
  chunk and XXH3 flags set, exactly one of the XOR and AEAD flags, no flag above the sixth,
  a chunk size of 1 to 64 MiB that fits \<open>usize\<close>, a power-of-two alignment up to 1 MiB, and
  table-of-contents sizes within the hard maxima.
\<close>

theorem validate_header_accepts:
  "validate_header E h = Ok () \<longleftrightarrow>
     h_version h = 1 \<and> h_header_size h = 60
   \<and> bit (h_flags h) 0 \<and> bit (h_flags h) 2 \<and> bit (h_flags h) 3
   \<and> (bit (h_flags h) 1 \<longleftrightarrow> \<not> bit (h_flags h) 5) \<and> (\<forall>i \<ge> 6. \<not> bit (h_flags h) i)
   \<and> unat (h_chunk_size h) \<in> {1..min (64 * 2 ^ 20) (usize_max E)}
   \<and> (\<exists>k \<le> 20. unat (h_alignment h) = 2 ^ k)
   \<and> unat (h_toc_size h) \<le> 2 ^ 28 \<and> unat (h_toc_raw_size h) \<le> 2 ^ 29"
proof -
  have "h_toc_size h \<le> MAX_TOC_STORED_SIZE \<longleftrightarrow> unat (h_toc_size h) \<le> 2 ^ 28"
    "h_toc_raw_size h \<le> MAX_TOC_RAW_SIZE \<longleftrightarrow> unat (h_toc_raw_size h) \<le> 2 ^ 29"
    by (simp_all add: MAX_TOC_STORED_SIZE_def MAX_TOC_RAW_SIZE_def word_le_nat_alt)
  then show ?thesis
    unfolding validate_header_Ok flag_bits count_ones_protection
    by (auto simp: VERSION_def MAX_CHUNK_SIZE_def)
qed

definition sample_header :: header where
  "sample_header = \<lparr> h_version = 1, h_flags = 79, h_header_size = 60, h_alignment = 16, h_chunk_size = 64,
     h_entry_count = 0, h_chunk_count = 0, h_toc_offset = 64, h_toc_size = 5, h_toc_raw_size = 4, h_toc_hash = 0 \<rparr>"

theorem validate_header_accepts_witness: "validate_header sample_env sample_header \<noteq> Ok ()"
proof -
  have "bit (h_flags sample_header) 6" by (simp add: sample_header_def)
  then show ?thesis unfolding validate_header_accepts by auto
qed

end
