(* ===== verification/Limits.thy ===== *)
theory Limits
  imports Header
begin

text \<open>
  Options of the packer (\<open>pack/options.rs\<close>) and resource limits of the reader
  (\<open>ArchiveLimits\<close>, \<open>validate_limits\<close> and \<open>estimated_metadata_bytes\<close> of
  \<open>archive/reader.rs\<close>).  Caller limits are clamped to hard maxima, and what an accepted
  header can make the reader allocate is bounded by them.
\<close>

section \<open>Packing options\<close>

datatype pack_mode = Debug | Production
datatype protection = Xor | Aead

definition strips_paths :: "pack_mode \<Rightarrow> bool" where
  "strips_paths m = (case m of Production \<Rightarrow> True | Debug \<Rightarrow> False)"

record pack_options =
  o_chunk_size :: usize
  o_alignment :: u32
  o_mode :: pack_mode
  o_protection :: protection

definition default_pack_options :: pack_options where
  "default_pack_options = \<lparr> o_chunk_size = DEFAULT_CHUNK_SIZE, o_alignment = DEFAULT_ALIGNMENT,
     o_mode = Debug, o_protection = Xor \<rparr>"

definition pack_options_validate :: "pack_options \<Rightarrow> (pack_options, error) res" where
  "pack_options_validate opts =
     bind_res (validate_chunk_size (o_chunk_size opts)) (\<lambda>_.
     bind_res (validate_alignment (o_alignment opts)) (\<lambda>_. Ok opts))"

text \<open>\<open>impl Display for Protection\<close> and \<open>for PackMode\<close>.\<close>

definition protection_to_string :: "protection \<Rightarrow> string" where
  "protection_to_string p = (case p of Xor \<Rightarrow> ''xor'' | Aead \<Rightarrow> ''aead'')"

definition pack_mode_to_string :: "pack_mode \<Rightarrow> string" where
  "pack_mode_to_string m = (case m of Debug \<Rightarrow> ''debug'' | Production \<Rightarrow> ''production'')"

section \<open>Archive limits\<close>

record archive_limits =
  max_toc_stored_bytes :: u64
  max_toc_raw_bytes :: u64
  max_entries :: u32
  max_chunks :: u32
  max_chunks_per_operation :: u32
  max_path_bytes :: usize
  max_total_path_bytes :: u64
  max_total_decompressed_bytes :: u64
  max_single_asset_bytes :: u64
  max_metadata_bytes :: u64

definition HARD_MAX_ENTRIES :: u32 where "HARD_MAX_ENTRIES = 1000000"
definition HARD_MAX_CHUNKS :: u32 where "HARD_MAX_CHUNKS = 8000000"
definition HARD_MAX_CHUNKS_PER_OPERATION :: u32 where
  "HARD_MAX_CHUNKS_PER_OPERATION = HARD_MAX_CHUNKS"
definition HARD_MAX_PATH_BYTES :: usize where "HARD_MAX_PATH_BYTES = MAX_PATH_LEN"
definition HARD_MAX_TOTAL_PATH_BYTES :: u64 where "HARD_MAX_TOTAL_PATH_BYTES = 64 * 1024 * 1024"
definition HARD_MAX_TOTAL_DECOMPRESSED_BYTES :: u64 where
  "HARD_MAX_TOTAL_DECOMPRESSED_BYTES = 8 * 1024 * 1024 * 1024"
definition HARD_MAX_SINGLE_ASSET_BYTES :: u64 where
  "HARD_MAX_SINGLE_ASSET_BYTES = HARD_MAX_TOTAL_DECOMPRESSED_BYTES"
definition HARD_MAX_METADATA_BYTES :: u64 where "HARD_MAX_METADATA_BYTES = 2 * 1024 * 1024 * 1024"
definition HARD_MAX_IDENTIFIER_BUCKET_ENTRIES :: usize where "HARD_MAX_IDENTIFIER_BUCKET_ENTRIES = 64"

definition runtime_default :: archive_limits where
  "runtime_default = \<lparr>
     max_toc_stored_bytes = 64 * 1024 * 1024, max_toc_raw_bytes = 128 * 1024 * 1024,
     max_entries = 100000, max_chunks = 500000, max_chunks_per_operation = 65536,
     max_path_bytes = HARD_MAX_PATH_BYTES, max_total_path_bytes = 64 * 1024 * 1024,
     max_total_decompressed_bytes = 4 * 1024 * 1024 * 1024,
     max_single_asset_bytes = 512 * 1024 * 1024, max_metadata_bytes = 512 * 1024 * 1024 \<rparr>"

definition tooling_default :: archive_limits where
  "tooling_default = \<lparr>
     max_toc_stored_bytes = MAX_TOC_STORED_SIZE, max_toc_raw_bytes = MAX_TOC_RAW_SIZE,
     max_entries = HARD_MAX_ENTRIES, max_chunks = HARD_MAX_CHUNKS,
     max_chunks_per_operation = HARD_MAX_CHUNKS_PER_OPERATION,
     max_path_bytes = HARD_MAX_PATH_BYTES, max_total_path_bytes = HARD_MAX_TOTAL_PATH_BYTES,
     max_total_decompressed_bytes = HARD_MAX_TOTAL_DECOMPRESSED_BYTES,
     max_single_asset_bytes = HARD_MAX_SINGLE_ASSET_BYTES,
     max_metadata_bytes = HARD_MAX_METADATA_BYTES \<rparr>"

definition permissive_v1 :: archive_limits where
  "permissive_v1 = tooling_default"

definition clamped :: "archive_limits \<Rightarrow> archive_limits" where
  "clamped l = \<lparr>
     max_toc_stored_bytes = min (max_toc_stored_bytes l) MAX_TOC_STORED_SIZE,
     max_toc_raw_bytes = min (max_toc_raw_bytes l) MAX_TOC_RAW_SIZE,
     max_entries = min (max_entries l) HARD_MAX_ENTRIES,
     max_chunks = min (max_chunks l) HARD_MAX_CHUNKS,
     max_chunks_per_operation = min (max_chunks_per_operation l) HARD_MAX_CHUNKS_PER_OPERATION,
     max_path_bytes = min (max_path_bytes l) HARD_MAX_PATH_BYTES,
     max_total_path_bytes = min (max_total_path_bytes l) HARD_MAX_TOTAL_PATH_BYTES,
     max_total_decompressed_bytes = min (max_total_decompressed_bytes l) HARD_MAX_TOTAL_DECOMPRESSED_BYTES,
     max_single_asset_bytes = min (max_single_asset_bytes l) HARD_MAX_SINGLE_ASSET_BYTES,
     max_metadata_bytes = min (max_metadata_bytes l) HARD_MAX_METADATA_BYTES \<rparr>"

text \<open>\<open>usize\<close> sums converted with \<open>u64::try_from(..).ok()\<close>.\<close>

definition usize_to_u64_opt :: "usize \<Rightarrow> u64 option" where
  "usize_to_u64_opt v = (if v < 2 ^ 64 then Some (of_nat v) else None)"

definition estimated_metadata_bytes :: "env \<Rightarrow> header \<Rightarrow> (u64, error) res" where
  "estimated_metadata_bytes E h =
     bind_res (ok_or (Option.bind (usize_add E (size_of E ''TocEntry'') (size_of E ''Entry'')) (\<lambda>value.
                      Option.bind (usize_add E value (size_of E ''(AssetId, usize)'')) usize_to_u64_opt))
                MetadataLimitExceeded) (\<lambda>entry_bytes.
     bind_res (ok_or (Option.bind (usize_add E (size_of E ''Chunk'') 1) usize_to_u64_opt)
                MetadataLimitExceeded) (\<lambda>chunk_bytes.
       ok_or (Option.bind (checked_add (h_toc_size h) (h_toc_raw_size h)) (\<lambda>value.
              Option.bind (checked_add value (h_toc_raw_size h)) (\<lambda>value.
              Option.bind (Option.bind (checked_mul (ucast (h_entry_count h)) entry_bytes)
                             (\<lambda>entries. checked_add value entries)) (\<lambda>value.
              Option.bind (checked_mul (ucast (h_chunk_count h)) chunk_bytes)
                             (\<lambda>chunks. checked_add value chunks)))))
         MetadataLimitExceeded))"

definition validate_limits :: "env \<Rightarrow> header \<Rightarrow> archive_limits \<Rightarrow> (unit, error) res" where
  "validate_limits E h l =
     bind_res (ensure (h_toc_size h \<le> max_toc_stored_bytes l) (TooLarge ''stored TOC limit'')) (\<lambda>_.
     bind_res (ensure (h_toc_raw_size h \<le> max_toc_raw_bytes l) (TooLarge ''raw TOC limit'')) (\<lambda>_.
     bind_res (ensure (h_entry_count h \<le> max_entries l) TooManyEntries) (\<lambda>_.
     bind_res (ensure (h_chunk_count h \<le> max_chunks l) TooManyChunks) (\<lambda>_.
     bind_res (ensure (h_flags h AND HEADER_FLAG_PATHS_STRIPPED \<noteq> 0
                  \<or> ucast (h_entry_count h) \<le> max_total_path_bytes l) MetadataLimitExceeded) (\<lambda>_.
     bind_res (usize_to_u64 TOC_ENTRY_FIXED_SIZE ''TOC entry size'') (\<lambda>entry_record_size.
     bind_res (usize_to_u64 TOC_CHUNK_FIXED_SIZE ''TOC chunk size'') (\<lambda>chunk_record_size.
     bind_res (ok_or
        (Option.bind (checked_mul (ucast (h_entry_count h)) entry_record_size) (\<lambda>value.
         Option.bind (Option.bind (checked_mul (ucast (h_chunk_count h)) chunk_record_size)
                        (\<lambda>chunks. checked_add value chunks)) (\<lambda>value.
           checked_add value 4))) (TooLarge ''TOC record counts'')) (\<lambda>minimum.
     bind_res (if h_flags h AND HEADER_FLAG_PATHS_STRIPPED = 0
               then ok_or (checked_add minimum (ucast (h_entry_count h))) (TooLarge ''TOC record counts'')
               else Ok minimum) (\<lambda>minimum.
     bind_res (ensure (minimum \<le> h_toc_raw_size h) (Corrupt ''TOC counts exceed raw TOC size'')) (\<lambda>_.
     bind_res (estimated_metadata_bytes E h) (\<lambda>estimate.
       ensure (estimate \<le> max_metadata_bytes l) MetadataLimitExceeded)))))))))))"

section \<open>What the limits guarantee\<close>

text \<open>The memory the reader plans for, as a natural number.\<close>

definition metadata_cost :: "env \<Rightarrow> header \<Rightarrow> nat" where
  "metadata_cost E h = unat (h_toc_size h) + 2 * unat (h_toc_raw_size h)
     + unat (h_entry_count h) * (size_of E ''TocEntry'' + size_of E ''Entry'' + size_of E ''(AssetId, usize)'')
     + unat (h_chunk_count h) * (size_of E ''Chunk'' + 1)"

lemma usize_to_u64_opt_Some [arith_simps]:
  "usize_to_u64_opt v = Some w \<longleftrightarrow> v < 2 ^ 64 \<and> unat w = v"
  by (auto simp: usize_to_u64_opt_def word_unat_eq_iff unat_of_nat)

lemma estimated_metadata_bytes_Ok:
  "estimated_metadata_bytes E h = Ok n \<Longrightarrow> unat n = metadata_cost E h"
  by (auto simp: estimated_metadata_bytes_def res_simps arith_simps bind_eq_Some_conv metadata_cost_def)

lemma estimated_metadata_bytes_ex:
  assumes "metadata_cost E h < 2 ^ 64"
    "size_of E ''TocEntry'' + size_of E ''Entry'' + size_of E ''(AssetId, usize)'' \<le> min (usize_max E) (2 ^ 64 - 1)"
    "size_of E ''Chunk'' + 1 \<le> min (usize_max E) (2 ^ 64 - 1)"
  shows "estimated_metadata_bytes E h = Ok (of_nat (metadata_cost E h))"
proof -
  let ?eb = "size_of E ''TocEntry'' + size_of E ''Entry'' + size_of E ''(AssetId, usize)''"
  let ?cb = "size_of E ''Chunk'' + 1"
  have add: "a + b < 2 ^ 64 \<Longrightarrow> checked_add (of_nat a :: u64) (of_nat b) = Some (of_nat (a + b))" for a b
    by (auto simp: checked_add_def unat_of_nat)
  have mul: "a * b < 2 ^ 64 \<Longrightarrow> a < 2 ^ 64 \<Longrightarrow> b < 2 ^ 64 \<Longrightarrow>
      checked_mul (of_nat a :: u64) (of_nat b) = Some (of_nat (a * b))" for a b
    by (auto simp: checked_mul_def unat_of_nat)
  have w: "h_toc_size h = of_nat (unat (h_toc_size h))" "h_toc_raw_size h = of_nat (unat (h_toc_raw_size h))"
    "(ucast (h_entry_count h) :: u64) = of_nat (unat (h_entry_count h))"
    "(ucast (h_chunk_count h) :: u64) = of_nat (unat (h_chunk_count h))"
    by (auto intro!: unat_imp_of_nat)
  have small: "unat x < 2 ^ 64" for x :: u32
    by (rule order_less_trans [OF unat_bounds(2)]) simp
  have cost: "unat (h_toc_size h) + unat (h_toc_raw_size h) + unat (h_toc_raw_size h)
      + unat (h_entry_count h) * ?eb + unat (h_chunk_count h) * ?cb = metadata_cost E h"
    by (simp add: metadata_cost_def)
  have b: "unat (h_toc_size h) + unat (h_toc_raw_size h) < 2 ^ 64"
    "unat (h_toc_size h) + unat (h_toc_raw_size h) + unat (h_toc_raw_size h) < 2 ^ 64"
    "unat (h_entry_count h) * ?eb < 2 ^ 64" "unat (h_chunk_count h) * ?cb < 2 ^ 64"
    "unat (h_toc_size h) + unat (h_toc_raw_size h) + unat (h_toc_raw_size h) + unat (h_entry_count h) * ?eb < 2 ^ 64"
    using assms(1) cost by linarith+
  have conv: "usize_add E (size_of E ''TocEntry'') (size_of E ''Entry'') = Some (size_of E ''TocEntry'' + size_of E ''Entry'')"
    "usize_add E (size_of E ''TocEntry'' + size_of E ''Entry'') (size_of E ''(AssetId, usize)'') = Some ?eb"
    "usize_add E (size_of E ''Chunk'') 1 = Some ?cb"
    "usize_to_u64_opt ?eb = Some (of_nat ?eb)" "usize_to_u64_opt ?cb = Some (of_nat ?cb)"
    using assms(2,3) by (auto simp: usize_add_def usize_to_u64_opt_def)
  have eb: "?eb < 2 ^ 64" "?cb < 2 ^ 64" using assms(2,3) by auto
  show ?thesis
    unfolding estimated_metadata_bytes_def w(3,4)
    by (subst w(1), subst (1 2) w(2))
      (simp only: conv Option.bind.simps bind_res.simps ok_or_simps add [OF b(1)] add [OF b(2)]
        mul [OF b(3) small eb(1)] mul [OF b(4) small eb(2)] add [OF b(5)]
        add [OF assms(1) [folded cost]] cost)
qed

lemma limits_no_panic [no_panic]: "validate_limits E h l \<noteq> Panic" "pack_options_validate opts \<noteq> Panic"
proof -
  have "estimated_metadata_bytes E h \<noteq> Panic"
    unfolding estimated_metadata_bytes_def by (intro no_panic)
  then show "validate_limits E h l \<noteq> Panic"
    unfolding validate_limits_def by (intro no_panic)
  show "pack_options_validate opts \<noteq> Panic"
    unfolding pack_options_validate_def by (intro no_panic)
qed

lemma validate_limits_Ok:
  assumes "validate_limits E h l = Ok u"
  shows "h_toc_size h \<le> max_toc_stored_bytes l" "h_toc_raw_size h \<le> max_toc_raw_bytes l"
    "h_entry_count h \<le> max_entries l" "h_chunk_count h \<le> max_chunks l"
    "metadata_cost E h \<le> unat (max_metadata_bytes l)"
    "36 * unat (h_entry_count h) + 36 * unat (h_chunk_count h) + 4 \<le> unat (h_toc_raw_size h)"
proof -
  from assms obtain n where n: "estimated_metadata_bytes E h = Ok n" "n \<le> max_metadata_bytes l"
    by (auto simp: validate_limits_def res_simps)
  then show "metadata_cost E h \<le> unat (max_metadata_bytes l)"
    using estimated_metadata_bytes_Ok [OF n(1)] by (simp add: word_le_nat_alt)
  show "h_toc_size h \<le> max_toc_stored_bytes l" "h_toc_raw_size h \<le> max_toc_raw_bytes l"
    "h_entry_count h \<le> max_entries l" "h_chunk_count h \<le> max_chunks l"
    using assms by (auto simp: validate_limits_def res_simps)
  show "36 * unat (h_entry_count h) + 36 * unat (h_chunk_count h) + 4 \<le> unat (h_toc_raw_size h)"
    using assms
    by (auto simp: validate_limits_def res_simps arith_simps bind_eq_Some_conv word_le_nat_alt
        TOC_ENTRY_FIXED_SIZE_def TOC_CHUNK_FIXED_SIZE_def split: if_splits)
qed

lemma checked_of_nat_add:
  "i + j < 2 ^ 64 \<Longrightarrow> checked_add (of_nat i) (of_nat j) = Some (of_nat (i + j) :: u64)"
  using unat_of_nat_u64 [of "i + j"] unat_of_nat_u64 [of i] unat_of_nat_u64 [of j]
  by (simp add: checked_add_Some del: of_nat_add)

lemma checked_linear:
  fixes a b :: u64
  assumes "unat a * unat c + unat b * unat d + k < 2 ^ 64"
  shows "Option.bind (checked_mul a c) (\<lambda>value. Option.bind (Option.bind (checked_mul b d)
      (\<lambda>chunks. checked_add value chunks)) (\<lambda>value. checked_add value (of_nat k)))
    = Some (of_nat (unat a * unat c + unat b * unat d + k))"
proof -
  have b: "unat a * unat c < 2 ^ 64" "unat b * unat d < 2 ^ 64" "unat a * unat c + unat b * unat d < 2 ^ 64"
    using assms by linarith+
  have m: "checked_mul a c = Some (of_nat (unat a * unat c))" "checked_mul b d = Some (of_nat (unat b * unat d))"
    unfolding checked_mul_Some unat_of_nat_u64 [OF b(1)] unat_of_nat_u64 [OF b(2)] using b(1,2) by simp_all
  show ?thesis by (simp only: m Option.bind.simps checked_of_nat_add [OF b(3)] checked_of_nat_add [OF assms])
qed

lemma validate_limits_intro:
  assumes "h_toc_size h \<le> max_toc_stored_bytes l" "h_toc_raw_size h \<le> max_toc_raw_bytes l"
    "h_entry_count h \<le> max_entries l" "h_chunk_count h \<le> max_chunks l"
    and "bit (h_flags h) 4 \<or> unat (h_entry_count h) \<le> unat (max_total_path_bytes l)"
    and "36 * unat (h_entry_count h) + 36 * unat (h_chunk_count h) + 4
       + (if bit (h_flags h) 4 then 0 else unat (h_entry_count h)) \<le> unat (h_toc_raw_size h)"
    and "metadata_cost E h \<le> unat (max_metadata_bytes l)"
    "size_of E ''TocEntry'' + size_of E ''Entry'' + size_of E ''(AssetId, usize)'' \<le> min (usize_max E) (2 ^ 64 - 1)"
    "size_of E ''Chunk'' + 1 \<le> min (usize_max E) (2 ^ 64 - 1)"
  shows "validate_limits E h l = Ok ()"
proof -
  let ?e = "unat (h_entry_count h)" and ?c = "unat (h_chunk_count h)"
  have "?e < 4294967296" "?c < 4294967296" using unat_bounds(2) [of "h_entry_count h"] unat_bounds(2) [of "h_chunk_count h"] by simp_all
  then have "?e * 36 + ?c * 36 + 4 + ?e < 18446744073709551616" by linarith
  then have bound: "?e * 36 + ?c * 36 + 4 + ?e < 2 ^ 64" by simp
  have sizes: "usize_to_u64 TOC_ENTRY_FIXED_SIZE what = Ok 36" "usize_to_u64 TOC_CHUNK_FIXED_SIZE what = Ok 36" for what
    by (simp_all add: usize_to_u64_def TOC_ENTRY_FIXED_SIZE_def TOC_CHUNK_FIXED_SIZE_def)
  have mn: "Option.bind (checked_mul (ucast (h_entry_count h)) 36) (\<lambda>value.
         Option.bind (Option.bind (checked_mul (ucast (h_chunk_count h)) 36)
                        (\<lambda>chunks. checked_add value chunks)) (\<lambda>value.
           checked_add value 4)) = Some (of_nat (?e * 36 + ?c * 36 + 4) :: u64)"
  proof -
    have "unat (ucast (h_entry_count h) :: u64) * unat (36 :: u64) + unat (ucast (h_chunk_count h) :: u64) * unat (36 :: u64) + 4
        = ?e * 36 + ?c * 36 + 4" by simp
    then show ?thesis using checked_linear [of "ucast (h_entry_count h)" 36 "ucast (h_chunk_count h)" 36 4] bound
      by (simp only: of_nat_numeral)
  qed
  have umn: "unat (of_nat (?e * 36 + ?c * 36 + 4) :: u64) = ?e * 36 + ?c * 36 + 4"
    using bound by (intro unat_of_nat_u64) linarith
  have add: "checked_add (of_nat (?e * 36 + ?c * 36 + 4)) (ucast (h_entry_count h)) = Some (of_nat (?e * 36 + ?c * 36 + 4 + ?e) :: u64)"
    "unat (of_nat (?e * 36 + ?c * 36 + 4 + ?e) :: u64) = ?e * 36 + ?c * 36 + 4 + ?e"
    using checked_of_nat_add [OF bound] by (simp, intro unat_of_nat_u64 bound)
  have "unat (max_metadata_bytes l) < 2 ^ 64" by simp
  then have cost: "metadata_cost E h < 2 ^ 64" using assms(7) by linarith
  then have ucost: "unat (of_nat (metadata_cost E h) :: u64) = metadata_cost E h" by (simp add: unat_of_nat)
  have flag: "h_flags h AND HEADER_FLAG_PATHS_STRIPPED = 0 \<longleftrightarrow> \<not> bit (h_flags h) 4"
    using flag_set(3) by blast
  have paths: "ucast (h_entry_count h) \<le> max_total_path_bytes l \<longleftrightarrow> ?e \<le> unat (max_total_path_bytes l)"
    by (simp add: word_le_nat_alt)
  have raw: "of_nat (?e * 36 + ?c * 36 + 4) \<le> h_toc_raw_size h"
    "\<not> bit (h_flags h) 4 \<Longrightarrow> of_nat (?e * 36 + ?c * 36 + 4 + ?e) \<le> h_toc_raw_size h"
    and est: "of_nat (metadata_cost E h) \<le> max_metadata_bytes l"
    using assms(6,7) unfolding word_le_nat_alt umn add(2) ucost by (auto split: if_splits)
  obtain m1 m2 :: u64 where m: "of_nat (?e * 36 + ?c * 36 + 4) = m1" "of_nat (?e * 36 + ?c * 36 + 4 + ?e) = m2"
    by blast
  show ?thesis
    unfolding validate_limits_def flag flag_set sizes bind_res.simps mn [unfolded m]
      estimated_metadata_bytes_ex [OF cost assms(8,9)]
    using assms(1-5) raw [unfolded m] est by (auto simp: paths add(1) [unfolded m] ensure_def)
qed

lemma clamped_le:
  "max_entries (clamped l) \<le> HARD_MAX_ENTRIES" "max_chunks (clamped l) \<le> HARD_MAX_CHUNKS"
  "max_toc_raw_bytes (clamped l) \<le> MAX_TOC_RAW_SIZE" "max_toc_stored_bytes (clamped l) \<le> MAX_TOC_STORED_SIZE"
  "max_metadata_bytes (clamped l) \<le> HARD_MAX_METADATA_BYTES"
  "max_single_asset_bytes (clamped l) \<le> HARD_MAX_SINGLE_ASSET_BYTES"
  "max_total_decompressed_bytes (clamped l) \<le> HARD_MAX_TOTAL_DECOMPRESSED_BYTES"
  "max_chunks_per_operation (clamped l) \<le> HARD_MAX_CHUNKS_PER_OPERATION"
  by (simp_all add: clamped_def)

section \<open>Properties\<close>

text \<open>
  C36: the limits bound the reader's memory.  A header accepted under clamped limits plans for
  at most the caller's metadata limit and never for more than 2 GiB, where the plan counts
  the stored and twice the raw table of contents and every record of the entry, chunk and
  index arrays; and its counts fit the raw table of contents, so no count is a mere claim.
\<close>

theorem limits_bound_memory:
  assumes "validate_limits E h (clamped l) = Ok ()"
  shows "unat (h_toc_size h) + 2 * unat (h_toc_raw_size h)
       + unat (h_entry_count h) * (size_of E ''TocEntry'' + size_of E ''Entry'' + size_of E ''(AssetId, usize)'')
       + unat (h_chunk_count h) * (size_of E ''Chunk'' + 1) \<le> min (unat (max_metadata_bytes l)) (2 ^ 31)
     \<and> 36 * unat (h_entry_count h) + 36 * unat (h_chunk_count h) + 4 \<le> unat (h_toc_raw_size h)
     \<and> unat (h_toc_raw_size h) \<le> min (unat (max_toc_raw_bytes l)) (2 ^ 29)"
proof -
  have "unat (max_metadata_bytes (clamped l)) \<le> min (unat (max_metadata_bytes l)) (2 ^ 31)"
    "unat (max_toc_raw_bytes (clamped l)) \<le> min (unat (max_toc_raw_bytes l)) (2 ^ 29)"
    by (auto simp: clamped_def min_def HARD_MAX_METADATA_BYTES_def MAX_TOC_RAW_SIZE_def word_le_nat_alt)
  then show ?thesis
    using validate_limits_Ok(2,5,6) [OF assms] by (auto simp: metadata_cost_def word_le_nat_alt)
qed

definition sample_limits_header :: header where
  "sample_limits_header = \<lparr> h_version = 1, h_flags = 31, h_header_size = 60, h_alignment = 16, h_chunk_size = 64,
     h_entry_count = 2, h_chunk_count = 1, h_toc_offset = 64, h_toc_size = 100, h_toc_raw_size = 112, h_toc_hash = 0 \<rparr>"

theorem limits_bound_memory_witness:
  "unat (h_toc_raw_size sample_limits_header) \<le> min (unat (max_toc_raw_bytes tooling_default)) (2 ^ 29)"
proof -
  have "validate_limits sample_env sample_limits_header (clamped tooling_default) = Ok ()"
    by (rule validate_limits_intro)
      (simp_all add: sample_limits_header_def clamped_def tooling_default_def MAX_TOC_STORED_SIZE_def
        MAX_TOC_RAW_SIZE_def HARD_MAX_ENTRIES_def HARD_MAX_CHUNKS_def HARD_MAX_TOTAL_PATH_BYTES_def
        HARD_MAX_METADATA_BYTES_def metadata_cost_def sample_env_def)
  from limits_bound_memory [OF this] show ?thesis by blast
qed

end
