(* ===== verification/Index.thy ===== *)
theory Index
  imports Limits
begin

text \<open>
  The identifier index of an archive (\<open>Entry\<close>, \<open>validate_index\<close> and \<open>hash_range\<close> of
  \<open>archive/reader.rs\<close>): entry numbers sorted by path hash, the check of its buckets when an
  archive is opened, and the binary search that lookups use.  Binary search and the bucket
  scan are related to plain filters over the index.
\<close>

section \<open>Entries\<close>

record entry =
  en_path :: bytes
  en_path_hash :: u64
  en_original_size :: u64
  en_stored_size :: u64
  en_first_chunk :: u32
  en_chunk_count :: u32

definition entry_path :: "entry \<Rightarrow> bytes option" where
  "entry_path e = (if en_path e \<noteq> [] then Some (en_path e) else None)"

definition entry_from :: "toc_entry \<Rightarrow> entry" where
  "entry_from e = \<lparr> en_path = e_path e, en_path_hash = e_path_hash e,
     en_original_size = e_original_size e, en_stored_size = e_stored_size e,
     en_first_chunk = e_first_chunk e, en_chunk_count = e_chunk_count e \<rparr>"

lemma entry_from_simps [simp]:
  "en_path (entry_from e) = e_path e" "en_path_hash (entry_from e) = e_path_hash e"
  "en_original_size (entry_from e) = e_original_size e" "en_stored_size (entry_from e) = e_stored_size e"
  "en_first_chunk (entry_from e) = e_first_chunk e" "en_chunk_count (entry_from e) = e_chunk_count e"
  by (simp_all add: entry_from_def)

type_synonym id_index = "(asset_id \<times> usize) list"

section \<open>Binary search\<close>

text \<open>
  \<open>slice::partition_point\<close> of the standard library: halving with a base that moves only to
  positions where the predicate holds.
\<close>

function partition_loop :: "('a \<Rightarrow> bool) \<Rightarrow> 'a list \<Rightarrow> usize \<Rightarrow> usize \<Rightarrow> usize" where
  "partition_loop P xs base sz =
     (if sz \<le> 1 then base
      else partition_loop P xs (if P (xs ! (base + sz div 2)) then base + sz div 2 else base) (sz - sz div 2))"
  by pat_completeness auto

termination by (relation "measure (\<lambda>(P, xs, base, sz). sz)") auto

declare partition_loop.simps [simp del]

definition partition_point :: "('a \<Rightarrow> bool) \<Rightarrow> 'a list \<Rightarrow> usize" where
  "partition_point P xs =
     (if xs = [] then 0
      else let base = partition_loop P xs 0 (length xs) in base + (if P (xs ! base) then 1 else 0))"

definition hash_range :: "id_index \<Rightarrow> asset_id \<Rightarrow> (usize \<times> usize) option" where
  "hash_range index asset_id =
     (let start = partition_point (\<lambda>r. fst r < asset_id) index;
          end = partition_point (\<lambda>r. fst r \<le> asset_id) index
      in if start \<noteq> end then Some (start, end) else None)"

section \<open>Validation of the buckets\<close>

function bucket_end :: "id_index \<Rightarrow> usize \<Rightarrow> usize \<Rightarrow> usize" where
  "bucket_end index start end =
     (if end < length index \<and> fst (index ! end) = fst (index ! start)
      then bucket_end index start (end + 1) else end)"
  by pat_completeness auto

termination by (relation "measure (\<lambda>(index, start, end). length index - end)") auto

declare bucket_end.simps [simp del]

text \<open>The loop that inserts the paths of a bucket into a hash set.\<close>

fun check_bucket :: "entry list \<Rightarrow> bytes set \<Rightarrow> id_index \<Rightarrow> (unit, error) res" where
  "check_bucket entries paths [] = Ok ()"
| "check_bucket entries paths ((_, entry_index) # rest) =
     bind_res (index_at entries entry_index) (\<lambda>entry.
       if en_path entry \<in> paths then Err (DuplicatePath (en_path entry))
       else check_bucket entries (insert (en_path entry) paths) rest)"

lemma bucket_end_bounds:
  "end \<le> length index \<Longrightarrow> end \<le> bucket_end index start end \<and> bucket_end index start end \<le> length index"
proof (induction index start "end" rule: bucket_end.induct)
  case (1 index start "end")
  then show ?case
    by (subst (1 2) bucket_end.simps) auto
qed

function validate_index_from :: "env \<Rightarrow> entry list \<Rightarrow> id_index \<Rightarrow> bool \<Rightarrow> usize \<Rightarrow> (unit, error) res" where
  "validate_index_from E entries index paths_stripped start =
     (if start < length index then
        (let end = bucket_end index start (start + 1);
             bucket_len = end - start in
         bind_res (ensure (bucket_len \<le> HARD_MAX_IDENTIFIER_BUCKET_ENTRIES)
                     (TooLarge ''identifier collision bucket'')) (\<lambda>_.
         bind_res (ensure (\<not> (paths_stripped \<and> end - start \<noteq> 1))
                     (HashCollision (asset_id_get (fst (index ! start))))) (\<lambda>_.
         bind_res (ensure (alloc_ok E ''identifier collision bucket allocation'' bucket_len)
                     (TooLarge ''identifier collision bucket allocation'')) (\<lambda>_.
         bind_res (check_bucket entries {} (take (end - start) (drop start index))) (\<lambda>_.
           validate_index_from E entries index paths_stripped end)))))
      else Ok ())"
  by pat_completeness auto

termination
proof (relation "measure (\<lambda>(E, entries, index, ps, start). length index - start)")
  fix index :: id_index and start "end"
  assume lt: "start < length index" and e: "end = bucket_end index start (start + 1)"
  show "((E, entries, index, ps, end), E, entries, index, ps, start)
      \<in> measure (\<lambda>(E, entries, index, ps, start). length index - start)" for E :: env and entries :: "entry list" and ps :: bool
    using bucket_end_bounds [of "start + 1" index start] lt e
    by (simp del: Suc_le_eq) linarith
qed simp

declare validate_index_from.simps [simp del]

definition validate_index :: "env \<Rightarrow> entry list \<Rightarrow> id_index \<Rightarrow> bool \<Rightarrow> (unit, error) res" where
  "validate_index E entries index paths_stripped = validate_index_from E entries index paths_stripped 0"

section \<open>Correctness of the binary search\<close>

text \<open>A list is partitioned if no element satisfies the predicate after one that does not.\<close>

definition partitioned :: "('a \<Rightarrow> bool) \<Rightarrow> 'a list \<Rightarrow> bool" where
  "partitioned P xs \<longleftrightarrow> sorted_wrt (\<lambda>x y. P y \<longrightarrow> P x) xs"

lemma partitioned_split:
  "partitioned P xs \<Longrightarrow> xs = filter P xs @ filter (\<lambda>x. \<not> P x) xs"
proof (induction xs)
  case (Cons x xs)
  then have "\<not> P x \<Longrightarrow> filter P xs = []"
    by (auto simp: partitioned_def filter_empty_conv)
  with Cons show ?case by (auto simp: partitioned_def)
qed simp

lemma partitioned_nth:
  assumes "partitioned P xs" "i < length xs"
  shows "P (xs ! i) \<longleftrightarrow> i < length (filter P xs)"
proof -
  have "xs ! i = (filter P xs @ filter (\<lambda>x. \<not> P x) xs) ! i"
    using partitioned_split [OF assms(1)] by simp
  moreover have "length xs = length (filter P xs) + length (filter (\<lambda>x. \<not> P x) xs)"
    by (simp add: sum_length_filter_compl)
  ultimately show ?thesis
    using nth_mem [of i "filter P xs"] nth_mem [of "i - length (filter P xs)" "filter (\<lambda>x. \<not> P x) xs"] assms(2)
    by (auto simp: nth_append)
qed

lemma partition_loop_spec:
  assumes "partitioned P xs" "0 < sz" "base + sz \<le> length xs"
    "base \<le> length (filter P xs)" "length (filter P xs) \<le> base + sz"
  shows "partition_loop P xs base sz \<le> length (filter P xs)
       \<and> length (filter P xs) \<le> Suc (partition_loop P xs base sz)
       \<and> partition_loop P xs base sz < length xs"
  using assms(2-)
proof (induction sz arbitrary: base rule: less_induct)
  case (less sz)
  show ?case
  proof (cases "sz \<le> 1")
    case True
    with less.prems show ?thesis by (auto simp: partition_loop.simps [of P xs base sz])
  next
    case False
    then have "base + sz div 2 < length xs" using less.prems by auto
    then have mid: "P (xs ! (base + sz div 2)) \<longleftrightarrow> base + sz div 2 < length (filter P xs)"
      using partitioned_nth [OF assms(1)] by blast
    show ?thesis
      using False less.prems mid
        less.IH [of "sz - sz div 2" "if P (xs ! (base + sz div 2)) then base + sz div 2 else base"]
      by (auto simp: partition_loop.simps [of P xs base sz])
  qed
qed

lemma partition_point_filter:
  assumes "partitioned P xs"
  shows "partition_point P xs = length (filter P xs)"
proof (cases "xs = []")
  case False
  let ?b = "partition_loop P xs 0 (length xs)"
  have b: "?b \<le> length (filter P xs)" "length (filter P xs) \<le> Suc ?b" "?b < length xs"
    using partition_loop_spec [OF assms, of "length xs" 0] False by auto
  show ?thesis
    using b(1,2) partitioned_nth [OF assms b(3)] False by (auto simp: partition_point_def Let_def)
qed (simp add: partition_point_def)

text \<open>The range of an identifier is its bucket: all index records with that identifier.\<close>

lemma sorted_partitioned:
  assumes "sorted (map fst index)"
  shows "partitioned (\<lambda>r. fst r < a) index" "partitioned (\<lambda>r. fst r \<le> a) index"
  using assms by (induction index) (auto simp: partitioned_def)

lemma sorted_three_way:
  assumes "sorted (map fst index)"
  shows "index = filter (\<lambda>r. fst r < a) index @ filter (\<lambda>r. fst r = a) index
           @ filter (\<lambda>r. a < fst r) index"
  using assms
proof (induction index)
  case (Cons x xs)
  then have ge: "\<forall>y \<in> set xs. fst x \<le> fst y" by auto
  show ?case
  proof (cases "fst x < a")
    case True
    with Cons show ?thesis by auto
  next
    case False
    with ge have lo: "filter (\<lambda>r. fst r < a) xs = []" by (auto simp: filter_empty_conv)
    show ?thesis
    proof (cases "fst x = a")
      case True
      with Cons lo show ?thesis by auto
    next
      case gt: False
      with False ge have "filter (\<lambda>r. fst r = a) xs = []" by (auto simp: filter_empty_conv)
      with Cons lo gt False show ?thesis by auto
    qed
  qed
qed simp

lemma hash_range_bucket:
  assumes "sorted (map fst index)"
  shows "hash_range index a = None \<longleftrightarrow> filter (\<lambda>r. fst r = a) index = []"
    "hash_range index a = Some (s, e) \<Longrightarrow> s < e \<and> e \<le> length index
       \<and> take (e - s) (drop s index) = filter (\<lambda>r. fst r = a) index
       \<and> e - s = length (filter (\<lambda>r. fst r = a) index)"
proof -
  let ?lo = "filter (\<lambda>r. fst r < a) index" and ?eq = "filter (\<lambda>r. fst r = a) index"
  let ?hi = "filter (\<lambda>r. a < fst r) index"
  have split: "index = ?lo @ ?eq @ ?hi" by (rule sorted_three_way [OF assms])
  have "filter (\<lambda>r. fst r \<le> a) index = filter (\<lambda>r. fst r \<le> a) (?lo @ ?eq @ ?hi)"
    using split by simp
  also have "\<dots> = ?lo @ ?eq"
  proof -
    have "filter (\<lambda>r. fst r \<le> a) ?lo = ?lo" "filter (\<lambda>r. fst r \<le> a) ?eq = ?eq"
      "filter (\<lambda>r. fst r \<le> a) ?hi = []"
      by (simp_all only: filter_id_conv filter_empty_conv) auto
    then show ?thesis by (simp only: filter_append append_Nil2)
  qed
  finally have le: "length (filter (\<lambda>r. fst r \<le> a) index) = length ?lo + length ?eq" by simp
  have pp: "partition_point (\<lambda>r. fst r < a) index = length ?lo"
    "partition_point (\<lambda>r. fst r \<le> a) index = length ?lo + length ?eq"
    using partition_point_filter [OF sorted_partitioned(1) [OF assms, of a]]
      partition_point_filter [OF sorted_partitioned(2) [OF assms, of a]] le by simp_all
  show "hash_range index a = None \<longleftrightarrow> ?eq = []"
    by (auto simp: hash_range_def Let_def pp)
  assume "hash_range index a = Some (s, e)"
  then have se: "s = length ?lo" "e = length ?lo + length ?eq" "?eq \<noteq> []"
    by (auto simp: hash_range_def Let_def pp split: if_splits)
  have "length index = length ?lo + length ?eq + length ?hi"
    using arg_cong [OF split, of length] by simp
  moreover have "take (length ?eq) (drop (length ?lo) (?lo @ ?eq @ ?hi)) = ?eq" by simp
  then have "take (length ?eq) (drop (length ?lo) index) = ?eq"
    using split by metis
  ultimately show "s < e \<and> e \<le> length index \<and> take (e - s) (drop s index) = ?eq \<and> e - s = length ?eq"
    using se by simp
qed

section \<open>What validation of the index establishes\<close>

text \<open>
  The specification of the buckets: at most 64 records share an identifier, in a production
  archive at most one does, and the paths of a bucket are distinct.
\<close>

definition bucket :: "id_index \<Rightarrow> asset_id \<Rightarrow> id_index" where
  "bucket index a = filter (\<lambda>r. fst r = a) index"

definition bucket_ok :: "entry list \<Rightarrow> bool \<Rightarrow> id_index \<Rightarrow> bool" where
  "bucket_ok entries paths_stripped b \<longleftrightarrow>
     length b \<le> 64 \<and> (paths_stripped \<longrightarrow> length b = 1)
   \<and> distinct (map (\<lambda>r. en_path (entries ! snd r)) b)"

definition index_ok :: "entry list \<Rightarrow> bool \<Rightarrow> id_index \<Rightarrow> bool" where
  "index_ok entries paths_stripped index \<longleftrightarrow>
     (\<forall>a \<in> fst ` set index. bucket_ok entries paths_stripped (bucket index a))"

lemma check_bucket_Ok:
  assumes "\<forall>r \<in> set b. snd r < length entries"
  shows "check_bucket entries paths b = Ok () \<longleftrightarrow>
     distinct (map (\<lambda>r. en_path (entries ! snd r)) b)
     \<and> (\<forall>r \<in> set b. en_path (entries ! snd r) \<notin> paths)"
  using assms
proof (induction entries paths b rule: check_bucket.induct)
  case (2 entries paths a i rest)
  show ?case
  proof (cases "en_path (entries ! i) \<in> paths")
    case True
    with "2.prems" show ?thesis by (simp add: index_at_def)
  next
    case False
    have "check_bucket entries (insert (en_path (entries ! i)) paths) rest = Ok () \<longleftrightarrow>
        distinct (map (\<lambda>r. en_path (entries ! snd r)) rest)
      \<and> (\<forall>r \<in> set rest. en_path (entries ! snd r) \<notin> insert (en_path (entries ! i)) paths)"
      using "2.prems" False by (intro "2.IH") (auto simp: index_at_def)
    moreover have "check_bucket entries paths ((a, i) # rest)
        = check_bucket entries (insert (en_path (entries ! i)) paths) rest"
      using "2.prems" False by (simp add: index_at_def)
    ultimately show ?thesis using False by (simp add: image_iff) metis
  qed
qed simp

lemma check_bucket_no_panic:
  "\<forall>r \<in> set b. snd r < length entries \<Longrightarrow> check_bucket entries paths b \<noteq> Panic"
  by (induction entries paths b rule: check_bucket.induct) (auto simp: index_at_def)

text \<open>The scan finds the end of the run of equal identifiers.\<close>

lemma bucket_end_run:
  assumes "start < en" "en \<le> length index"
    "\<forall>i. start \<le> i \<and> i < en \<longrightarrow> fst (index ! i) = fst (index ! start)"
  shows "bucket_end index start en - start
      = length (takeWhile (\<lambda>r. fst r = fst (index ! start)) (drop start index))"
  using assms
proof (induction index start en rule: bucket_end.induct)
  case (1 index start en)
  let ?P = "\<lambda>r. fst r = fst (index ! start)"
  show ?case
  proof (cases "en < length index \<and> ?P (index ! en)")
    case True
    then have all: "\<forall>i. start \<le> i \<and> i < en + 1 \<longrightarrow> fst (index ! i) = fst (index ! start)"
      using "1.prems"(3) by (metis Suc_eq_plus1 less_Suc_eq)
    have "start < en + 1" "en + 1 \<le> length index" using True "1.prems"(1) by linarith+
    note "1.IH" [OF True this all]
    moreover have "bucket_end index start en = bucket_end index start (en + 1)"
      using True by (subst bucket_end.simps) presburger
    ultimately show ?thesis by simp
  next
    case False
    have "\<forall>r \<in> set (take (en - start) (drop start index)). ?P r"
    proof
      fix r assume "r \<in> set (take (en - start) (drop start index))"
      then obtain i where "i < en - start" "r = index ! (start + i)"
        using "1.prems"(1,2) by (auto simp: in_set_conv_nth)
      then show "?P r" using "1.prems"(3) [rule_format, of "start + i"] by simp
    qed
    moreover have "drop (en - start) (drop start index) = [] \<or> \<not> ?P (hd (drop (en - start) (drop start index)))"
      using False "1.prems"(1,2) by (auto simp: hd_drop_conv_nth)
    ultimately have "takeWhile ?P (take (en - start) (drop start index) @ drop (en - start) (drop start index))
        = take (en - start) (drop start index)"
      by (subst takeWhile_append2) (auto simp: takeWhile_eq_Nil_iff)
    then have "takeWhile ?P (drop start index) = take (en - start) (drop start index)"
      by (simp only: append_take_drop_id)
    moreover have "bucket_end index start en = en"
      using False by (subst bucket_end.simps) presburger
    ultimately show ?thesis using "1.prems"(2) by simp
  qed
qed

lemma sorted_run:
  assumes "sorted (map fst xs)" "\<forall>x \<in> set xs. k \<le> fst x"
  shows "takeWhile (\<lambda>x. fst x = k) xs = filter (\<lambda>x. fst x = k) xs"
    "dropWhile (\<lambda>x. fst x = k) xs = filter (\<lambda>x. fst x \<noteq> k) xs"
proof -
  have "takeWhile (\<lambda>x. fst x = k) xs = filter (\<lambda>x. fst x = k) xs
      \<and> dropWhile (\<lambda>x. fst x = k) xs = filter (\<lambda>x. fst x \<noteq> k) xs"
    using assms
  proof (induction xs)
    case (Cons x xs)
    show ?case
    proof (cases "fst x = k")
      case True
      with Cons show ?thesis by simp
    next
      case False
      with Cons.prems have "\<forall>y \<in> set xs. fst y \<noteq> k" by force
      then have "filter (\<lambda>x. fst x = k) xs = []" "filter (\<lambda>x. fst x \<noteq> k) xs = xs"
        by (simp_all add: filter_empty_conv filter_id_conv)
      with False show ?thesis by simp
    qed
  qed simp
  then show "takeWhile (\<lambda>x. fst x = k) xs = filter (\<lambda>x. fst x = k) xs"
    "dropWhile (\<lambda>x. fst x = k) xs = filter (\<lambda>x. fst x \<noteq> k) xs" by blast+
qed

lemma validate_index_from_Ok:
  assumes "sorted (map fst index)" "\<forall>r \<in> set index. snd r < length entries" "start \<le> length index"
  shows "validate_index_from E entries index ps start = Ok () \<longleftrightarrow>
     (\<forall>a \<in> fst ` set (drop start index). bucket_ok entries ps (bucket (drop start index) a)
        \<and> alloc_ok E ''identifier collision bucket allocation'' (length (bucket (drop start index) a)))"
  using assms(3)
proof (induction "length index - start" arbitrary: start rule: less_induct)
  case less
  show ?case
  proof (cases "start < length index")
    case False
    with less.prems show ?thesis by (simp add: validate_index_from.simps)
  next
    case True
    let ?xs = "drop start index" and ?k = "fst (index ! start)"
    define en where "en = bucket_end index start (start + 1)"
    have srt: "sorted (map fst ?xs)" using assms(1) by (metis drop_map sorted_wrt_drop)
    have hd: "?xs = index ! start # drop (Suc start) index" using True by (simp add: Cons_nth_drop_Suc)
    then have ge: "\<forall>x \<in> set ?xs. ?k \<le> fst x" using srt by auto
    have bnd: "start < en" "en \<le> length index"
      using bucket_end_bounds [of "start + 1" index start] True by (auto simp: en_def)
    have run: "en - start = length (takeWhile (\<lambda>r. fst r = ?k) ?xs)"
      unfolding en_def using True by (intro bucket_end_run) (auto simp: less_Suc_eq le_less_Suc_eq)
    have b: "take (en - start) ?xs = bucket ?xs ?k"
      unfolding run bucket_def sorted_run(1) [OF srt ge, symmetric] by (simp add: takeWhile_eq_take [symmetric])
    have "drop en index = drop (en - start) ?xs" using bnd by simp
    also have "\<dots> = filter (\<lambda>x. fst x \<noteq> ?k) ?xs"
      unfolding run sorted_run(2) [OF srt ge, symmetric] by (simp add: dropWhile_eq_drop)
    finally have rest: "drop en index = filter (\<lambda>x. fst x \<noteq> ?k) ?xs" .
    have bl: "en - start = length (bucket ?xs ?k)"
      using b bnd by (metis length_drop length_take min.absorb2 diff_le_mono)
    have pos: "?k \<in> fst ` set ?xs" unfolding hd by simp
    have others: "a \<noteq> ?k \<Longrightarrow> bucket (drop en index) a = bucket ?xs a" for a
      unfolding rest bucket_def by (auto intro!: filter_cong)
    have ids: "fst ` set (drop en index) = fst ` set ?xs - {?k}" unfolding rest by auto
    have inb: "\<forall>r \<in> set (bucket ?xs ?k). snd r < length entries"
      using assms(2) in_set_dropD by (fastforce simp: bucket_def)
    have one: "bucket ?xs ?k \<noteq> []" using bl bnd(1) by auto
    have "validate_index_from E entries index ps start = Ok () \<longleftrightarrow>
        bucket_ok entries ps (bucket ?xs ?k)
      \<and> alloc_ok E ''identifier collision bucket allocation'' (length (bucket ?xs ?k))
      \<and> validate_index_from E entries index ps en = Ok ()"
      (is "?lhs \<longleftrightarrow> ?rhs")
    proof -
      have chk: "check_bucket entries {} (bucket ?xs ?k) = Ok u \<longleftrightarrow>
          distinct (map (\<lambda>r. en_path (entries ! snd r)) (bucket ?xs ?k))" for u
        using check_bucket_Ok [OF inb, of "{}"] by simp
      show ?thesis
        unfolding validate_index_from.simps [of E entries index ps start] Let_def en_def [symmetric]
          if_P [OF True] bucket_ok_def bind_res_Ok ensure_Ok bl b [unfolded bl] chk HARD_MAX_IDENTIFIER_BUCKET_ENTRIES_def
        by blast
    qed
    also have "\<dots> \<longleftrightarrow> bucket_ok entries ps (bucket ?xs ?k)
      \<and> alloc_ok E ''identifier collision bucket allocation'' (length (bucket ?xs ?k))
      \<and> (\<forall>a \<in> fst ` set ?xs - {?k}. bucket_ok entries ps (bucket ?xs a)
          \<and> alloc_ok E ''identifier collision bucket allocation'' (length (bucket ?xs a)))"
    proof -
      have "length index - en < length index - start" using bnd by linarith
      from less.hyps [OF this bnd(2)] have
        "validate_index_from E entries index ps en = Ok () \<longleftrightarrow>
          (\<forall>a \<in> fst ` set ?xs - {?k}. bucket_ok entries ps (bucket (drop en index) a)
          \<and> alloc_ok E ''identifier collision bucket allocation'' (length (bucket (drop en index) a)))"
        unfolding ids .
      moreover have "\<forall>a \<in> fst ` set ?xs - {?k}. bucket (drop en index) a = bucket ?xs a"
        using others by blast
      ultimately show ?thesis by auto
    qed
    also have "\<dots> \<longleftrightarrow> (\<forall>a \<in> fst ` set ?xs. bucket_ok entries ps (bucket ?xs a)
        \<and> alloc_ok E ''identifier collision bucket allocation'' (length (bucket ?xs a)))"
    proof -
      have "k \<in> A \<Longrightarrow> (Q k \<and> R k \<and> (\<forall>a \<in> A - {k}. Q a \<and> R a)) \<longleftrightarrow> (\<forall>a \<in> A. Q a \<and> R a)"
        for k :: asset_id and A Q R by blast
      from this [OF pos] show ?thesis .
    qed
    finally show ?thesis .
  qed
qed

lemma validate_index_Ok:
  assumes "sorted (map fst index)" "\<forall>r \<in> set index. snd r < length entries"
  shows "validate_index E entries index ps = Ok () \<longleftrightarrow> index_ok entries ps index
     \<and> (\<forall>a \<in> fst ` set index. alloc_ok E ''identifier collision bucket allocation'' (length (bucket index a)))"
  using validate_index_from_Ok [OF assms, of 0] by (auto simp: validate_index_def index_ok_def)

lemma validate_index_no_panic [no_panic]:
  assumes "\<forall>r \<in> set index. snd r < length entries"
  shows "validate_index E entries index ps \<noteq> Panic"
proof -
  have "validate_index_from E entries index ps start \<noteq> Panic" for start
  proof (induction "length index - start" arbitrary: start rule: less_induct)
    case less
    have "check_bucket entries {} (take n (drop start index)) \<noteq> Panic" for n
      using assms by (intro check_bucket_no_panic) (auto dest!: in_set_takeD in_set_dropD)
    moreover have "start < length index \<Longrightarrow>
        validate_index_from E entries index ps (bucket_end index start (start + 1)) \<noteq> Panic"
      using bucket_end_bounds [of "start + 1" index start] by (intro less.hyps) (simp, linarith)
    ultimately show ?case
      by (subst validate_index_from.simps) (auto simp: Let_def bind_res_Panic ensure_def)
  qed
  then show ?thesis by (simp add: validate_index_def)
qed

section \<open>Properties\<close>

text \<open>
  C31: the two binary searches of \<open>hash_range\<close> find the whole bucket.  On a sorted index they
  return nothing exactly if no record has the identifier, and otherwise the bounds of the
  block that holds all of its records and no other.
\<close>

theorem hash_range_finds_bucket:
  assumes "sorted (map fst index)"
  shows "case hash_range index a of
       None \<Rightarrow> \<forall>r \<in> set index. fst r \<noteq> a
     | Some (start, end) \<Rightarrow> start < end \<and> end \<le> length index
         \<and> take (end - start) (drop start index) = filter (\<lambda>r. fst r = a) index"
  using hash_range_bucket [OF assms, of a] by (auto simp: filter_empty_conv split: option.splits)

theorem hash_range_finds_bucket_witness:
  "case hash_range [(AssetId 3, 1), (AssetId 5, 0), (AssetId 5, 2)] (AssetId 5) of
       None \<Rightarrow> False
     | Some (start, end) \<Rightarrow> take (end - start) (drop start [(AssetId 3, 1), (AssetId 5, 0), (AssetId 5, 2 :: usize)])
         = [(AssetId 5, 0), (AssetId 5, 2)]"
proof -
  have "sorted (map fst [(AssetId 3, 1 :: usize), (AssetId 5, 0), (AssetId 5, 2)])"
    by (simp add: less_eq_asset_id_def)
  from hash_range_finds_bucket [OF this, of "AssetId 5"] show ?thesis by (auto split: option.splits)
qed

text \<open>
  C32: index validation is sound and complete.  On a sorted index it accepts exactly if every
  identifier has at most 64 records, in a production archive only one, and no two records
  of an identifier carry the same path, so that lookup has at most one answer.
\<close>

theorem validate_index_decides:
  assumes "sorted (map fst index)" and "\<forall>r \<in> set index. snd r < length entries" and "alloc_total E"
  shows "validate_index E entries index paths_stripped = Ok () \<longleftrightarrow>
    (\<forall>a \<in> fst ` set index. let b = filter (\<lambda>r. fst r = a) index in
        length b \<le> 64 \<and> (paths_stripped \<longrightarrow> length b = 1)
      \<and> distinct (map (\<lambda>r. en_path (entries ! snd r)) b))"
  unfolding validate_index_Ok [OF assms(1,2)] index_ok_def bucket_ok_def bucket_def Let_def
  using assms(3) by simp

definition sample_entry :: "bytes \<Rightarrow> entry" where
  "sample_entry path = \<lparr> en_path = path, en_path_hash = 5, en_original_size = 0, en_stored_size = 0,
     en_first_chunk = 0, en_chunk_count = 0 \<rparr>"

theorem validate_index_decides_witness:
  "validate_index sample_env [sample_entry [0x61], sample_entry [0x61]] [(AssetId 5, 0), (AssetId 5, 1)] False \<noteq> Ok ()"
  by (subst validate_index_decides) (simp_all add: sample_env_alloc sample_entry_def)

end
