(* ===== verification/Protect.thy ===== *)
theory Protect
  imports Format_IO
begin

text \<open>
  Protection and compression of stored blocks: \<open>crypto/xor.rs\<close>, \<open>crypto/aead.rs\<close> and
  \<open>compression/lz4.rs\<close>.  The cipher, the key derivation, the nonces and LZ4 itself are
  parameters; framing, length checks and error values are modelled.
\<close>

section \<open>Model\<close>

text \<open>\<open>xor_in_place\<close>: the loop over the enumerated bytes.  \<open>i % key.len()\<close> panics on an empty key.\<close>

fun xor_loop :: "nat \<Rightarrow> bytes \<Rightarrow> bytes \<Rightarrow> (bytes, error) res" where
  "xor_loop i [] key = Ok []"
| "xor_loop i (b # bs) key =
     (if length key = 0 then Panic
      else bind_res (xor_loop (Suc i) bs key) (\<lambda>rest. Ok ((b XOR key ! (i mod length key)) # rest)))"

definition xor_in_place :: "bytes \<Rightarrow> bytes \<Rightarrow> (bytes, error) res" where
  "xor_in_place data key = xor_loop 0 data key"

definition AEAD_OVERHEAD :: u64 where "AEAD_OVERHEAD = 24 + 16"

definition TOC_AAD :: bytes where
  "TOC_AAD = [0x52, 0x50, 0x41, 0x4B, 0x2D, 0x54, 0x4F, 0x43, 0x2D, 0x76, 0x31]"

definition KEY_CONTEXT :: string where
  "KEY_CONTEXT = ''rasen-archive XChaCha20-Poly1305 key v1''"

definition derive_key :: "env \<Rightarrow> bytes \<Rightarrow> bytes" where
  "derive_key E key_material = blake3_derive_key E KEY_CONTEXT key_material"

text \<open>\<open>RPAK-CHN\<close> and four zero bytes, which \<open>copy_from_slice\<close> overwrites with the index.\<close>

definition chunk_aad :: "u32 \<Rightarrow> bytes" where
  "chunk_aad index =
     (let aad = [0x52, 0x50, 0x41, 0x4B, 0x2D, 0x43, 0x48, 0x4E, 0, 0, 0, 0]
      in put_range aad 8 (to_le_bytes 4 index))"

text \<open>The first argument of \<open>encrypt\<close> is what \<open>getrandom::fill\<close> did to the nonce buffer.\<close>

definition encrypt :: "env \<Rightarrow> bytes option \<Rightarrow> bytes \<Rightarrow> bytes \<Rightarrow> bytes \<Rightarrow> (bytes, error) res" where
  "encrypt E fill plain key aad =
     bind_res (ok_or fill (Crypto ''nonce generation failed'')) (\<lambda>nonce_bytes.
     bind_res (ok_or (aead_encrypt E key nonce_bytes plain aad) (Crypto ''encryption failed'')) (\<lambda>ciphertext.
     bind_res (ensure (alloc_ok E ''encrypted block allocation'' (length nonce_bytes + length ciphertext))
                (TooLarge ''encrypted block allocation'')) (\<lambda>_.
       Ok (nonce_bytes @ ciphertext))))"

definition decrypt :: "env \<Rightarrow> bytes \<Rightarrow> bytes \<Rightarrow> bytes \<Rightarrow> (bytes, error) res" where
  "decrypt E stored key aad =
     bind_res (ok_or (if 24 \<le> length stored \<and> 16 \<le> length (drop 24 stored)
                      then Some (take 24 stored, drop 24 stored) else None)
                (Crypto ''encrypted block is truncated'')) (\<lambda>(nonce_bytes, ciphertext).
       ok_or (aead_decrypt E key nonce_bytes ciphertext aad) (Crypto ''authentication failed''))"

text \<open>LZ4 blocks of known decompressed size; the output buffer is the state.\<close>

definition decompress_into_exact :: "env \<Rightarrow> bytes \<Rightarrow> string \<Rightarrow> (bytes, unit, error) stm" where
  "decompress_into_exact E data mismatch output =
     (case lz4_decompress_into E data output of
        (Inl msg, output') \<Rightarrow> (Err (Lz4 msg), output')
      | (Inr decoded, output') \<Rightarrow>
          if decoded \<noteq> length output' then (Err (Corrupt mismatch), output') else (Ok (), output'))"

definition decompress_block_exact :: "env \<Rightarrow> bytes \<Rightarrow> usize \<Rightarrow> string \<Rightarrow> (bytes, error) res" where
  "decompress_block_exact E data original_len mismatch =
     bind_res (ensure (alloc_ok E ''decompression output allocation'' original_len)
                (TooLarge ''decompression output allocation'')) (\<lambda>_.
       case decompress_into_exact E data mismatch (replicate original_len 0) of
         (Ok _, decoded) \<Rightarrow> Ok decoded
       | (Err e, _) \<Rightarrow> Err e
       | (Panic, _) \<Rightarrow> Panic)"

section \<open>XOR obfuscation\<close>

lemma xor_loop_eq:
  assumes "key \<noteq> []"
  shows "xor_loop i data key
     = Ok (map (\<lambda>j. data ! j XOR key ! ((i + j) mod length key)) [0..<length data])"
proof (induction data arbitrary: i)
  case Nil
  then show ?case by simp
next
  case (Cons b bs)
  have "map (\<lambda>j. (b # bs) ! j XOR key ! ((i + j) mod length key)) [0..<length (b # bs)]
      = (b XOR key ! (i mod length key))
        # map (\<lambda>j. bs ! j XOR key ! ((Suc i + j) mod length key)) [0..<length bs]"
    by (simp add: upt_conv_Cons map_Suc_upt [symmetric] del: upt_Suc)
  then show ?case using assms Cons by simp
qed

lemma xor_in_place_eq:
  "key \<noteq> [] \<Longrightarrow> xor_in_place data key
     = Ok (map (\<lambda>j. data ! j XOR key ! (j mod length key)) [0..<length data])"
  by (simp add: xor_in_place_def xor_loop_eq)

lemma xor_in_place_length: "xor_in_place data key = Ok out \<Longrightarrow> length out = length data"
proof (cases "key = []")
  case True
  assume "xor_in_place data key = Ok out"
  with True show ?thesis by (cases data) (auto simp: xor_in_place_def)
qed (auto simp: xor_in_place_eq)

lemma xor_in_place_involution:
  assumes "xor_in_place data key = Ok out"
  shows "xor_in_place out key = Ok data"
proof (cases "key = []")
  case True
  with assms show ?thesis by (cases data) (auto simp: xor_in_place_def)
next
  case False
  then have out: "out = map (\<lambda>j. data ! j XOR key ! (j mod length key)) [0..<length data]"
    using assms by (simp add: xor_in_place_eq)
  have "map (\<lambda>j. out ! j XOR key ! (j mod length key)) [0..<length out] = data"
    by (rule nth_equalityI) (auto simp: out xor.assoc)
  with False show ?thesis by (simp add: xor_in_place_eq)
qed

lemma xor_in_place_no_panic [no_panic]: "key \<noteq> [] \<Longrightarrow> xor_in_place data key \<noteq> Panic"
  by (simp add: xor_in_place_eq)

section \<open>Authenticated encryption\<close>

lemma chunk_aad_eq: "chunk_aad i = [0x52, 0x50, 0x41, 0x4B, 0x2D, 0x43, 0x48, 0x4E] @ to_le_bytes 4 i"
  by (simp add: chunk_aad_def put_range_def)

lemma encrypt_Ok:
  assumes "aead_lawful E" "encrypt E (getrandom_fill E k) plain key aad = Ok stored"
  shows "decrypt E stored key aad = Ok plain" "length stored = length plain + 40"
proof -
  from assms(2) obtain nonce c where n: "getrandom_fill E k = Some nonce"
    and c: "aead_encrypt E key nonce plain aad = Some c" and st: "stored = nonce @ c"
    by (auto simp: encrypt_def res_simps)
  have "length nonce = 24" "length c = length plain + 16" "aead_decrypt E key nonce c aad = Some plain"
    using assms(1) n c by (auto simp: aead_lawful_def)
  then show "decrypt E stored key aad = Ok plain" "length stored = length plain + 40"
    by (simp_all add: decrypt_def st)
qed

lemma crypto_no_panic [no_panic]:
  "encrypt E fill plain key aad \<noteq> Panic" "decrypt E stored key aad \<noteq> Panic"
  unfolding encrypt_def decrypt_def by (intro no_panic)+

section \<open>Decompression\<close>

lemma decompress_into_exact_no_panic [no_panic]:
  "fst (decompress_into_exact E data mismatch output) \<noteq> Panic"
  by (auto simp: decompress_into_exact_def split: prod.splits sum.splits)

lemma decompress_into_exact_length:
  assumes "env_safe E"
  shows "length (snd (decompress_into_exact E data mismatch output)) = length output"
  using env_safe_decompress(1) [OF assms]
  by (auto simp: decompress_into_exact_def split: prod.splits sum.splits)

lemma decompress_block_exact_no_panic [no_panic]:
  "decompress_block_exact E data n mismatch \<noteq> Panic"
  using decompress_into_exact_no_panic [of E data mismatch "replicate n 0"]
  by (auto simp: decompress_block_exact_def bind_res_Panic ensure_def split: prod.splits res.splits)

lemma decompress_block_exact_length:
  assumes "env_safe E" "decompress_block_exact E data n mismatch = Ok out"
  shows "length out = n"
  using decompress_into_exact_length [OF assms(1), of data mismatch "replicate n 0"] assms(2)
  by (auto simp: decompress_block_exact_def res_simps split: prod.splits res.splits)

section \<open>Properties\<close>

text \<open>
  XOR obfuscation is its own inverse and keeps the length, for every non-empty key.
\<close>

lemma xor_restores:
  assumes "key \<noteq> []"
  shows "\<exists>out. xor_in_place data key = Ok out \<and> length out = length data \<and> xor_in_place out key = Ok data"
proof -
  obtain out where "xor_in_place data key = Ok out" using xor_in_place_eq [OF assms] by blast
  then show ?thesis using xor_in_place_length xor_in_place_involution by blast
qed

text \<open>
  C40: authenticated encryption round trip.  What \<open>encrypt\<close> returns is exactly the declared
  overhead longer than the message, and \<open>decrypt\<close> under the same key and associated data
  gives the message back.
\<close>

theorem encrypt_decrypt:
  assumes "aead_lawful E"
    and "encrypt E (getrandom_fill E n) plain key aad = Ok stored"
  shows "decrypt E stored key aad = Ok plain \<and> length stored = length plain + unat AEAD_OVERHEAD"
  using encrypt_Ok [OF assms] by (simp_all add: AEAD_OVERHEAD_def)

theorem encrypt_decrypt_witness:
  "decrypt sample_env (replicate 24 0 @ [5, 6] @ replicate 16 0) [] (chunk_aad 0) = Ok [5, 6]"
proof (rule encrypt_decrypt [OF sample_env_aead, THEN conjunct1])
  show "encrypt sample_env (getrandom_fill sample_env 0) [5, 6] [] (chunk_aad 0)
      = Ok (replicate 24 0 @ [5, 6] @ replicate 16 0)"
    by (simp add: encrypt_def sample_env_def)
qed

text \<open>
  Associated data separates the blocks.  Different chunk indices have different
  associated data, and no chunk shares it with the table of contents.
\<close>

lemma chunk_aad_separates:
  "(chunk_aad i = chunk_aad j \<longleftrightarrow> i = j) \<and> chunk_aad i \<noteq> TOC_AAD \<and> length (chunk_aad i) = 12"
  using le32.enc_inject [of i j] by (simp add: chunk_aad_eq TOC_AAD_def)

end
