(* ===== verification/Toc.thy ===== *)
theory Toc
  imports Protect
begin

text \<open>
  The table of contents (\<open>format/toc.rs\<close>): the encoder, the decoder with its resource
  limits, and the validation of the chunk layout.  This theory holds the model and the
  correspondence of encoder and decoder; \<open>Layout\<close> holds the theory of the validation.
\<close>

section \<open>Encoding\<close>

fun toc_entries_size :: "env \<Rightarrow> toc_entry list \<Rightarrow> usize \<Rightarrow> (usize, error) res" where
  "toc_entries_size E [] sz = Ok sz"
| "toc_entries_size E (entry # entries) sz =
     bind_res (ensure (length (e_path entry) \<le> MAX_PATH_LEN) (TooLarge ''path'')) (\<lambda>_.
     bind_res (ok_or (Option.bind (usize_add E sz TOC_ENTRY_FIXED_SIZE)
                        (\<lambda>value. usize_add E value (length (e_path entry)))) (TooLarge ''raw TOC''))
       (toc_entries_size E entries))"

definition encode_entry :: "toc_entry \<Rightarrow> (bytes, error) res" where
  "encode_entry entry =
     bind_res (ok_or (if length (e_path entry) < 2 ^ 16 then Some (of_nat (length (e_path entry)) :: u16)
                      else None) (TooLarge ''path'')) (\<lambda>path_len.
       Ok (to_le_bytes 8 (e_path_hash entry) @ to_le_bytes 8 (e_original_size entry)
           @ to_le_bytes 8 (e_stored_size entry) @ to_le_bytes 4 (e_first_chunk entry)
           @ to_le_bytes 4 (e_chunk_count entry) @ to_le_bytes 2 path_len
           @ to_le_bytes 2 (0 :: u16) @ e_path entry))"

fun encode_entries :: "toc_entry list \<Rightarrow> bytes \<Rightarrow> (bytes, error) res" where
  "encode_entries [] out = Ok out"
| "encode_entries (entry # entries) out =
     bind_res (encode_entry entry) (\<lambda>b. encode_entries entries (out @ b))"

definition encode_chunk :: "chunk \<Rightarrow> bytes" where
  "encode_chunk c =
     (let flags = (if c_compressed c then CHUNK_FLAG_LZ4 else 0)
      in to_le_bytes 8 (c_offset c) @ to_le_bytes 8 (c_stored_size c) @ to_le_bytes 8 (c_original_size c)
         @ to_le_bytes 8 (c_checksum c) @ to_le_bytes 2 flags @ to_le_bytes 2 (0 :: u16))"

fun encode_chunks :: "chunk list \<Rightarrow> bytes \<Rightarrow> bytes" where
  "encode_chunks [] out = out"
| "encode_chunks (c # cs) out = encode_chunks cs (out @ encode_chunk c)"

definition encode_toc :: "env \<Rightarrow> toc_entry list \<Rightarrow> chunk list \<Rightarrow> (bytes, error) res" where
  "encode_toc E entries chunks =
     bind_res (toc_entries_size E entries 4) (\<lambda>size.
     bind_res (ok_or (usize_mul E (length chunks) TOC_CHUNK_FIXED_SIZE) (TooLarge ''raw TOC'')) (\<lambda>chunk_bytes.
     bind_res (ok_or (usize_add E size chunk_bytes) (TooLarge ''raw TOC'')) (\<lambda>size.
     bind_res (usize_to_u64 size ''raw TOC'') (\<lambda>size64.
     bind_res (ensure (size64 \<le> MAX_TOC_RAW_SIZE) (TooLarge ''raw TOC'')) (\<lambda>_.
     bind_res (ensure (alloc_ok E ''raw TOC allocation'' size) (TooLarge ''raw TOC allocation'')) (\<lambda>_.
     bind_res (encode_entries entries TOC_MAGIC) (\<lambda>out.
       Ok (encode_chunks chunks out))))))))"

section \<open>Decoding\<close>

definition decode_path ::
  "env \<Rightarrow> bool \<Rightarrow> usize \<Rightarrow> bytes \<Rightarrow> u64 \<Rightarrow> (bytes, error) res" where
  "decode_path E paths_stripped path_len path_bytes path_hash =
     (if paths_stripped \<and> path_len = 0 then Ok []
      else if paths_stripped then Err (Corrupt ''production TOC contains an entry path'')
      else if path_len = 0 then Err (Corrupt ''debug TOC contains an empty entry path'')
      else
        bind_res (ensure (utf8_valid path_bytes) (Corrupt ''entry path is not UTF-8'')) (\<lambda>_.
        bind_res (normalize_path E path_bytes) (\<lambda>path.
        bind_res (ensure (checksum E path = path_hash) (Corrupt ''entry path hash mismatch'')) (\<lambda>_.
          Ok path))))"

definition decode_entry ::
  "env \<Rightarrow> bool \<Rightarrow> usize \<Rightarrow> u64 \<Rightarrow> u64 \<Rightarrow> u64 \<Rightarrow> cursor \<Rightarrow> (toc_entry \<times> u64 \<times> cursor, error) res" where
  "decode_entry E paths_stripped max_path_bytes max_total_path_bytes max_single_asset_bytes total_path_bytes c =
     bind_res (cursor_u64 E c) (\<lambda>(path_hash, c).
     bind_res (cursor_u64 E c) (\<lambda>(original_size, c).
     bind_res (cursor_u64 E c) (\<lambda>(stored_size, c).
     bind_res (cursor_u32 E c) (\<lambda>(first_chunk, c).
     bind_res (cursor_u32 E c) (\<lambda>(chunk_count, c).
     bind_res (cursor_u16 E c) (\<lambda>(path_len16, c).
     let path_len = unat path_len16 in
     bind_res (cursor_u16 E c) (\<lambda>(reserved, c).
     bind_res (ensure (original_size \<le> max_single_asset_bytes) AssetTooLarge) (\<lambda>_.
     bind_res (ensure (reserved = 0) (Corrupt ''non-zero entry reserved field'')) (\<lambda>_.
     bind_res (ensure (path_len \<le> max_path_bytes) (TooLarge ''path length limit'')) (\<lambda>_.
     bind_res (usize_to_u64 path_len ''path length'') (\<lambda>path_len64.
     bind_res (ok_or (checked_add total_path_bytes path_len64) (TooLarge ''total path bytes'')) (\<lambda>total_path_bytes.
     bind_res (ensure (total_path_bytes \<le> max_total_path_bytes) MetadataLimitExceeded) (\<lambda>_.
     bind_res (cursor_take E c path_len) (\<lambda>(path_bytes, c).
     bind_res (decode_path E paths_stripped path_len path_bytes path_hash) (\<lambda>path.
       Ok (\<lparr> e_path = path, e_path_hash = path_hash, e_original_size = original_size,
             e_stored_size = stored_size, e_first_chunk = first_chunk,
             e_chunk_count = chunk_count \<rparr>, total_path_bytes, c))))))))))))))))"

fun decode_entries ::
  "env \<Rightarrow> bool \<Rightarrow> usize \<Rightarrow> u64 \<Rightarrow> u64 \<Rightarrow> nat \<Rightarrow> u64 \<Rightarrow> cursor \<Rightarrow> (toc_entry list \<times> cursor, error) res" where
  "decode_entries E ps mp mt ms 0 total_path_bytes c = Ok ([], c)"
| "decode_entries E ps mp mt ms (Suc n) total_path_bytes c =
     bind_res (decode_entry E ps mp mt ms total_path_bytes c) (\<lambda>(entry, total_path_bytes, c).
     bind_res (decode_entries E ps mp mt ms n total_path_bytes c) (\<lambda>(entries, c). Ok (entry # entries, c)))"

definition decode_chunk :: "env \<Rightarrow> cursor \<Rightarrow> (chunk \<times> cursor, error) res" where
  "decode_chunk E c =
     bind_res (cursor_u64 E c) (\<lambda>(offset, c).
     bind_res (cursor_u64 E c) (\<lambda>(stored_size, c).
     bind_res (cursor_u64 E c) (\<lambda>(original_size, c).
     bind_res (cursor_u64 E c) (\<lambda>(checksum, c).
     bind_res (cursor_u16 E c) (\<lambda>(flags, c).
     bind_res (cursor_u16 E c) (\<lambda>(reserved, c).
     bind_res (ensure (flags AND NOT CHUNK_FLAG_LZ4 = 0) (Corrupt ''unknown chunk flags'')) (\<lambda>_.
     bind_res (ensure (reserved = 0) (Corrupt ''non-zero chunk reserved field'')) (\<lambda>_.
       Ok (\<lparr> c_offset = offset, c_stored_size = stored_size, c_original_size = original_size,
             c_checksum = checksum, c_compressed = (flags AND CHUNK_FLAG_LZ4 \<noteq> 0) \<rparr>, c)))))))))"

fun decode_chunks :: "env \<Rightarrow> nat \<Rightarrow> cursor \<Rightarrow> (chunk list \<times> cursor, error) res" where
  "decode_chunks E 0 c = Ok ([], c)"
| "decode_chunks E (Suc n) c =
     bind_res (decode_chunk E c) (\<lambda>(chunk, c).
     bind_res (decode_chunks E n c) (\<lambda>(chunks, c). Ok (chunk # chunks, c)))"

definition decode_toc ::
  "env \<Rightarrow> bytes \<Rightarrow> u32 \<Rightarrow> u32 \<Rightarrow> bool \<Rightarrow> usize \<Rightarrow> u64 \<Rightarrow> u64 \<Rightarrow> (toc_entry list \<times> chunk list, error) res" where
  "decode_toc E data entry_count chunk_count paths_stripped max_path_bytes max_total_path_bytes
       max_single_asset_bytes =
     bind_res (cursor_take E (cursor_new data) 4) (\<lambda>(magic, c).
     bind_res (ensure (magic = TOC_MAGIC) BadTocMagic) (\<lambda>_.
     bind_res (ok_or (u32_to_usize E entry_count) (TooLarge ''entry count'')) (\<lambda>entries_count.
     bind_res (ok_or (u32_to_usize E chunk_count) (TooLarge ''chunk count'')) (\<lambda>chunks_count.
     bind_res (ok_or
        (Option.bind (usize_mul E entries_count TOC_ENTRY_FIXED_SIZE) (\<lambda>v.
         Option.bind (Option.bind (usize_mul E chunks_count TOC_CHUNK_FIXED_SIZE) (usize_add E v)) (\<lambda>v.
           usize_add E v 4))) (TooLarge ''TOC record counts'')) (\<lambda>min_bytes.
     bind_res (ensure (min_bytes \<le> length data) (Corrupt ''TOC counts exceed TOC size'')) (\<lambda>_.
     bind_res (ensure (alloc_ok E ''entry allocation'' entries_count) (TooLarge ''entry allocation'')) (\<lambda>_.
     bind_res (decode_entries E paths_stripped max_path_bytes max_total_path_bytes
                 max_single_asset_bytes entries_count 0 c) (\<lambda>(entries, c).
     bind_res (ensure (alloc_ok E ''chunk allocation'' chunks_count) (TooLarge ''chunk allocation'')) (\<lambda>_.
     bind_res (decode_chunks E chunks_count c) (\<lambda>(chunks, c).
     bind_res (ensure (cursor_is_empty c) (Corrupt ''trailing bytes in TOC'')) (\<lambda>_.
       Ok (entries, chunks))))))))))))"

section \<open>Layout validation\<close>

definition validate_chunk ::
  "u64 \<Rightarrow> u32 \<Rightarrow> u32 \<Rightarrow> bool \<Rightarrow> u64 \<Rightarrow> u64 \<Rightarrow> u64 \<Rightarrow> chunk \<Rightarrow> (u64 \<times> u64, error) res" where
  "validate_chunk toc_offset chunk_size alignment aead max_total previous_end total_decompressed c =
     bind_res (if aead
               then ok_or (checked_sub (c_stored_size c) AEAD_OVERHEAD) (Corrupt ''encrypted chunk is truncated'')
               else Ok (c_stored_size c)) (\<lambda>payload_size.
     bind_res (ensure (c_original_size c \<noteq> 0 \<and> c_original_size c \<le> ucast chunk_size)
                 (Corrupt ''invalid chunk original size'')) (\<lambda>_.
     bind_res (ensure (payload_size \<noteq> 0 \<and> payload_size \<le> c_original_size c)
                 (Corrupt ''invalid stored chunk size'')) (\<lambda>_.
     bind_res (ensure (\<not> c_compressed c \<or> payload_size < c_original_size c)
                 (Corrupt ''non-beneficial compressed chunk'')) (\<lambda>_.
     bind_res (ensure (c_compressed c \<or> payload_size = c_original_size c)
                 (Corrupt ''raw chunk size mismatch'')) (\<lambda>_.
     bind_res (ensure (HEADER_SIZE \<le> c_offset c \<and> is_multiple_of (c_offset c) (ucast alignment))
                 (Corrupt ''invalid chunk alignment'')) (\<lambda>_.
     bind_res (ensure (previous_end \<le> c_offset c) (Corrupt ''overlapping or out-of-order chunks'')) (\<lambda>_.
     bind_res (ok_or (checked_add (c_offset c) (c_stored_size c)) (Corrupt ''chunk range overflow'')) (\<lambda>end.
     bind_res (ensure (end \<le> toc_offset) (Corrupt ''chunk outside payload region'')) (\<lambda>_.
     bind_res (ok_or (checked_add total_decompressed (c_original_size c))
                 (TooLarge ''total decompressed size'')) (\<lambda>total_decompressed.
     bind_res (ensure (total_decompressed \<le> max_total) ArchiveTooLarge) (\<lambda>_.
       Ok (end, total_decompressed))))))))))))"

fun validate_chunks ::
  "u64 \<Rightarrow> u32 \<Rightarrow> u32 \<Rightarrow> bool \<Rightarrow> u64 \<Rightarrow> chunk list \<Rightarrow> u64 \<Rightarrow> u64 \<Rightarrow> (unit, error) res" where
  "validate_chunks toc cs al aead mx [] previous_end total_decompressed = Ok ()"
| "validate_chunks toc cs al aead mx (c # rest) previous_end total_decompressed =
     bind_res (validate_chunk toc cs al aead mx previous_end total_decompressed c) (\<lambda>(end, total_decompressed).
       validate_chunks toc cs al aead mx rest end total_decompressed)"

text \<open>The loop over the chunks of one entry: its slice, from \<open>local\<close> on.\<close>

fun validate_owned ::
  "u32 \<Rightarrow> nat \<Rightarrow> nat \<Rightarrow> nat \<Rightarrow> chunk list \<Rightarrow> bool list \<Rightarrow> u64 \<Rightarrow> u64 \<Rightarrow> (bool list \<times> u64 \<times> u64, error) res" where
  "validate_owned chunk_size first owned_len local [] used raw_total stored_total =
     Ok (used, raw_total, stored_total)"
| "validate_owned chunk_size first owned_len local (c # rest) used raw_total stored_total =
     bind_res (index_at used (first + local)) (\<lambda>u.
     bind_res (ensure (\<not> u) (Corrupt ''chunk is referenced by multiple entries'')) (\<lambda>_.
     bind_res (ok_or (checked_add raw_total (c_original_size c)) (Corrupt ''entry raw size overflow'')) (\<lambda>raw.
     bind_res (ok_or (checked_add stored_total (c_stored_size c)) (Corrupt ''entry stored size overflow'')) (\<lambda>stored.
     bind_res (ensure (local + 1 = owned_len \<or> c_original_size c = ucast chunk_size)
                 (Corrupt ''non-final chunk has unexpected size'')) (\<lambda>_.
       validate_owned chunk_size first owned_len (Suc local) rest
         (used[first + local := True]) raw stored)))))"

definition validate_entry ::
  "env \<Rightarrow> chunk list \<Rightarrow> u32 \<Rightarrow> bool list \<Rightarrow> toc_entry \<Rightarrow> (bool list, error) res" where
  "validate_entry E chunks chunk_size used entry =
     bind_res (ok_or (u32_to_usize E (e_first_chunk entry)) (TooLarge ''chunk index'')) (\<lambda>first.
     bind_res (ok_or (u32_to_usize E (e_chunk_count entry)) (TooLarge ''chunk count'')) (\<lambda>count.
     bind_res (ok_or (usize_add E first count) (Corrupt ''entry chunk range overflow'')) (\<lambda>end.
     bind_res (ok_or (get_range chunks first end) (Corrupt ''entry chunk range outside TOC'')) (\<lambda>owned.
     bind_res
       (if e_original_size entry = 0 \<and> e_chunk_count entry = 0 \<and> e_stored_size entry = 0
            \<or> e_original_size entry \<noteq> 0 \<and> e_chunk_count entry \<noteq> 0 then Ok ()
        else if e_original_size entry = 0 then Err (Corrupt ''empty entry has chunks'')
        else Err (Corrupt ''non-empty entry has no chunks'')) (\<lambda>_.
     bind_res (validate_owned chunk_size first (length owned) 0 owned used 0 0) (\<lambda>(used, raw_total, stored_total).
     bind_res (ensure (raw_total = e_original_size entry) (Corrupt ''entry original size mismatch'')) (\<lambda>_.
     bind_res (ensure (stored_total = e_stored_size entry) (Corrupt ''entry stored size mismatch'')) (\<lambda>_.
       Ok used))))))))"

fun validate_entries ::
  "env \<Rightarrow> chunk list \<Rightarrow> u32 \<Rightarrow> toc_entry list \<Rightarrow> bool list \<Rightarrow> (bool list, error) res" where
  "validate_entries E chunks chunk_size [] used = Ok used"
| "validate_entries E chunks chunk_size (entry # entries) used =
     bind_res (validate_entry E chunks chunk_size used entry)
       (validate_entries E chunks chunk_size entries)"

definition validate_layout ::
  "env \<Rightarrow> toc_entry list \<Rightarrow> chunk list \<Rightarrow> u64 \<Rightarrow> u32 \<Rightarrow> u32 \<Rightarrow> bool \<Rightarrow> u64 \<Rightarrow> (unit, error) res" where
  "validate_layout E entries chunks toc_offset chunk_size alignment aead max_total_decompressed_bytes =
     bind_res (validate_chunks toc_offset chunk_size alignment aead max_total_decompressed_bytes
                 chunks HEADER_SIZE 0) (\<lambda>_.
     bind_res (ensure (alloc_ok E ''chunk ownership allocation'' (length chunks))
                 (TooLarge ''chunk ownership allocation'')) (\<lambda>_.
     bind_res (validate_entries E chunks chunk_size entries (replicate (length chunks) False)) (\<lambda>used_chunks.
       ensure (list_all (\<lambda>used. used) used_chunks) (Corrupt ''orphan chunk in TOC''))))"

section \<open>What the encoder writes\<close>

definition entry_bytes :: "toc_entry \<Rightarrow> bytes" where
  "entry_bytes e =
     to_le_bytes 8 (e_path_hash e) @ to_le_bytes 8 (e_original_size e)
     @ to_le_bytes 8 (e_stored_size e) @ to_le_bytes 4 (e_first_chunk e)
     @ to_le_bytes 4 (e_chunk_count e) @ to_le_bytes 2 (of_nat (length (e_path e)) :: u16)
     @ to_le_bytes 2 (0 :: u16) @ e_path e"

definition toc_bytes :: "toc_entry list \<Rightarrow> chunk list \<Rightarrow> bytes" where
  "toc_bytes entries chunks =
     TOC_MAGIC @ concat (map entry_bytes entries) @ concat (map encode_chunk chunks)"

lemma length_entry_bytes: "length (entry_bytes e) = 36 + length (e_path e)"
  by (simp add: entry_bytes_def)

lemma length_encode_chunk: "length (encode_chunk c) = 36"
  by (simp add: encode_chunk_def Let_def)

lemma length_toc_bytes:
  "length (toc_bytes entries chunks) =
     4 + (\<Sum>e\<leftarrow>entries. 36 + length (e_path e)) + 36 * length chunks"
proof -
  have "length (concat (map encode_chunk cs)) = 36 * length cs" for cs
    by (induction cs) (auto simp: length_encode_chunk)
  moreover have "length (concat (map entry_bytes es)) = (\<Sum>e\<leftarrow>es. 36 + length (e_path e))" for es
    by (induction es) (auto simp: length_entry_bytes)
  ultimately show ?thesis by (simp add: toc_bytes_def TOC_MAGIC_def)
qed

lemma encode_entry_Ok [res_simps]:
  "encode_entry e = Ok b \<longleftrightarrow> length (e_path e) < 2 ^ 16 \<and> b = entry_bytes e"
  by (auto simp: encode_entry_def entry_bytes_def res_simps)

lemma encode_entries_Ok:
  "encode_entries es out = Ok r \<longleftrightarrow>
     (\<forall>e \<in> set es. length (e_path e) < 2 ^ 16) \<and> r = out @ concat (map entry_bytes es)"
  by (induction es arbitrary: out) (auto simp: res_simps)

lemma encode_chunks_eq: "encode_chunks cs out = out @ concat (map encode_chunk cs)"
  by (induction cs arbitrary: out) auto

lemma toc_entries_size_Ok:
  "toc_entries_size E es sz = Ok n \<longleftrightarrow>
     (\<forall>e \<in> set es. length (e_path e) \<le> MAX_PATH_LEN)
   \<and> (es = [] \<or> sz + (\<Sum>e\<leftarrow>es. 36 + length (e_path e)) \<le> usize_max E)
   \<and> n = sz + (\<Sum>e\<leftarrow>es. 36 + length (e_path e))"
proof (induction es arbitrary: sz)
  case Nil
  then show ?case by auto
next
  case (Cons e es)
  have "toc_entries_size E (e # es) sz = Ok n \<longleftrightarrow> length (e_path e) \<le> MAX_PATH_LEN
      \<and> sz + 36 + length (e_path e) \<le> usize_max E
      \<and> toc_entries_size E es (sz + 36 + length (e_path e)) = Ok n"
    by (auto simp: res_simps arith_simps bind_eq_Some_conv TOC_ENTRY_FIXED_SIZE_def)
  then show ?case
    by (cases "es = []") (auto simp: Cons.IH)
qed

lemma encode_toc_Ok:
  "encode_toc E entries chunks = Ok out \<longleftrightarrow>
     (\<forall>e \<in> set entries. length (e_path e) \<le> MAX_PATH_LEN)
   \<and> length out \<le> usize_max E \<and> length out \<le> unat MAX_TOC_RAW_SIZE
   \<and> alloc_ok E ''raw TOC allocation'' (length out)
   \<and> out = toc_bytes entries chunks"
proof -
  define N where "N = length (toc_bytes entries chunks)"
  have lt: "n < 65536 \<longleftrightarrow> n \<le> 65535" for n :: nat
    by auto
  have N: "4 + (\<Sum>e\<leftarrow>entries. 36 + length (e_path e)) + length chunks * 36 = N"
    by (simp add: N_def length_toc_bytes)
  have fits: "(\<exists>w :: u64. N < 2 ^ 64 \<and> unat w = N \<and> w \<le> MAX_TOC_RAW_SIZE) \<longleftrightarrow> N \<le> unat MAX_TOC_RAW_SIZE"
    (is "?l \<longleftrightarrow> ?r")
  proof
    assume ?r
    then have "N < 2 ^ 64" by (simp add: MAX_TOC_RAW_SIZE_def)
    with \<open>?r\<close> show ?l
      by (intro exI [of _ "of_nat N"]) (simp add: word_le_nat_alt unat_of_nat)
  qed (auto simp: word_le_nat_alt)
  have "encode_toc E entries chunks = Ok out \<longleftrightarrow>
     (\<forall>e \<in> set entries. length (e_path e) \<le> MAX_PATH_LEN) \<and> N \<le> usize_max E
     \<and> (\<exists>w :: u64. N < 2 ^ 64 \<and> unat w = N \<and> w \<le> MAX_TOC_RAW_SIZE)
     \<and> alloc_ok E ''raw TOC allocation'' N \<and> out = toc_bytes entries chunks"
    unfolding encode_toc_def toc_bytes_def N [symmetric]
    by (auto simp: res_simps arith_simps toc_entries_size_Ok encode_entries_Ok encode_chunks_eq
        TOC_CHUNK_FIXED_SIZE_def MAX_PATH_LEN_def lt)
  from this [unfolded fits, unfolded N_def] show ?thesis
    by auto
qed

section \<open>Decoding what was encoded\<close>

definition cursor_adv :: "cursor \<Rightarrow> nat \<Rightarrow> cursor" where
  "cursor_adv c n = c\<lparr> cur_pos := cur_pos c + n \<rparr>"

lemma cursor_adv_simps [simp]:
  "cur_rest (cursor_adv c n) = drop n (cur_rest c)"
  "cur_data (cursor_adv c n) = cur_data c"
  by (simp_all add: cursor_adv_def cur_rest_def add.commute)

lemma cursor_adv_wf [simp]:
  "cursor_wf E c \<Longrightarrow> n \<le> length (cur_rest c) \<Longrightarrow> cursor_wf E (cursor_adv c n)"
  by (simp add: cursor_adv_def)

lemma cursor_forward [simp]:
  assumes "cursor_wf E c"
  shows "n \<le> length (cur_rest c) \<Longrightarrow> cursor_take E c n = Ok (take n (cur_rest c), cursor_adv c n)"
    "2 \<le> length (cur_rest c) \<Longrightarrow> cursor_u16 E c = Ok (from_le_bytes (take 2 (cur_rest c)), cursor_adv c 2)"
    "4 \<le> length (cur_rest c) \<Longrightarrow> cursor_u32 E c = Ok (from_le_bytes (take 4 (cur_rest c)), cursor_adv c 4)"
    "8 \<le> length (cur_rest c) \<Longrightarrow> cursor_u64 E c = Ok (from_le_bytes (take 8 (cur_rest c)), cursor_adv c 8)"
proof -
  show t: "n \<le> length (cur_rest c) \<Longrightarrow> cursor_take E c n = Ok (take n (cur_rest c), cursor_adv c n)" for n
    using cursor_take_Ok [OF assms] by (simp add: cursor_adv_def)
  show "2 \<le> length (cur_rest c) \<Longrightarrow> cursor_u16 E c = Ok (from_le_bytes (take 2 (cur_rest c)), cursor_adv c 2)"
    "4 \<le> length (cur_rest c) \<Longrightarrow> cursor_u32 E c = Ok (from_le_bytes (take 4 (cur_rest c)), cursor_adv c 4)"
    "8 \<le> length (cur_rest c) \<Longrightarrow> cursor_u64 E c = Ok (from_le_bytes (take 8 (cur_rest c)), cursor_adv c 8)"
    by (simp_all add: cursor_u16_def cursor_u32_def cursor_u64_def t)
qed

lemmas codec_simps = le16.dec_enc le32.dec_enc le64.dec_enc

text \<open>
  What the decoder demands of an entry: its size and its path are within the limits, and
  the path is empty in a production archive and a normalised UTF-8 path with the stored
  hash otherwise.
\<close>

definition entry_decodable :: "env \<Rightarrow> bool \<Rightarrow> usize \<Rightarrow> u64 \<Rightarrow> toc_entry \<Rightarrow> bool" where
  "entry_decodable E paths_stripped max_path_bytes max_single_asset_bytes e \<longleftrightarrow>
     length (e_path e) < 2 ^ 16 \<and> e_original_size e \<le> max_single_asset_bytes
   \<and> length (e_path e) \<le> max_path_bytes
   \<and> (if paths_stripped then e_path e = []
      else e_path e \<noteq> [] \<and> utf8_valid (e_path e) \<and> normalize_path E (e_path e) = Ok (e_path e)
         \<and> checksum E (e_path e) = e_path_hash e)"

lemma decode_path_Ok:
  "decode_path E ps (length b) b h = Ok p \<longleftrightarrow>
     (if ps then b = [] \<and> p = []
      else b \<noteq> [] \<and> utf8_valid b \<and> normalize_path E b = Ok p \<and> checksum E p = h)"
  by (auto simp: decode_path_def res_simps)

lemma decode_entry_encoded:
  assumes "cursor_wf E c" "cur_rest c = entry_bytes e @ rest" "entry_decodable E ps mp ms e"
    "unat t + length (e_path e) \<le> unat mt"
  obtains t' where "decode_entry E ps mp mt ms t c
      = Ok (e, t', cursor_adv (cursor_adv c 36) (length (e_path e)))" "unat t' = unat t + length (e_path e)"
proof -
  note d = assms(3) [unfolded entry_decodable_def]
  have len: "unat (of_nat (length (e_path e)) :: u16) = length (e_path e)"
    using d by (simp add: unat_of_nat)
  have len64: "usize_to_u64 (length (e_path e)) w = Ok (of_nat (length (e_path e)))" for w
    using d by (simp add: usize_to_u64_def)
  define t' where "t' = t + of_nat (length (e_path e))"
  have lt: "unat (of_nat (length (e_path e)) :: u64) = length (e_path e)"
    using d by (simp add: unat_of_nat)
  have "unat mt < 2 ^ 64" by simp
  then have sum: "unat t + length (e_path e) < 2 ^ 64"
    using assms(4) by linarith
  have t': "unat t' = unat t + length (e_path e)"
    using sum lt unat_add_lem [of t "of_nat (length (e_path e))"] by (simp add: t'_def)
  have add: "checked_add t (of_nat (length (e_path e))) = Some t'"
    using sum lt by (simp add: checked_add_def t'_def)
  have path: "decode_path E ps (length (e_path e)) (e_path e) (e_path_hash e) = Ok (e_path e)"
    using d by (simp add: decode_path_Ok split: if_splits)
  have adv: "cursor_adv (cursor_adv c i) j = cursor_adv c (i + j)" for c i j
    by (simp add: cursor_adv_def)
  have "decode_entry E ps mp mt ms t c
      = Ok (e, t', cursor_adv (cursor_adv c 36) (length (e_path e)))"
    using assms(1,2,4) d path t'
    by (simp add: decode_entry_def entry_bytes_def codec_simps len len64 add word_le_nat_alt adv)
  with t' show ?thesis using that by blast
qed

lemma decode_entries_encoded:
  assumes "cursor_wf E c" "cur_rest c = concat (map entry_bytes es) @ rest"
    "\<forall>e \<in> set es. entry_decodable E ps mp ms e"
    "unat t + (\<Sum>e\<leftarrow>es. length (e_path e)) \<le> unat mt"
  shows "\<exists>c'. decode_entries E ps mp mt ms (length es) t c = Ok (es, c') \<and> cursor_wf E c'
           \<and> cur_rest c' = rest \<and> cur_data c' = cur_data c"
  using assms
proof (induction es arbitrary: c t)
  case Nil
  then show ?case by simp
next
  case (Cons e es)
  let ?c = "cursor_adv (cursor_adv c 36) (length (e_path e))"
  obtain t' where step: "decode_entry E ps mp mt ms t c = Ok (e, t', ?c)"
    and t': "unat t' = unat t + length (e_path e)"
    using Cons.prems by (elim decode_entry_encoded [of E c e _ ps mp ms t mt]) auto
  have "drop (length (e_path e)) (drop 36 (entry_bytes e @ x)) = x" for x
    by (simp add: length_entry_bytes add.commute)
  then have "cursor_wf E ?c" "cur_rest ?c = concat (map entry_bytes es) @ rest"
    using Cons.prems(1,2) by (auto simp: length_entry_bytes)
  then obtain c' where "decode_entries E ps mp mt ms (length es) t' ?c = Ok (es, c')" "cursor_wf E c'"
    "cur_rest c' = rest" "cur_data c' = cur_data ?c"
    using Cons.IH [of ?c t'] Cons.prems(3,4) t' by auto
  then show ?case by (simp add: step)
qed

lemma decode_chunk_encoded:
  assumes "cursor_wf E c" "cur_rest c = encode_chunk k @ rest"
  shows "decode_chunk E c = Ok (k, cursor_adv c 36)"
proof -
  have adv: "cursor_adv (cursor_adv c i) j = cursor_adv c (i + j)" for c i j
    by (simp add: cursor_adv_def)
  show ?thesis
    using assms by (simp add: decode_chunk_def encode_chunk_def codec_simps adv CHUNK_FLAG_LZ4_def)
qed

lemma decode_chunks_encoded:
  assumes "cursor_wf E c" "cur_rest c = concat (map encode_chunk ks) @ rest"
  shows "\<exists>c'. decode_chunks E (length ks) c = Ok (ks, c') \<and> cursor_wf E c'
           \<and> cur_rest c' = rest \<and> cur_data c' = cur_data c"
  using assms
proof (induction ks arbitrary: c)
  case Nil
  then show ?case by simp
next
  case (Cons k ks)
  have step: "decode_chunk E c = Ok (k, cursor_adv c 36)"
    using Cons.prems by (intro decode_chunk_encoded) auto
  have "cursor_wf E (cursor_adv c 36)" "cur_rest (cursor_adv c 36) = concat (map encode_chunk ks) @ rest"
    using Cons.prems by (auto simp: length_encode_chunk)
  from Cons.IH [OF this] show ?case by (auto simp: step)
qed

lemma decode_toc_encoded:
  assumes "length (toc_bytes entries chunks) \<le> usize_max E"
    "length entries < 2 ^ 32" "length chunks < 2 ^ 32"
    "alloc_ok E ''entry allocation'' (length entries)" "alloc_ok E ''chunk allocation'' (length chunks)"
    "\<forall>e \<in> set entries. entry_decodable E ps mp ms e"
    "(\<Sum>e\<leftarrow>entries. length (e_path e)) \<le> unat mt"
  shows "decode_toc E (toc_bytes entries chunks) (of_nat (length entries)) (of_nat (length chunks))
           ps mp mt ms = Ok (entries, chunks)"
proof -
  let ?data = "toc_bytes entries chunks"
  let ?c = "cursor_adv (cursor_new ?data) 4"
  have wf0: "cursor_wf E (cursor_new ?data)" and r0: "cur_rest (cursor_new ?data) = ?data"
    using assms(1) by (auto simp: cursor_wf_def cursor_new_def cur_rest_def)
  have "4 \<le> length ?data" by (simp add: length_toc_bytes)
  then have magic: "cursor_take E (cursor_new ?data) 4 = Ok (TOC_MAGIC, ?c)"
    using wf0 by (simp add: r0) (simp add: toc_bytes_def TOC_MAGIC_def)
  have wf: "cursor_wf E ?c"
    and rest: "cur_rest ?c = concat (map entry_bytes entries) @ concat (map encode_chunk chunks) @ []"
    using wf0 \<open>4 \<le> length ?data\<close> by (auto simp: r0) (simp add: toc_bytes_def TOC_MAGIC_def)
  obtain c1 where c1: "decode_entries E ps mp mt ms (length entries) 0 ?c = Ok (entries, c1)"
    "cursor_wf E c1" "cur_rest c1 = concat (map encode_chunk chunks) @ []"
    using decode_entries_encoded [OF wf rest assms(6), of 0 mt] assms(7) by auto
  obtain c2 where c2: "decode_chunks E (length chunks) c1 = Ok (chunks, c2)" "cursor_wf E c2" "cur_rest c2 = []"
    using decode_chunks_encoded [OF c1(2,3)] by blast
  have le: "(\<Sum>e\<leftarrow>entries. 36 + length (e_path e)) \<ge> 36 * length entries"
    by (induction entries) auto
  then have sizes: "4 + 36 * length entries + 36 * length chunks \<le> length ?data"
    by (simp add: length_toc_bytes)
  have counts: "u32_to_usize E (of_nat (length entries)) = Some (length entries)"
    "u32_to_usize E (of_nat (length chunks)) = Some (length chunks)"
    using assms(1-3) sizes by (auto simp: u32_to_usize_def unat_of_nat)
  have "Option.bind (usize_mul E (length entries) TOC_ENTRY_FIXED_SIZE) (\<lambda>v.
         Option.bind (Option.bind (usize_mul E (length chunks) TOC_CHUNK_FIXED_SIZE) (usize_add E v)) (\<lambda>v.
           usize_add E v 4)) = Some (36 * length entries + 36 * length chunks + 4)"
    using sizes assms(1)
    by (simp add: usize_mul_def usize_add_def TOC_ENTRY_FIXED_SIZE_def TOC_CHUNK_FIXED_SIZE_def mult.commute)
  then show ?thesis
    using sizes assms(4,5) c1(1) c2
    by (simp add: decode_toc_def magic counts cursor_is_empty_rest)
qed

section \<open>What the decoder accepts\<close>

lemma cursor_read_inv:
  "cursor_u16 E c = Ok (v, c') \<Longrightarrow> cursor_wf E c \<Longrightarrow>
     cur_rest c = to_le_bytes 2 v @ cur_rest c' \<and> cursor_wf E c' \<and> cur_data c' = cur_data c"
  "cursor_u32 E c = Ok (w, c') \<Longrightarrow> cursor_wf E c \<Longrightarrow>
     cur_rest c = to_le_bytes 4 w @ cur_rest c' \<and> cursor_wf E c' \<and> cur_data c' = cur_data c"
  "cursor_u64 E c = Ok (x, c') \<Longrightarrow> cursor_wf E c \<Longrightarrow>
     cur_rest c = to_le_bytes 8 x @ cur_rest c' \<and> cursor_wf E c' \<and> cur_data c' = cur_data c"
  using cursor_reads_ints [of E] unfolding cursor_reads_def by blast+

lemma cursor_take_inv:
  "cursor_take E c n = Ok (b, c') \<Longrightarrow> cursor_wf E c \<Longrightarrow>
     cur_rest c = b @ cur_rest c' \<and> length b = n \<and> cursor_wf E c' \<and> cur_data c' = cur_data c"
  by (auto simp: cursor_take_Ok)

lemma decode_entry_inv:
  assumes "decode_entry E ps mp mt ms t c = Ok (e, t', c')" "cursor_wf E c"
  obtains pb where "cur_rest c = entry_bytes (e\<lparr> e_path := pb \<rparr>) @ cur_rest c'"
    "cursor_wf E c'" "cur_data c' = cur_data c" "length pb < 2 ^ 16" "length pb \<le> mp"
    "decode_path E ps (length pb) pb (e_path_hash e) = Ok (e_path e)"
    "e_original_size e \<le> ms" "unat t' = unat t + length pb" "t' \<le> mt"
proof -
  from assms obtain ph os ss fc cc pl pb p64 c1 c2 c3 c4 c5 c6 c7 where
    r: "cursor_u64 E c = Ok (ph, c1)" "cursor_u64 E c1 = Ok (os, c2)" "cursor_u64 E c2 = Ok (ss, c3)"
      "cursor_u32 E c3 = Ok (fc, c4)" "cursor_u32 E c4 = Ok (cc, c5)" "cursor_u16 E c5 = Ok (pl, c6)"
      "cursor_u16 E c6 = Ok (0, c7)" "cursor_take E c7 (unat pl) = Ok (pb, c')"
    and l: "os \<le> ms" "unat pl \<le> mp" "usize_to_u64 (unat pl) ''path length'' = Ok p64"
      "checked_add t p64 = Some t'" "t' \<le> mt"
    and p: "decode_path E ps (unat pl) pb ph = Ok (e_path e)"
    and e: "e = \<lparr> e_path = e_path e, e_path_hash = ph, e_original_size = os,
             e_stored_size = ss, e_first_chunk = fc, e_chunk_count = cc \<rparr>"
    by (auto simp: decode_entry_def res_simps Let_def)
  note i1 = cursor_read_inv(3) [OF r(1) assms(2)]
  note i2 = cursor_read_inv(3) [OF r(2)] i1
  note i3 = cursor_read_inv(3) [OF r(3)] i2
  note i4 = cursor_read_inv(2) [OF r(4)] i3
  note i5 = cursor_read_inv(2) [OF r(5)] i4
  note i6 = cursor_read_inv(1) [OF r(6)] i5
  note i7 = cursor_read_inv(1) [OF r(7)] i6
  note i8 = cursor_take_inv [OF r(8)] i7
  have pl: "unat pl = length pb" "length pb < 2 ^ 16" "pl = of_nat (length pb)"
    using i8 unsigned_less [of pl] by (auto intro!: unat_imp_of_nat)
  have sel: "e_path_hash e = ph" "e_original_size e = os" "e_stored_size e = ss"
    "e_first_chunk e = fc" "e_chunk_count e = cc"
    by (subst e; simp)+
  have eb: "entry_bytes (e\<lparr> e_path := pb \<rparr>) = to_le_bytes 8 ph @ to_le_bytes 8 os @ to_le_bytes 8 ss
      @ to_le_bytes 4 fc @ to_le_bytes 4 cc @ to_le_bytes 2 pl @ to_le_bytes 2 (0 :: u16) @ pb"
    by (simp add: entry_bytes_def sel pl(3))
  have "cur_rest c = entry_bytes (e\<lparr> e_path := pb \<rparr>) @ cur_rest c'"
    using i8 by (simp add: eb)
  moreover have "unat t' = unat t + length pb"
    using l(3,4) pl(1) by (auto simp: arith_simps)
  ultimately show ?thesis
    using that [of pb] i8 l(1,2,5) p pl(2) sel(1,2) unfolding pl(1) by metis
qed

lemma decode_entries_inv:
  assumes "decode_entries E ps mp mt ms n t c = Ok (es, c')" "cursor_wf E c"
  shows "\<exists>raw. cur_rest c = concat (map entry_bytes raw) @ cur_rest c' \<and> cursor_wf E c'
     \<and> cur_data c' = cur_data c \<and> length es = n
     \<and> list_all2 (\<lambda>r e. r = e\<lparr> e_path := e_path r \<rparr> \<and> length (e_path r) \<le> mp
          \<and> decode_path E ps (length (e_path r)) (e_path r) (e_path_hash e) = Ok (e_path e)) raw es
     \<and> (\<forall>e \<in> set es. e_original_size e \<le> ms)
     \<and> (n = 0 \<or> unat t + (\<Sum>r\<leftarrow>raw. length (e_path r)) \<le> unat mt)"
  using assms
proof (induction n arbitrary: t c es)
  case 0
  then show ?case by (auto intro!: exI [of _ "[]"])
next
  case (Suc n)
  then obtain e t1 c1 es' where step: "decode_entry E ps mp mt ms t c = Ok (e, t1, c1)"
    and rest: "decode_entries E ps mp mt ms n t1 c1 = Ok (es', c')" and es: "es = e # es'"
    by (auto simp: res_simps)
  from step Suc.prems(2) obtain pb where pb: "cur_rest c = entry_bytes (e\<lparr> e_path := pb \<rparr>) @ cur_rest c1"
    "cursor_wf E c1" "cur_data c1 = cur_data c" "length pb \<le> mp"
    "decode_path E ps (length pb) pb (e_path_hash e) = Ok (e_path e)"
    "e_original_size e \<le> ms" "unat t1 = unat t + length pb" "t1 \<le> mt"
    by (rule decode_entry_inv)
  from Suc.IH [OF rest pb(2)] obtain raw where
    "cur_rest c1 = concat (map entry_bytes raw) @ cur_rest c'" "cursor_wf E c'"
    "cur_data c' = cur_data c1" "length es' = n" "\<forall>e \<in> set es'. e_original_size e \<le> ms"
    "n = 0 \<or> unat t1 + (\<Sum>r\<leftarrow>raw. length (e_path r)) \<le> unat mt"
    "list_all2 (\<lambda>r e. r = e\<lparr> e_path := e_path r \<rparr> \<and> length (e_path r) \<le> mp
          \<and> decode_path E ps (length (e_path r)) (e_path r) (e_path_hash e) = Ok (e_path e)) raw es'"
    by blast
  moreover from this have "n = 0 \<Longrightarrow> raw = []" by auto
  ultimately show ?case
    using pb by (intro exI [of _ "e\<lparr> e_path := pb \<rparr> # raw"]) (auto simp: es word_le_nat_alt)
qed

lemma chunk_flags_two:
  "flags AND NOT CHUNK_FLAG_LZ4 = 0 \<Longrightarrow> flags = (if flags AND CHUNK_FLAG_LZ4 \<noteq> 0 then CHUNK_FLAG_LZ4 else 0)"
proof -
  assume a: "flags AND NOT CHUNK_FLAG_LZ4 = 0"
  have b: "bit flags i \<Longrightarrow> i = 0" for i
  proof -
    assume "bit flags i"
    moreover have "\<not> bit (flags AND NOT CHUNK_FLAG_LZ4) i" by (simp only: a bit_0_eq) simp
    ultimately show "i = 0"
      by (auto simp: bit_simps CHUNK_FLAG_LZ4_def dest: bit_imp_le_length)
  qed
  show ?thesis
  proof (cases "bit flags 0")
    case True
    then have "flags = 1" by (intro bit_word_eqI) (auto simp: bit_simps dest: b)
    then show ?thesis by (simp add: CHUNK_FLAG_LZ4_def)
  next
    case False
    then have "flags = 0" by (intro bit_word_eqI) (auto dest: b)
    then show ?thesis by simp
  qed
qed

lemma decode_chunk_inv:
  assumes "decode_chunk E c = Ok (k, c')" "cursor_wf E c"
  shows "cur_rest c = encode_chunk k @ cur_rest c'" "cursor_wf E c'" "cur_data c' = cur_data c"
proof -
  from assms obtain o' ss os ck fl c1 c2 c3 c4 c5 where
    r: "cursor_u64 E c = Ok (o', c1)" "cursor_u64 E c1 = Ok (ss, c2)" "cursor_u64 E c2 = Ok (os, c3)"
      "cursor_u64 E c3 = Ok (ck, c4)" "cursor_u16 E c4 = Ok (fl, c5)" "cursor_u16 E c5 = Ok (0, c')"
    and f: "fl AND NOT CHUNK_FLAG_LZ4 = 0"
    and k: "k = \<lparr> c_offset = o', c_stored_size = ss, c_original_size = os,
             c_checksum = ck, c_compressed = (fl AND CHUNK_FLAG_LZ4 \<noteq> 0) \<rparr>"
    by (auto simp: decode_chunk_def res_simps)
  note i1 = cursor_read_inv(3) [OF r(1) assms(2)]
  note i2 = cursor_read_inv(3) [OF r(2)] i1
  note i3 = cursor_read_inv(3) [OF r(3)] i2
  note i4 = cursor_read_inv(3) [OF r(4)] i3
  note i5 = cursor_read_inv(1) [OF r(5)] i4
  note i6 = cursor_read_inv(1) [OF r(6)] i5
  have "encode_chunk k = to_le_bytes 8 o' @ to_le_bytes 8 ss @ to_le_bytes 8 os @ to_le_bytes 8 ck
      @ to_le_bytes 2 fl @ to_le_bytes 2 (0 :: u16)"
    using chunk_flags_two [OF f] by (simp add: encode_chunk_def k)
  with i6 show "cur_rest c = encode_chunk k @ cur_rest c'" "cursor_wf E c'" "cur_data c' = cur_data c"
    by simp_all
qed

lemma decode_chunks_inv:
  assumes "decode_chunks E n c = Ok (ks, c')" "cursor_wf E c"
  shows "cur_rest c = concat (map encode_chunk ks) @ cur_rest c' \<and> cursor_wf E c'
     \<and> cur_data c' = cur_data c \<and> length ks = n"
  using assms
proof (induction n arbitrary: c ks)
  case 0
  then show ?case by simp
next
  case (Suc n)
  then obtain k c1 ks' where step: "decode_chunk E c = Ok (k, c1)"
    and rest: "decode_chunks E n c1 = Ok (ks', c')" and ks: "ks = k # ks'"
    by (auto simp: res_simps)
  note d = decode_chunk_inv [OF step Suc.prems(2)]
  from Suc.IH [OF rest d(2)] d show ?case by (simp add: ks)
qed

text \<open>
  Every accepted table of contents is an encoding: of its chunks and of its entries, up to
  the normalisation of the stored paths.
\<close>

lemma decode_toc_inv:
  assumes "decode_toc E data ec cc ps mp mt ms = Ok (entries, chunks)" "length data \<le> usize_max E"
  obtains raw where "data = toc_bytes raw chunks"
    "length entries = unat ec" "length chunks = unat cc"
    "list_all2 (\<lambda>r e. r = e\<lparr> e_path := e_path r \<rparr> \<and> length (e_path r) \<le> mp
          \<and> decode_path E ps (length (e_path r)) (e_path r) (e_path_hash e) = Ok (e_path e)) raw entries"
    "\<forall>e \<in> set entries. e_original_size e \<le> ms"
    "(\<Sum>r\<leftarrow>raw. length (e_path r)) \<le> unat mt"
proof -
  have wf0: "cursor_wf E (cursor_new data)" and r0: "cur_rest (cursor_new data) = data"
    using assms(2) by (auto simp: cursor_wf_def cursor_new_def cur_rest_def)
  from assms(1) obtain c0 c1 c2 where
    magic: "cursor_take E (cursor_new data) 4 = Ok (TOC_MAGIC, c0)"
    and es: "decode_entries E ps mp mt ms (unat ec) 0 c0 = Ok (entries, c1)"
    and cs: "decode_chunks E (unat cc) c1 = Ok (chunks, c2)" and fin: "cursor_is_empty c2"
    by (auto simp: decode_toc_def res_simps arith_simps)
  note t = cursor_take_inv [OF magic wf0]
  from decode_entries_inv [OF es] t obtain raw where raw:
    "cur_rest c0 = concat (map entry_bytes raw) @ cur_rest c1" "cursor_wf E c1"
    "length entries = unat ec" "\<forall>e \<in> set entries. e_original_size e \<le> ms"
    "unat ec = 0 \<or> (\<Sum>r\<leftarrow>raw. length (e_path r)) \<le> unat mt"
    "list_all2 (\<lambda>r e. r = e\<lparr> e_path := e_path r \<rparr> \<and> length (e_path r) \<le> mp
          \<and> decode_path E ps (length (e_path r)) (e_path r) (e_path_hash e) = Ok (e_path e)) raw entries"
    by auto
  note ch = decode_chunks_inv [OF cs raw(2)]
  have "cur_rest c2 = []"
    using ch fin cursor_is_empty_rest by blast
  then have "data = toc_bytes raw chunks"
    using t raw(1) ch r0 by (simp add: toc_bytes_def)
  moreover have "(\<Sum>r\<leftarrow>raw. length (e_path r)) \<le> unat mt"
    using raw(3,5,6) by (auto dest: list_all2_lengthD)
  ultimately show ?thesis
    using that raw ch by blast
qed

lemma decode_toc_no_panic [no_panic]: "decode_toc E data ec cc ps mp mt ms \<noteq> Panic"
proof -
  have p: "decode_path E ps n b h \<noteq> Panic" for n b h
    unfolding decode_path_def by (intro no_panic)
  have e: "decode_entry E ps mp mt ms t c \<noteq> Panic" for t c
    unfolding decode_entry_def by (intro no_panic p)
  have es: "decode_entries E ps mp mt ms n t c \<noteq> Panic" for n t c
    by (induction n arbitrary: t c) (simp, simp only: decode_entries.simps, intro no_panic e)
  have k: "decode_chunk E c \<noteq> Panic" for c
    unfolding decode_chunk_def by (intro no_panic)
  have ks: "decode_chunks E n c \<noteq> Panic" for n c
    by (induction n arbitrary: c) (simp, simp only: decode_chunks.simps, intro no_panic k)
  show ?thesis
    unfolding decode_toc_def by (intro no_panic es ks)
qed

section \<open>Properties\<close>

text \<open>
  C23: round trip of the table of contents.  What \<open>encode_toc\<close> wrote, \<open>decode_toc\<close> reads back
  to the same entries and chunks, provided the counts fit the header's 32 bits, the entries
  are within the reader's limits (\<open>entry_decodable\<close>) and the two record arrays can be
  allocated.
\<close>

theorem toc_roundtrip:
  assumes "encode_toc E entries chunks = Ok data"
    and "length entries < 2 ^ 32" and "length chunks < 2 ^ 32"
    and "alloc_ok E ''entry allocation'' (length entries)" and "alloc_ok E ''chunk allocation'' (length chunks)"
    and "\<forall>e \<in> set entries. entry_decodable E paths_stripped max_path_bytes max_single_asset_bytes e"
    and "(\<Sum>e\<leftarrow>entries. length (e_path e)) \<le> unat max_total_path_bytes"
  shows "decode_toc E data (of_nat (length entries)) (of_nat (length chunks)) paths_stripped
           max_path_bytes max_total_path_bytes max_single_asset_bytes = Ok (entries, chunks)"
  using assms decode_toc_encoded [of entries chunks E] by (auto simp: encode_toc_Ok)

definition sample_toc_entry :: toc_entry where
  "sample_toc_entry = \<lparr> e_path = [], e_path_hash = 7, e_original_size = 2, e_stored_size = 2,
     e_first_chunk = 0, e_chunk_count = 1 \<rparr>"

definition sample_chunk :: chunk where
  "sample_chunk = \<lparr> c_offset = 64, c_stored_size = 2, c_original_size = 2, c_checksum = 9, c_compressed = False \<rparr>"

theorem toc_roundtrip_witness:
  "decode_toc sample_env (toc_bytes [sample_toc_entry] [sample_chunk]) 1 1 True 65535 64 100
     = Ok ([sample_toc_entry], [sample_chunk])"
proof -
  have "encode_toc sample_env [sample_toc_entry] [sample_chunk] = Ok (toc_bytes [sample_toc_entry] [sample_chunk])"
    by (simp add: encode_toc_Ok length_toc_bytes sample_toc_entry_def sample_env_def MAX_TOC_RAW_SIZE_def)
  from toc_roundtrip [OF this, of True 65535 100 64] show ?thesis
    by (simp add: entry_decodable_def sample_toc_entry_def sample_env_alloc)
qed

text \<open>
  C24: production tables of contents are canonical.  If \<open>decode_toc\<close> accepts a byte string
  without paths, encoding the result gives exactly these bytes back; so no two byte strings
  decode to the same production table.
\<close>

theorem production_toc_canonical:
  assumes "decode_toc E data ec cc True max_path_bytes max_total_path_bytes max_single_asset_bytes = Ok (entries, chunks)"
    and "length data \<le> usize_max E" and "length data \<le> unat MAX_TOC_RAW_SIZE"
    and "alloc_ok E ''raw TOC allocation'' (length data)"
  shows "encode_toc E entries chunks = Ok data \<and> length entries = unat ec \<and> length chunks = unat cc"
proof -
  obtain raw where raw: "data = toc_bytes raw chunks" "length entries = unat ec" "length chunks = unat cc"
    "list_all2 (\<lambda>r e. r = e\<lparr> e_path := e_path r \<rparr> \<and> length (e_path r) \<le> max_path_bytes
          \<and> decode_path E True (length (e_path r)) (e_path r) (e_path_hash e) = Ok (e_path e)) raw entries"
    by (rule decode_toc_inv [OF assms(1,2)]) (rule that)
  have eq: "r = e \<and> e_path e = []" if "decode_path E True (length (e_path r)) (e_path r) (e_path_hash e) = Ok (e_path e)"
    "r = e\<lparr> e_path := e_path r \<rparr>" for r e :: toc_entry
  proof -
    have p: "e_path e = []" "e_path r = []" using that(1) unfolding decode_path_Ok by simp_all
    from that(2) [unfolded p(2)] p(1) show ?thesis by simp
  qed
  have all: "list_all2 (\<lambda>r e. r = e \<and> e_path e = []) raw entries"
    using raw(4) by (rule list_all2_mono) (use eq in blast)
  then have "raw = entries" by (auto simp: list_all2_conv_all_nth intro: nth_equalityI)
  moreover have "\<forall>e \<in> set entries. e_path e = []" using all by (auto simp: list_all2_conv_all_nth in_set_conv_nth)
  ultimately show ?thesis using raw assms(2-) by (simp add: encode_toc_Ok)
qed

theorem production_toc_canonical_witness:
  "encode_toc sample_env [] [] = Ok TOC_MAGIC"
proof -
  have "decode_toc sample_env TOC_MAGIC 0 0 True 65535 64 100 = Ok ([], [])"
    by (simp add: decode_toc_def cursor_take_def cursor_new_def usize_add_def usize_mul_def get_range_def
        u32_to_usize_def TOC_MAGIC_def sample_env_def cursor_is_empty_def)
  from production_toc_canonical [OF this] show ?thesis
    by (simp add: TOC_MAGIC_def sample_env_def MAX_TOC_RAW_SIZE_def)
qed

end
