(* ===== verification/Layout.thy ===== *)
theory Layout
  imports Toc
begin

text \<open>
  What layout validation means (\<open>validate_layout\<close> of \<open>format/toc.rs\<close>).  The specification
  is declarative: chunks lie between the header and the table of contents, aligned, in
  order and without overlap, each with a plausible size, and the entries partition them.
  Validation succeeds exactly on the layouts that satisfy it.
\<close>

section \<open>Specification\<close>

definition chunk_end :: "chunk \<Rightarrow> nat" where
  "chunk_end c = unat (c_offset c) + unat (c_stored_size c)"

definition chunk_payload :: "bool \<Rightarrow> chunk \<Rightarrow> nat" where
  "chunk_payload aead c = unat (c_stored_size c) - (if aead then 40 else 0)"

definition chunk_ok :: "nat \<Rightarrow> nat \<Rightarrow> nat \<Rightarrow> bool \<Rightarrow> chunk \<Rightarrow> bool" where
  "chunk_ok toc_offset chunk_size alignment aead c \<longleftrightarrow>
     0 < unat (c_original_size c) \<and> unat (c_original_size c) \<le> chunk_size
   \<and> 0 < chunk_payload aead c
   \<and> (if c_compressed c then chunk_payload aead c < unat (c_original_size c)
      else chunk_payload aead c = unat (c_original_size c))
   \<and> 60 \<le> unat (c_offset c) \<and> alignment dvd unat (c_offset c) \<and> chunk_end c \<le> toc_offset"

definition chunks_ok :: "nat \<Rightarrow> nat \<Rightarrow> nat \<Rightarrow> bool \<Rightarrow> nat \<Rightarrow> chunk list \<Rightarrow> bool" where
  "chunks_ok toc_offset chunk_size alignment aead max_total cs \<longleftrightarrow>
     (\<forall>c \<in> set cs. chunk_ok toc_offset chunk_size alignment aead c)
   \<and> sorted_wrt (\<lambda>a b. chunk_end a \<le> unat (c_offset b)) cs
   \<and> (\<Sum>c\<leftarrow>cs. unat (c_original_size c)) \<le> max_total"

text \<open>The chunk indices and the chunks of an entry.\<close>

definition entry_first :: "toc_entry \<Rightarrow> nat" where
  "entry_first e = unat (e_first_chunk e)"

definition entry_count :: "toc_entry \<Rightarrow> nat" where
  "entry_count e = unat (e_chunk_count e)"

definition entry_range :: "toc_entry \<Rightarrow> nat list" where
  "entry_range e = [entry_first e ..< entry_first e + entry_count e]"

definition entry_chunks :: "chunk list \<Rightarrow> toc_entry \<Rightarrow> chunk list" where
  "entry_chunks cs e = take (entry_count e) (drop (entry_first e) cs)"

text \<open>
  An entry's chunks exist, add up to its sizes, and all but the last are full; it has
  chunks exactly if it is not empty.
\<close>

definition entry_ok :: "chunk list \<Rightarrow> nat \<Rightarrow> toc_entry \<Rightarrow> bool" where
  "entry_ok cs chunk_size e \<longleftrightarrow>
     entry_first e + entry_count e \<le> length cs
   \<and> (e_original_size e = 0 \<longleftrightarrow> e_chunk_count e = 0)
   \<and> (\<Sum>c\<leftarrow>entry_chunks cs e. unat (c_original_size c)) = unat (e_original_size e)
   \<and> (\<Sum>c\<leftarrow>entry_chunks cs e. unat (c_stored_size c)) = unat (e_stored_size e)
   \<and> (\<forall>i. Suc i < entry_count e \<longrightarrow> unat (c_original_size (entry_chunks cs e ! i)) = chunk_size)"

text \<open>The layout: sound chunks, sound entries, and every chunk owned by exactly one entry.\<close>

definition layout_ok :: "toc_entry list \<Rightarrow> chunk list \<Rightarrow> nat \<Rightarrow> nat \<Rightarrow> nat \<Rightarrow> bool \<Rightarrow> nat \<Rightarrow> bool" where
  "layout_ok es cs toc_offset chunk_size alignment aead max_total \<longleftrightarrow>
     chunks_ok toc_offset chunk_size alignment aead max_total cs
   \<and> (\<forall>e \<in> set es. entry_ok cs chunk_size e)
   \<and> distinct (concat (map entry_range es))
   \<and> set (concat (map entry_range es)) = {..<length cs}"

section \<open>The chunk table\<close>

lemma validate_chunk_Ok:
  "validate_chunk toc cs al aead mx pe td c = Ok (en, td') \<longleftrightarrow>
     chunk_ok (unat toc) (unat cs) (unat al) aead c \<and> unat pe \<le> unat (c_offset c)
   \<and> unat td + unat (c_original_size c) \<le> unat mx
   \<and> unat en = chunk_end c \<and> unat td' = unat td + unat (c_original_size c)"
proof -
  have payload: "(if aead then ok_or (checked_sub (c_stored_size c) AEAD_OVERHEAD) x
       else Ok (c_stored_size c)) = Ok p \<longleftrightarrow>
       (aead \<longrightarrow> 40 \<le> unat (c_stored_size c)) \<and> unat p = chunk_payload aead c" for x p
    by (auto simp: res_simps arith_simps AEAD_OVERHEAD_def chunk_payload_def word_unat_eq_iff)
  have pos: "0 < chunk_payload aead c \<Longrightarrow> aead \<Longrightarrow> 40 \<le> unat (c_stored_size c)"
    by (simp add: chunk_payload_def)
  have end_bound: "chunk_end c \<le> unat toc \<Longrightarrow> unat (c_offset c) + unat (c_stored_size c) < 2 ^ 64"
    using le_unat_u64 [of "chunk_end c" toc] by (simp add: chunk_end_def)
  have td_bound: "unat td + unat (c_original_size c) \<le> unat mx \<Longrightarrow> unat td + unat (c_original_size c) < 2 ^ 64"
    by (rule le_unat_u64)
  have "validate_chunk toc cs al aead mx pe td c = Ok (en, td') \<longleftrightarrow>
     (\<exists>p. (aead \<longrightarrow> 40 \<le> unat (c_stored_size c)) \<and> unat p = chunk_payload aead c
       \<and> c_original_size c \<noteq> 0 \<and> c_original_size c \<le> ucast cs \<and> p \<noteq> 0 \<and> p \<le> c_original_size c
       \<and> (\<not> c_compressed c \<or> p < c_original_size c) \<and> (c_compressed c \<or> p = c_original_size c)
       \<and> HEADER_SIZE \<le> c_offset c \<and> is_multiple_of (c_offset c) (ucast al) \<and> pe \<le> c_offset c
       \<and> checked_add (c_offset c) (c_stored_size c) = Some en \<and> en \<le> toc
       \<and> checked_add td (c_original_size c) = Some td' \<and> td' \<le> mx)"
    unfolding validate_chunk_def bind_res_Ok payload by (auto simp: res_simps)
  also have "\<dots> \<longleftrightarrow> chunk_ok (unat toc) (unat cs) (unat al) aead c \<and> unat pe \<le> unat (c_offset c)
   \<and> unat td + unat (c_original_size c) \<le> unat mx
   \<and> unat en = chunk_end c \<and> unat td' = unat td + unat (c_original_size c)"
    (is "?l \<longleftrightarrow> ?r")
  proof
    assume ?l
    then show ?r
      by (auto simp: chunk_ok_def arith_simps is_multiple_of_dvd HEADER_SIZE_def word_le_nat_alt
          word_less_nat_alt word_unat_eq_iff chunk_end_def)
  next
    assume r: ?r
    have "unat (of_nat (chunk_payload aead c) :: u64) = chunk_payload aead c"
      by (rule unat_of_nat_u64, rule le_unat_u64 [of _ "c_stored_size c"]) (simp add: chunk_payload_def)
    with r pos end_bound td_bound show ?l
      by (intro exI [of _ "of_nat (chunk_payload aead c)"])
        (auto simp: chunk_ok_def arith_simps is_multiple_of_dvd HEADER_SIZE_def word_le_nat_alt
          word_less_nat_alt word_unat_eq_iff chunk_end_def split: if_splits)
  qed
  finally show ?thesis .
qed

lemma validate_chunks_Ok:
  "validate_chunks toc cs al aead mx ks pe td = Ok () \<longleftrightarrow>
     (\<forall>k \<in> set ks. chunk_ok (unat toc) (unat cs) (unat al) aead k \<and> unat pe \<le> unat (c_offset k))
   \<and> sorted_wrt (\<lambda>a b. chunk_end a \<le> unat (c_offset b)) ks
   \<and> (ks = [] \<or> unat td + (\<Sum>k\<leftarrow>ks. unat (c_original_size k)) \<le> unat mx)"
proof (induction ks arbitrary: pe td)
  case Nil
  then show ?case by simp
next
  case (Cons k ks)
  have lower: "unat (c_offset k) \<le> chunk_end k"
    by (simp add: chunk_end_def)
  have nx: "(\<exists>en td'. unat en = chunk_end k \<and> unat td' = unat td + unat (c_original_size k)
        \<and> validate_chunks toc cs al aead mx ks en td' = Ok ()) \<longleftrightarrow>
     (\<forall>k' \<in> set ks. chunk_ok (unat toc) (unat cs) (unat al) aead k' \<and> chunk_end k \<le> unat (c_offset k'))
   \<and> sorted_wrt (\<lambda>a b. chunk_end a \<le> unat (c_offset b)) ks
   \<and> (ks = [] \<or> unat td + unat (c_original_size k) + (\<Sum>k\<leftarrow>ks. unat (c_original_size k)) \<le> unat mx)"
    if b: "chunk_end k < 2 ^ 64" "unat td + unat (c_original_size k) < 2 ^ 64"
  proof -
    obtain en0 td0 :: u64 where "unat en0 = chunk_end k" "unat td0 = unat td + unat (c_original_size k)"
      using unat_of_nat_u64 [OF b(1)] unat_of_nat_u64 [OF b(2)] by blast
    then show ?thesis
      unfolding Cons.IH by (intro iffI) (force, intro exI [of _ en0] exI [of _ td0], simp)
  qed
  have "validate_chunks toc cs al aead mx (k # ks) pe td = Ok () \<longleftrightarrow>
     chunk_ok (unat toc) (unat cs) (unat al) aead k \<and> unat pe \<le> unat (c_offset k)
   \<and> unat td + unat (c_original_size k) \<le> unat mx
   \<and> (\<exists>en td'. unat en = chunk_end k \<and> unat td' = unat td + unat (c_original_size k)
        \<and> validate_chunks toc cs al aead mx ks en td' = Ok ())"
    by (auto simp: res_simps validate_chunk_Ok)
  moreover have "chunk_end k < 2 ^ 64" if "chunk_ok (unat toc) (unat cs) (unat al) aead k"
    using that le_unat_u64 [of "chunk_end k" toc] by (simp add: chunk_ok_def)
  moreover have "unat td + unat (c_original_size k) < 2 ^ 64" if "unat td + unat (c_original_size k) \<le> unat mx"
    using that by (rule le_unat_u64)
  ultimately show ?case
    using nx lower by (cases "ks = []") fastforce+
qed

lemma validate_chunks_spec:
  "validate_chunks toc cs al aead mx ks HEADER_SIZE 0 = Ok () \<longleftrightarrow>
     chunks_ok (unat toc) (unat cs) (unat al) aead (unat mx) ks"
  unfolding validate_chunks_Ok chunks_ok_def
  by (auto simp: HEADER_SIZE_def chunk_ok_def)

lemma validate_chunks_no_panic [no_panic]:
  "validate_chunks toc cs al aead mx ks pe td \<noteq> Panic"
proof (induction ks arbitrary: pe td)
  case (Cons k ks)
  have "validate_chunk toc cs al aead mx pe td k \<noteq> Panic"
    unfolding validate_chunk_def by (intro no_panic)
  then show ?case
    unfolding validate_chunks.simps by (intro no_panic Cons.IH)
qed simp

lemma chunks_stored_bound:
  assumes "sorted_wrt (\<lambda>a b. chunk_end a \<le> unat (c_offset b)) ks" "\<forall>k \<in> set ks. chunk_end k \<le> toc"
    "\<forall>k \<in> set ks. p \<le> unat (c_offset k)" "p \<le> toc"
  shows "p + (\<Sum>k\<leftarrow>ks. unat (c_stored_size k)) \<le> toc"
  using assms
proof (induction ks arbitrary: p)
  case Nil
  then show ?case by simp
next
  case (Cons k ks)
  have "chunk_end k + (\<Sum>k\<leftarrow>ks. unat (c_stored_size k)) \<le> toc"
    using Cons by simp
  moreover have "p + unat (c_stored_size k) \<le> chunk_end k"
    using Cons.prems(3) by (simp add: chunk_end_def)
  ultimately show ?case by simp
qed

section \<open>Ownership of chunks\<close>

definition used_list :: "nat \<Rightarrow> nat set \<Rightarrow> bool list" where
  "used_list n S = map (\<lambda>i. i \<in> S) [0..<n]"

lemma used_list_simps [simp]:
  "length (used_list n S) = n" "i < n \<Longrightarrow> used_list n S ! i \<longleftrightarrow> i \<in> S"
  "used_list n {} = replicate n False"
  by (simp_all add: used_list_def map_replicate_const)

lemma used_list_update: "i < n \<Longrightarrow> (used_list n S)[i := True] = used_list n (insert i S)"
  by (rule nth_equalityI) (auto simp: nth_list_update)

lemma used_list_all: "list_all (\<lambda>u. u) (used_list n S) \<longleftrightarrow> {..<n} \<subseteq> S"
  by (auto simp: list_all_length)

lemma validate_owned_Ok:
  assumes "first + lcl + length ks \<le> n"
  shows "validate_owned cs first ol lcl ks (used_list n S) rt st = Ok (used', rt', st') \<longleftrightarrow>
     (\<forall>i \<in> {first + lcl ..< first + lcl + length ks}. i \<notin> S)
   \<and> used' = used_list n (S \<union> {first + lcl ..< first + lcl + length ks})
   \<and> (\<forall>j < length ks. lcl + j + 1 = ol \<or> unat (c_original_size (ks ! j)) = unat cs)
   \<and> unat rt + (\<Sum>k\<leftarrow>ks. unat (c_original_size k)) < 2 ^ 64
   \<and> unat st + (\<Sum>k\<leftarrow>ks. unat (c_stored_size k)) < 2 ^ 64
   \<and> unat rt' = unat rt + (\<Sum>k\<leftarrow>ks. unat (c_original_size k))
   \<and> unat st' = unat st + (\<Sum>k\<leftarrow>ks. unat (c_stored_size k))"
  using assms
proof (induction ks arbitrary: lcl S rt st)
  case Nil
  then show ?case by (auto simp: word_unat_eq_iff)
next
  case (Cons k ks)
  let ?g = "first + lcl"
  have g: "?g < n" using Cons.prems by simp
  have IH: "validate_owned cs first ol (Suc lcl) ks (used_list n (insert ?g S)) raw stored = Ok (used', rt', st') \<longleftrightarrow>
     (\<forall>i \<in> {Suc ?g ..< Suc ?g + length ks}. i \<notin> S)
   \<and> used' = used_list n (insert ?g S \<union> {Suc ?g ..< Suc ?g + length ks})
   \<and> (\<forall>j < length ks. Suc lcl + j + 1 = ol \<or> unat (c_original_size (ks ! j)) = unat cs)
   \<and> unat raw + (\<Sum>k\<leftarrow>ks. unat (c_original_size k)) < 2 ^ 64
   \<and> unat stored + (\<Sum>k\<leftarrow>ks. unat (c_stored_size k)) < 2 ^ 64
   \<and> unat rt' = unat raw + (\<Sum>k\<leftarrow>ks. unat (c_original_size k))
   \<and> unat st' = unat stored + (\<Sum>k\<leftarrow>ks. unat (c_stored_size k))" for raw stored
    using Cons.IH [of "Suc lcl" "insert ?g S" raw stored] Cons.prems by auto
  have rng: "{?g ..< ?g + length (k # ks)} = insert ?g {Suc ?g ..< Suc ?g + length ks}"
    by auto
  have "validate_owned cs first ol lcl (k # ks) (used_list n S) rt st = Ok (used', rt', st') \<longleftrightarrow>
     ?g \<notin> S \<and> (lcl + 1 = ol \<or> unat (c_original_size k) = unat cs)
   \<and> (\<exists>raw stored. checked_add rt (c_original_size k) = Some raw \<and> checked_add st (c_stored_size k) = Some stored
       \<and> validate_owned cs first ol (Suc lcl) ks (used_list n (insert ?g S)) raw stored = Ok (used', rt', st'))"
    using g by (auto simp: res_simps used_list_update word_unat_eq_iff)
  also have "\<dots> \<longleftrightarrow>
     ?g \<notin> S \<and> (\<forall>i \<in> {Suc ?g ..< Suc ?g + length ks}. i \<notin> S)
   \<and> used' = used_list n (insert ?g S \<union> {Suc ?g ..< Suc ?g + length ks})
   \<and> (lcl + 1 = ol \<or> unat (c_original_size k) = unat cs)
   \<and> (\<forall>j < length ks. Suc lcl + j + 1 = ol \<or> unat (c_original_size (ks ! j)) = unat cs)
   \<and> unat rt + (\<Sum>k\<leftarrow>k # ks. unat (c_original_size k)) < 2 ^ 64
   \<and> unat st + (\<Sum>k\<leftarrow>k # ks. unat (c_stored_size k)) < 2 ^ 64
   \<and> unat rt' = unat rt + (\<Sum>k\<leftarrow>k # ks. unat (c_original_size k))
   \<and> unat st' = unat st + (\<Sum>k\<leftarrow>k # ks. unat (c_stored_size k))"
    (is "?l \<longleftrightarrow> ?r")
  proof
    assume ?l
    then show ?r unfolding IH by (auto simp: arith_simps)
  next
    assume r: ?r
    then have b: "unat rt + unat (c_original_size k) < 2 ^ 64" "unat st + unat (c_stored_size k) < 2 ^ 64"
      by simp_all
    then have "checked_add rt (c_original_size k) = Some (rt + c_original_size k)"
      "checked_add st (c_stored_size k) = Some (st + c_stored_size k)"
      "unat (rt + c_original_size k) = unat rt + unat (c_original_size k)"
      "unat (st + c_stored_size k) = unat st + unat (c_stored_size k)"
      by (simp_all add: checked_add_def unat_add_lem [THEN iffD1])
    with r show ?l unfolding IH by auto
  qed
  also have "\<dots> \<longleftrightarrow>
     (\<forall>i \<in> {?g ..< ?g + length (k # ks)}. i \<notin> S)
   \<and> used' = used_list n (S \<union> {?g ..< ?g + length (k # ks)})
   \<and> (\<forall>j < length (k # ks). lcl + j + 1 = ol \<or> unat (c_original_size ((k # ks) ! j)) = unat cs)
   \<and> unat rt + (\<Sum>k\<leftarrow>k # ks. unat (c_original_size k)) < 2 ^ 64
   \<and> unat st + (\<Sum>k\<leftarrow>k # ks. unat (c_stored_size k)) < 2 ^ 64
   \<and> unat rt' = unat rt + (\<Sum>k\<leftarrow>k # ks. unat (c_original_size k))
   \<and> unat st' = unat st + (\<Sum>k\<leftarrow>k # ks. unat (c_stored_size k))"
    unfolding rng by (auto simp: All_less_Suc2 simp del: upt_Suc)
  finally show ?case .
qed

lemma sum_list_slice_le: "(\<Sum>x\<leftarrow>take a (drop b xs). f x) \<le> (\<Sum>x\<leftarrow>xs. f x :: nat)"
proof -
  have "(\<Sum>x\<leftarrow>xs. f x) = (\<Sum>x\<leftarrow>take b xs @ take a (drop b xs) @ drop a (drop b xs). f x)"
    by (simp only: append_take_drop_id)
  also have "\<dots> = (\<Sum>x\<leftarrow>take b xs. f x) + (\<Sum>x\<leftarrow>take a (drop b xs). f x) + (\<Sum>x\<leftarrow>drop a (drop b xs). f x)"
    by (simp only: map_append sum_list_append add.assoc)
  finally show ?thesis by simp
qed

lemma length_entry_chunks:
  "entry_first e + entry_count e \<le> length cs \<Longrightarrow> length (entry_chunks cs e) = entry_count e"
  by (simp add: entry_chunks_def)

lemma validate_entry_Ok:
  assumes "length cs \<le> usize_max E" "(\<Sum>k\<leftarrow>cs. unat (c_original_size k)) < 2 ^ 64"
    "(\<Sum>k\<leftarrow>cs. unat (c_stored_size k)) < 2 ^ 64"
  shows "validate_entry E cs csz (used_list (length cs) S) e = Ok used' \<longleftrightarrow>
     entry_ok cs (unat csz) e \<and> (\<forall>i \<in> set (entry_range e). i \<notin> S)
   \<and> used' = used_list (length cs) (S \<union> set (entry_range e))"
proof (cases "entry_first e + entry_count e \<le> length cs")
  case False
  then show ?thesis
    by (auto simp: validate_entry_def res_simps arith_simps get_range_Some entry_ok_def
        entry_first_def entry_count_def)
next
  case True
  let ?own = "entry_chunks cs e"
  note len = length_entry_chunks [OF True]
  have bounds: "(\<Sum>k\<leftarrow>?own. unat (c_original_size k)) < 2 ^ 64" "(\<Sum>k\<leftarrow>?own. unat (c_stored_size k)) < 2 ^ 64"
    using sum_list_slice_le order_le_less_trans assms(2,3) unfolding entry_chunks_def by blast+
  have conv: "u32_to_usize E (e_first_chunk e) = Some (entry_first e)"
    "u32_to_usize E (e_chunk_count e) = Some (entry_count e)"
    "usize_add E (entry_first e) (entry_count e) = Some (entry_first e + entry_count e)"
    "get_range cs (entry_first e) (entry_first e + entry_count e) = Some ?own"
    using True assms(1)
    by (auto simp: u32_to_usize_def usize_add_def get_range_def entry_first_def entry_count_def entry_chunks_def)
  have owned: "validate_owned csz (entry_first e) (entry_count e) 0 ?own (used_list (length cs) S) 0 0
        = Ok (u, r, s) \<longleftrightarrow>
     (\<forall>i \<in> set (entry_range e). i \<notin> S) \<and> u = used_list (length cs) (S \<union> set (entry_range e))
   \<and> (\<forall>j < entry_count e. Suc j = entry_count e \<or> unat (c_original_size (?own ! j)) = unat csz)
   \<and> unat r = (\<Sum>k\<leftarrow>?own. unat (c_original_size k)) \<and> unat s = (\<Sum>k\<leftarrow>?own. unat (c_stored_size k))"
    for u r s
    using validate_owned_Ok [of "entry_first e" 0 ?own "length cs" csz "entry_count e" S 0 0 u r s]
      True len bounds by (auto simp: entry_range_def)
  have full: "(\<forall>j < n. Suc j = n \<or> P j) \<longleftrightarrow> (\<forall>i. Suc i < n \<longrightarrow> P i)" for n P
    by (metis Suc_lessI less_irrefl Suc_lessD)
  have empty: "e_chunk_count e = 0 \<Longrightarrow> ?own = []"
    by (simp add: entry_chunks_def entry_count_def)
  have "validate_entry E cs csz (used_list (length cs) S) e = Ok used' \<longleftrightarrow>
     (e_original_size e = 0 \<and> e_chunk_count e = 0 \<and> e_stored_size e = 0
       \<or> e_original_size e \<noteq> 0 \<and> e_chunk_count e \<noteq> 0)
   \<and> validate_owned csz (entry_first e) (entry_count e) 0 ?own (used_list (length cs) S) 0 0
        = Ok (used', e_original_size e, e_stored_size e)"
    by (auto simp: validate_entry_def conv len res_simps)
  also have "\<dots> \<longleftrightarrow> entry_ok cs (unat csz) e \<and> (\<forall>i \<in> set (entry_range e). i \<notin> S)
   \<and> used' = used_list (length cs) (S \<union> set (entry_range e))"
    unfolding owned full entry_ok_def using True empty by (auto simp: word_unat_eq_iff)
  finally show ?thesis .
qed

lemma validate_entries_Ok:
  assumes "length cs \<le> usize_max E" "(\<Sum>k\<leftarrow>cs. unat (c_original_size k)) < 2 ^ 64"
    "(\<Sum>k\<leftarrow>cs. unat (c_stored_size k)) < 2 ^ 64"
  shows "validate_entries E cs csz es (used_list (length cs) S) = Ok used' \<longleftrightarrow>
     (\<forall>e \<in> set es. entry_ok cs (unat csz) e) \<and> distinct (concat (map entry_range es))
   \<and> set (concat (map entry_range es)) \<inter> S = {}
   \<and> used' = used_list (length cs) (S \<union> set (concat (map entry_range es)))"
proof (induction es arbitrary: S)
  case Nil
  then show ?case by auto
next
  case (Cons e es)
  have d: "distinct (entry_range e)" by (simp add: entry_range_def)
  have "validate_entries E cs csz (e # es) (used_list (length cs) S) = Ok used' \<longleftrightarrow>
     entry_ok cs (unat csz) e \<and> (\<forall>i \<in> set (entry_range e). i \<notin> S)
   \<and> validate_entries E cs csz es (used_list (length cs) (S \<union> set (entry_range e))) = Ok used'"
    by (auto simp: bind_res_Ok validate_entry_Ok [OF assms])
  also have "\<dots> \<longleftrightarrow> (\<forall>e \<in> set (e # es). entry_ok cs (unat csz) e)
   \<and> distinct (concat (map entry_range (e # es)))
   \<and> set (concat (map entry_range (e # es))) \<inter> S = {}
   \<and> used' = used_list (length cs) (S \<union> set (concat (map entry_range (e # es))))"
    unfolding Cons.IH using d by (auto simp: Un_assoc)
  finally show ?case .
qed

text \<open>Validation decides the specification.\<close>

lemma validate_layout_Ok:
  assumes "length cs \<le> usize_max E"
  shows "validate_layout E es cs toc csz al aead mx = Ok () \<longleftrightarrow>
     alloc_ok E ''chunk ownership allocation'' (length cs)
   \<and> layout_ok es cs (unat toc) (unat csz) (unat al) aead (unat mx)"
proof (cases "chunks_ok (unat toc) (unat csz) (unat al) aead (unat mx) cs")
  case False
  then show ?thesis
    by (auto simp: validate_layout_def bind_res_Ok validate_chunks_spec layout_ok_def)
next
  case True
  have orig: "(\<Sum>k\<leftarrow>cs. unat (c_original_size k)) < 2 ^ 64"
    using True le_unat_u64 [of _ mx] by (simp add: chunks_ok_def)
  have "0 + (\<Sum>k\<leftarrow>cs. unat (c_stored_size k)) \<le> unat toc"
    using True by (intro chunks_stored_bound) (auto simp: chunks_ok_def chunk_ok_def)
  then have stored: "(\<Sum>k\<leftarrow>cs. unat (c_stored_size k)) < 2 ^ 64"
    using le_unat_u64 by simp
  have inside: "\<forall>e \<in> set es. entry_ok cs (unat csz) e \<Longrightarrow> set (concat (map entry_range es)) \<subseteq> {..<length cs}"
    by (fastforce simp: entry_range_def entry_ok_def)
  have "validate_layout E es cs toc csz al aead mx = Ok () \<longleftrightarrow>
     alloc_ok E ''chunk ownership allocation'' (length cs)
   \<and> (\<exists>used. validate_entries E cs csz es (used_list (length cs) {}) = Ok used \<and> list_all (\<lambda>u. u) used)"
    using True by (auto simp: validate_layout_def res_simps validate_chunks_spec)
  also have "\<dots> \<longleftrightarrow> alloc_ok E ''chunk ownership allocation'' (length cs)
   \<and> (\<forall>e \<in> set es. entry_ok cs (unat csz) e) \<and> distinct (concat (map entry_range es))
   \<and> {..<length cs} \<subseteq> set (concat (map entry_range es))"
    unfolding validate_entries_Ok [OF assms orig stored] by (auto simp: used_list_all)
  also have "\<dots> \<longleftrightarrow> alloc_ok E ''chunk ownership allocation'' (length cs)
   \<and> layout_ok es cs (unat toc) (unat csz) (unat al) aead (unat mx)"
    unfolding layout_ok_def using True inside by blast
  finally show ?thesis .
qed

text \<open>The index into the ownership table is always in range.\<close>

lemma validate_owned_no_panic:
  "first + lcl + length ks \<le> length used \<Longrightarrow> validate_owned cs first ol lcl ks used rt st \<noteq> Panic"
proof (induction ks arbitrary: lcl used rt st)
  case (Cons k ks)
  then show ?case
    unfolding validate_owned.simps by (intro no_panic Cons.IH) auto
qed simp

lemma validate_owned_length:
  "validate_owned cs first ol lcl ks used rt st = Ok (u, r, s) \<Longrightarrow> length u = length used"
  by (induction ks arbitrary: lcl used rt st) (auto simp: res_simps)

lemma validate_entries_no_panic:
  "length used = length cs \<Longrightarrow> validate_entries E cs csz es used \<noteq> Panic"
proof (induction es arbitrary: used)
  case (Cons e es)
  have e: "validate_entry E cs csz used e \<noteq> Panic"
    unfolding validate_entry_def using Cons.prems
    by (intro no_panic validate_owned_no_panic) (auto simp: res_simps arith_simps get_range_Some)
  have "validate_entry E cs csz used e = Ok u \<Longrightarrow> length u = length cs" for u
    using Cons.prems by (auto simp: validate_entry_def res_simps dest: validate_owned_length split: if_splits)
  then show ?case
    unfolding validate_entries.simps by (intro no_panic e Cons.IH) simp
qed simp

lemma validate_layout_no_panic [no_panic]: "validate_layout E es cs toc csz al aead mx \<noteq> Panic"
  unfolding validate_layout_def by (intro no_panic validate_entries_no_panic) simp

section \<open>Properties\<close>

text \<open>
  C21: layout validation is sound and complete.  It succeeds exactly if its ownership table
  can be allocated and the declarative layout holds: every chunk lies aligned between header
  and table of contents with a plausible size, chunks are ordered and disjoint, their total
  is within the limit, every entry's chunks exist and add up to its sizes with all but the
  last full, and every chunk belongs to exactly one entry.
\<close>

theorem validate_layout_decides:
  assumes "length chunks \<le> usize_max E"
  shows "validate_layout E entries chunks toc_offset chunk_size alignment aead max_total = Ok () \<longleftrightarrow>
       alloc_ok E ''chunk ownership allocation'' (length chunks)
     \<and> layout_ok entries chunks (unat toc_offset) (unat chunk_size) (unat alignment) aead (unat max_total)"
  by (rule validate_layout_Ok [OF assms])

theorem validate_layout_decides_witness:
  "validate_layout sample_env [sample_toc_entry] [sample_chunk] 80 4 16 False 100 = Ok ()"
proof -
  have "layout_ok [sample_toc_entry] [sample_chunk] 80 4 16 False 100"
    by (simp add: layout_ok_def chunks_ok_def chunk_ok_def chunk_payload_def chunk_end_def entry_ok_def
        entry_chunks_def entry_range_def entry_first_def entry_count_def sample_toc_entry_def sample_chunk_def
        lessThan_Suc)
  moreover have "length [sample_chunk] \<le> usize_max sample_env" by (simp add: sample_env_def)
  ultimately show ?thesis
    using validate_layout_decides [of "[sample_chunk]" sample_env "[sample_toc_entry]" 80 4 16 False 100]
    by (simp add: sample_env_alloc)
qed

text \<open>
  C22: chunk ranges of an accepted layout are disjoint: two different chunks share no byte of
  the archive, and none touches the header or the table of contents.
\<close>

theorem accepted_chunks_disjoint:
  assumes "validate_layout E entries chunks toc_offset chunk_size alignment aead max_total = Ok ()"
    and "length chunks \<le> usize_max E" and "i < length chunks" and "j < length chunks" and "i \<noteq> j"
  shows "{unat (c_offset (chunks ! i)) ..< chunk_end (chunks ! i)} \<inter> {unat (c_offset (chunks ! j)) ..< chunk_end (chunks ! j)} = {}
     \<and> {unat (c_offset (chunks ! i)) ..< chunk_end (chunks ! i)} \<subseteq> {60 ..< unat toc_offset}"
proof -
  have ok: "chunks_ok (unat toc_offset) (unat chunk_size) (unat alignment) aead (unat max_total) chunks"
    using assms(1) validate_layout_Ok [OF assms(2)] by (simp add: layout_ok_def)
  then have srt: "sorted_wrt (\<lambda>a b. chunk_end a \<le> unat (c_offset b)) chunks" by (simp add: chunks_ok_def)
  have "chunk_end (chunks ! i) \<le> unat (c_offset (chunks ! j)) \<or> chunk_end (chunks ! j) \<le> unat (c_offset (chunks ! i))"
    using sorted_wrt_nth_less [OF srt] assms(3-5) by (metis linorder_neqE_nat)
  moreover have "60 \<le> unat (c_offset (chunks ! i)) \<and> chunk_end (chunks ! i) \<le> unat toc_offset"
    using ok assms(3) by (simp add: chunks_ok_def chunk_ok_def)
  ultimately show ?thesis by auto
qed

definition sample_chunk2 :: chunk where
  "sample_chunk2 = sample_chunk\<lparr> c_offset := 80 \<rparr>"

theorem accepted_chunks_disjoint_witness:
  "{unat (c_offset sample_chunk) ..< chunk_end sample_chunk}
     \<inter> {unat (c_offset sample_chunk2) ..< chunk_end sample_chunk2} = {}"
proof -
  let ?es = "[sample_toc_entry, sample_toc_entry\<lparr> e_first_chunk := 1 \<rparr>]" and ?cs = "[sample_chunk, sample_chunk2]"
  have "[Suc 0..<2] = [Suc 0]" "{..<Suc (Suc 0)} = {0, Suc 0}" by (auto simp: upt_rec)
  then have "layout_ok ?es ?cs 96 4 16 False 100"
    by (simp add: layout_ok_def chunks_ok_def chunk_ok_def chunk_payload_def chunk_end_def entry_ok_def
        entry_chunks_def entry_range_def entry_first_def entry_count_def sample_toc_entry_def sample_chunk_def
        sample_chunk2_def)
  moreover have cl: "length ?cs \<le> usize_max sample_env" by (simp add: sample_env_def)
  ultimately have "validate_layout sample_env ?es ?cs 96 4 16 False 100 = Ok ()"
    using validate_layout_Ok [OF cl, of ?es 96 4 16 False 100] by (simp add: sample_env_alloc)
  from accepted_chunks_disjoint [OF this cl, of 0 1] show ?thesis by simp
qed

end
