(* ===== verification/Source.thy ===== *)
theory Source
  imports Format_IO
begin

text \<open>
  Where archive bytes come from (\<open>archive/source.rs\<close>): the trait \<open>RandomAccessRead\<close> and
  its implementations for files, cursors and slices.  A source is a record of its two
  methods; reading does not change it.  The interface is the locale \<open>random_access\<close>: a
  source built over some contents has their length and reads them, and it never panics.
\<close>

section \<open>The trait\<close>

record source =
  src_len :: "(u64, io_error) res"
  src_read_exact_at :: "u64 \<Rightarrow> (bytes, unit, io_error) stm"

definition src_is_empty :: "source \<Rightarrow> (bool, io_error) res" where
  "src_is_empty S = bind_res (src_len S) (\<lambda>n. Ok (n = 0))"

section \<open>Slices and cursors\<close>

definition io_len :: "bytes \<Rightarrow> (u64, io_error) res" where
  "io_len data = (if length data < 2 ^ 64 then Ok (of_nat (length data))
                  else Err (IoError KOther ''source length overflow''))"

definition read_slice_exact :: "env \<Rightarrow> bytes \<Rightarrow> u64 \<Rightarrow> (bytes, unit, io_error) stm" where
  "read_slice_exact E data offset dst =
     bind_st (lift_st (if unat offset \<le> usize_max E then Ok (unat offset)
                       else Err (IoError KUnexpectedEof ''read offset too large''))) (\<lambda>start.
     bind_st (lift_st (ok_or (usize_add E start (length dst))
                         (IoError KUnexpectedEof ''read range overflow''))) (\<lambda>end.
     bind_st (lift_st (ok_or (get_range data start end)
                         (IoError KUnexpectedEof ''failed to fill whole buffer''))) (\<lambda>b dst.
       (Ok (), b)))) dst"

definition cursor_read_exact_at :: "env \<Rightarrow> bytes \<Rightarrow> u64 \<Rightarrow> (bytes, unit, io_error) stm" where
  "cursor_read_exact_at E data offset dst =
     bind_st (lift_st (if unat offset \<le> usize_max E then Ok (unat offset)
                       else Err (IoError KUnexpectedEof ''read offset too large''))) (\<lambda>start.
     bind_st (lift_st (ok_or (usize_add E start (length dst))
                         (IoError KUnexpectedEof ''read range overflow''))) (\<lambda>end.
     bind_st (lift_st (ok_or (get_range data start end)
                         (IoError KUnexpectedEof ''failed to fill whole buffer''))) (\<lambda>b dst.
       (Ok (), b)))) dst"

text \<open>\<open>impl RandomAccessRead for Cursor<T>\<close>, \<open>for &[u8]\<close> and \<open>for Arc<[u8]>\<close>.\<close>

definition cursor_source :: "env \<Rightarrow> bytes \<Rightarrow> source" where
  "cursor_source E data = \<lparr> src_len = io_len data, src_read_exact_at = cursor_read_exact_at E data \<rparr>"

definition slice_source :: "env \<Rightarrow> bytes \<Rightarrow> source" where
  "slice_source E data = \<lparr> src_len = io_len data, src_read_exact_at = read_slice_exact E data \<rparr>"

definition arc_source :: "env \<Rightarrow> bytes \<Rightarrow> source" where
  "arc_source E data = \<lparr> src_len = io_len data, src_read_exact_at = read_slice_exact E data \<rparr>"

text \<open>\<open>impl RandomAccessRead for BufReader<File>\<close>: the file below the buffer.\<close>

definition buf_reader_source :: "source \<Rightarrow> source" where
  "buf_reader_source file = \<lparr> src_len = src_len file, src_read_exact_at = src_read_exact_at file \<rparr>"

section \<open>Files\<close>

text \<open>
  \<open>File::read_exact_at\<close>.  The operating system's positioned read is a parameter with a
  state of its own: \<open>read_at n offset s\<close> gives the bytes of one call with a buffer of \<open>n\<close>
  bytes, or an error.  The loop repeats interrupted calls without bound, so it may not
  return; the buffer so far is \<open>got\<close>, and \<open>remaining\<close> bytes are still to fill.
\<close>

partial_function (option) file_read_loop ::
  "(nat \<Rightarrow> u64 \<Rightarrow> 's \<Rightarrow> (bytes, io_error) res \<times> 's) \<Rightarrow> u64 \<Rightarrow> bytes \<Rightarrow> nat \<Rightarrow> 's \<Rightarrow>
     ((unit, io_error) res \<times> bytes \<times> 's) option" where
  "file_read_loop read_at offset got remaining s =
     (if remaining = 0 then Some (Ok (), got, s)
      else case read_at remaining offset s of
             (Panic, s') \<Rightarrow> Some (Panic, got, s')
           | (Err e, s') \<Rightarrow>
               if io_kind_of e = KInterrupted then file_read_loop read_at offset got remaining s'
               else Some (Err e, got, s')
           | (Ok b, s') \<Rightarrow>
               if b = [] then Some (Err (IoError KUnexpectedEof ''failed to fill whole buffer''), got, s')
               else if 2 ^ 64 \<le> length b then Some (Err (IoError KOther ''read size overflow''), got, s')
               else (case checked_add offset (of_nat (length b)) of
                       None \<Rightarrow> Some (Err (IoError KOther ''read offset overflow''), got @ b, s')
                     | Some offset' \<Rightarrow>
                         if remaining < length b then Some (Panic, got @ b, s')
                         else file_read_loop read_at offset' (got @ b) (remaining - length b) s'))"

definition file_read_exact_at ::
  "(nat \<Rightarrow> u64 \<Rightarrow> 's \<Rightarrow> (bytes, io_error) res \<times> 's) \<Rightarrow> u64 \<Rightarrow> nat \<Rightarrow> 's \<Rightarrow>
     ((unit, io_error) res \<times> bytes \<times> 's) option" where
  "file_read_exact_at read_at offset dst_len s = file_read_loop read_at offset [] dst_len s"

text \<open>
  \<open>impl RandomAccessRead for File\<close>: the system's length, and the loop on the buffer.  A source
  is a function here, so each read starts in the system's state \<open>s\<close>; a read that never
  returned would count as a panic.
\<close>

definition file_source ::
  "(nat \<Rightarrow> u64 \<Rightarrow> 's \<Rightarrow> (bytes, io_error) res \<times> 's) \<Rightarrow> (u64, io_error) res \<Rightarrow> 's \<Rightarrow> source" where
  "file_source read_at metadata_len s = \<lparr>
     src_len = metadata_len,
     src_read_exact_at = (\<lambda>offset dst. case file_read_exact_at read_at offset (length dst) s of
        Some (r, b, _) \<Rightarrow> (r, b @ drop (length b) dst)
      | None \<Rightarrow> (Panic, dst)) \<rparr>"

section \<open>The interface\<close>

text \<open>
  \<open>source_safe\<close>: a read returns, keeps the length of its buffer and does not panic.
  \<open>source_backed\<close>: the source has the contents' length and serves every range of them.
\<close>

definition source_safe :: "source \<Rightarrow> bool" where
  "source_safe S \<longleftrightarrow> src_len S \<noteq> Panic
   \<and> (\<forall>offset dst. fst (src_read_exact_at S offset dst) \<noteq> Panic
        \<and> length (snd (src_read_exact_at S offset dst)) = length dst)"

definition source_backed :: "source \<Rightarrow> bytes \<Rightarrow> bool" where
  "source_backed S content \<longleftrightarrow> length content < 2 ^ 64
   \<and> src_len S = Ok (of_nat (length content))
   \<and> (\<forall>offset dst. unat offset + length dst \<le> length content \<longrightarrow>
        src_read_exact_at S offset dst = (Ok (), take (length dst) (drop (unat offset) content)))"

text \<open>
  \<open>source_stable\<close>: a read that succeeded succeeds again with the same bytes, whatever the
  buffer held before.
\<close>

definition source_stable :: "source \<Rightarrow> bool" where
  "source_stable S \<longleftrightarrow> (\<forall>offset dst dst' b. length dst' = length dst \<longrightarrow>
     src_read_exact_at S offset dst = (Ok (), b) \<longrightarrow> src_read_exact_at S offset dst' = (Ok (), b))"

locale random_access =
  fixes E :: env and mk :: "bytes \<Rightarrow> source"
  assumes safe: "source_safe (mk content)"
    and len: "length content < 2 ^ 64 \<Longrightarrow> src_len (mk content) = Ok (of_nat (length content))"
    and read_in: "length content \<le> usize_max E \<Longrightarrow> unat offset + length dst \<le> length content \<Longrightarrow>
      src_read_exact_at (mk content) offset dst = (Ok (), take (length dst) (drop (unat offset) content))"
    and read_out: "length content < unat offset + length dst \<Longrightarrow>
      \<exists>e. src_read_exact_at (mk content) offset dst = (Err e, dst) \<and> io_kind_of e = KUnexpectedEof"
begin

lemma backed: "length content < 2 ^ 64 \<Longrightarrow> length content \<le> usize_max E \<Longrightarrow> source_backed (mk content) content"
  by (simp add: source_backed_def len read_in)

lemma stable: "length content \<le> usize_max E \<Longrightarrow> source_stable (mk content)"
  unfolding source_stable_def by (metis Pair_inject read_in read_out not_le res.distinct(1))

text \<open>A read succeeds exactly on the ranges inside the contents.\<close>

lemma read_Ok_iff:
  assumes "length content \<le> usize_max E"
  shows "fst (src_read_exact_at (mk content) offset dst) = Ok () \<longleftrightarrow> unat offset + length dst \<le> length content"
proof (cases "unat offset + length dst \<le> length content")
  case True
  then show ?thesis using assms by (simp add: read_in)
next
  case False
  then show ?thesis using read_out [of content offset dst] by auto
qed

text \<open>Adjacent reads are one read.\<close>

lemma read_split:
  assumes "length content \<le> usize_max E" "unat offset + (length a + length b) \<le> length content"
    "unat offset' = unat offset + length a"
  shows "snd (src_read_exact_at (mk content) offset (a @ b)) =
     snd (src_read_exact_at (mk content) offset a) @ snd (src_read_exact_at (mk content) offset' b)"
  using assms by (simp add: read_in take_add add.commute)

end

lemma slice_read_cases:
  "read_slice_exact E data offset dst =
     (if unat offset + length dst \<le> length data \<and> unat offset + length dst \<le> usize_max E
      then (Ok (), take (length dst) (drop (unat offset) data))
      else (Err (IoError KUnexpectedEof
              (if usize_max E < unat offset then ''read offset too large''
               else if usize_max E < unat offset + length dst then ''read range overflow''
               else ''failed to fill whole buffer'')), dst))"
  by (auto simp: read_slice_exact_def bind_st_def lift_st_def usize_add_def get_range_def)

lemma cursor_read_slice: "cursor_read_exact_at = read_slice_exact"
  by (intro ext) (simp add: cursor_read_exact_at_def read_slice_exact_def)

interpretation slice_src: random_access E "slice_source E" for E
  by unfold_locales (auto simp: slice_source_def source_safe_def slice_read_cases io_len_def)

interpretation cursor_src: random_access E "cursor_source E" for E
  by unfold_locales
    (auto simp: cursor_source_def source_safe_def cursor_read_slice slice_read_cases io_len_def)

interpretation arc_src: random_access E "arc_source E" for E
  by unfold_locales (auto simp: arc_source_def source_safe_def slice_read_cases io_len_def)

lemma source_safeD [no_panic]:
  "source_safe S \<Longrightarrow> src_len S \<noteq> Panic"
  "source_safe S \<Longrightarrow> fst (src_read_exact_at S offset dst) \<noteq> Panic"
  by (simp_all add: source_safe_def)

lemma source_safe_length:
  "source_safe S \<Longrightarrow> src_read_exact_at S offset dst = (r, dst') \<Longrightarrow> length dst' = length dst"
  unfolding source_safe_def by (metis snd_conv)

section \<open>Termination and correctness of file reads\<close>

text \<open>
  What the code relies on of the operating system: the file has fixed contents, a call
  inside them transfers between one byte and the whole buffer, a call at or after the end
  transfers none.  Any call may fail with any error, but only finitely many are interrupted
  (\<open>patience\<close> bounds those still to come).
\<close>

locale positioned_file =
  fixes read_at :: "nat \<Rightarrow> u64 \<Rightarrow> 's \<Rightarrow> (bytes, io_error) res \<times> 's"
    and content :: bytes and patience :: "'s \<Rightarrow> nat"
  assumes size_bound: "length content < 2 ^ 64"
    and transfer: "0 < n \<Longrightarrow> read_at n offset s = (Ok b, s') \<Longrightarrow>
      patience s' \<le> patience s \<and> length b \<le> n \<and> b = take (length b) (drop (unat offset) content)
      \<and> (b = [] \<longrightarrow> length content \<le> unat offset)"
    and interrupted: "read_at n offset s = (Err e, s') \<Longrightarrow> io_kind_of e = KInterrupted \<Longrightarrow> patience s' < patience s"
    and returns: "fst (read_at n offset s) \<noteq> Panic"
begin

text \<open>The bytes read are the file's; an error is the end of the file or one that a call reported.\<close>

definition loop_result :: "u64 \<Rightarrow> nat \<Rightarrow> (unit, io_error) res \<Rightarrow> bytes \<Rightarrow> 's \<Rightarrow> bool" where
  "loop_result offset remaining r b s' \<longleftrightarrow> length b \<le> remaining \<and> b = take (length b) (drop (unat offset) content)
   \<and> (case r of
        Ok u \<Rightarrow> length b = remaining
      | Err e \<Rightarrow> length b < remaining \<and>
          (length content < unat offset + remaining \<and> b = drop (unat offset) content
             \<and> e = IoError KUnexpectedEof ''failed to fill whole buffer''
           \<or> io_kind_of e \<noteq> KInterrupted
             \<and> (\<exists>t. read_at (remaining - length b) (offset + of_nat (length b)) t = (Err e, s')))
      | Panic \<Rightarrow> False)"

text \<open>A transfer of some bytes, then the rest.\<close>

lemma loop_result_more:
  assumes b: "length b \<le> remaining" "b = take (length b) (drop (unat offset) content)" "b \<noteq> []"
    and o': "unat offset' = unat offset + length b"
    and rest: "loop_result offset' (remaining - length b) r c s'"
  shows "loop_result offset remaining r (b @ c) s'"
proof -
  let ?D = "drop (unat offset) content"
  have D: "drop (unat offset') content = drop (length b) ?D" by (simp add: o' add.commute)
  have "length c \<le> remaining - length b" using rest by (simp add: loop_result_def)
  with b(1) have len: "length (b @ c) \<le> remaining" by simp
  have "take (length b + length c) ?D = take (length b) ?D @ take (length c) (drop (length b) ?D)" by (rule take_add)
  also have "\<dots> = b @ c" using rest b(2) unfolding loop_result_def D by simp
  finally have pre: "b @ c = take (length (b @ c)) ?D" by simp
  have "length b = min (length b) (length ?D)" using arg_cong [OF b(2), of length] by (simp add: min.commute)
  then have inside: "unat offset + length b \<le> length content" using b(3) by (cases b) auto
  have "take (length b) ?D @ drop (length b) ?D = ?D" by (rule append_take_drop_id)
  then have all: "b @ drop (length b) ?D = ?D" by (simp only: flip: b(2))
  have at: "offset' + of_nat (length c) = offset + of_nat (length (b @ c))"
  proof -
    have "of_nat (unat offset') = (of_nat (unat offset + length b) :: u64)" by (simp only: o')
    then have "offset' = offset + of_nat (length b)" by simp
    then show ?thesis by simp
  qed
  show ?thesis
  proof (cases r)
    case (Err e)
    with rest have short: "length (b @ c) < remaining" by (simp add: loop_result_def less_diff_conv add.commute)
    from rest Err consider
      (eof) "length content < unat offset' + (remaining - length b)" "c = drop (length b) ?D"
        "e = IoError KUnexpectedEof ''failed to fill whole buffer''"
      | (failed) t where "io_kind_of e \<noteq> KInterrupted"
        "read_at (remaining - length b - length c) (offset' + of_nat (length c)) t = (Err e, s')"
      unfolding loop_result_def D by auto
    then show ?thesis
    proof cases
      case eof
      then have "length content < unat offset + remaining" using o' b(1) by linarith
      moreover have bc: "b @ c = ?D" using all eof(2) by simp
      ultimately show ?thesis
        using Err short pre eof(3) unfolding loop_result_def bc by simp
    next
      case failed
      have "remaining - length b - length c = remaining - length (b @ c)" by simp
      with failed(2) have "read_at (remaining - length (b @ c)) (offset + of_nat (length (b @ c))) t = (Err e, s')"
        by (simp only: at)
      then show ?thesis unfolding loop_result_def using Err short pre failed(1) by (simp del: length_append) blast
    qed
  next
    case (Ok u)
    have "length c = remaining - length b" using rest Ok by (simp add: loop_result_def)
    with b(1) have "length (b @ c) = remaining" by simp
    with len pre Ok show ?thesis unfolding loop_result_def by (simp only: res.case simp_thms)
  qed (use rest in \<open>simp add: loop_result_def\<close>)
qed

lemma file_read_loop_total:
  "\<exists>r b s'. file_read_loop read_at offset got remaining s = Some (r, got @ b, s') \<and> loop_result offset remaining r b s'"
proof (induction "remaining + patience s" arbitrary: offset got remaining s rule: less_induct)
  case less
  note unfold = file_read_loop.simps [of read_at offset got remaining s]
  show ?case
  proof (cases "remaining = 0")
    case True
    then show ?thesis by (intro exI [of _ "Ok ()"] exI [of _ "[]"] exI [of _ s]) (simp add: file_read_loop.simps loop_result_def)
  next
    case False
    obtain r s' where rd: "read_at remaining offset s = (r, s')" by fastforce
    show ?thesis
    proof (cases r)
      case Panic
      then show ?thesis using returns [of remaining offset s] rd by simp
    next
      case (Err e)
      show ?thesis
      proof (cases "io_kind_of e = KInterrupted")
        case True
        then have "patience s' < patience s" using interrupted rd Err by simp
        then show ?thesis using less.hyps [of remaining s' offset got] True False rd Err by (simp add: unfold)
      next
        case kind: False
        have "loop_result offset remaining (Err e) [] s'"
          using kind False rd Err by (auto simp: loop_result_def)
        moreover have "file_read_loop read_at offset got remaining s = Some (Err e, got @ [], s')"
          using kind False rd Err by (simp add: unfold)
        ultimately show ?thesis by blast
      qed
    next
      case (Ok b)
      then have t: "patience s' \<le> patience s" "length b \<le> remaining"
        "b = take (length b) (drop (unat offset) content)" "b = [] \<Longrightarrow> length content \<le> unat offset"
        using transfer [of remaining offset s b s'] rd False by auto
      show ?thesis
      proof (cases "b = []")
        case True
        then show ?thesis using t(4) rd Ok False by (simp add: unfold loop_result_def)
      next
        case nonempty: False
        have "length b = min (length content - unat offset) (length b)"
          using arg_cong [OF t(3), of length] by simp
        then have inside: "unat offset + length b \<le> length content"
          using nonempty by (cases b) auto
        define o' :: u64 where "o' = of_nat (unat offset + length b)"
        have o': "unat o' = unat offset + length b"
          unfolding o'_def using inside size_bound by (intro unat_of_nat_u64) linarith
        have lb: "length b < 2 ^ 64" using inside size_bound by linarith
        have add: "checked_add offset (of_nat (length b)) = Some o'"
          using inside size_bound o' by (simp add: checked_add_Some unat_of_nat_u64 [OF lb])
        have shrinks: "remaining - length b + patience s' < remaining + patience s"
          using t(1,2) nonempty by (cases b) auto
        have "file_read_loop read_at offset got remaining s
            = file_read_loop read_at o' (got @ b) (remaining - length b) s'"
          using rd Ok False nonempty lb add t(2) by (simp add: unfold)
        moreover obtain r c s'' where
          "file_read_loop read_at o' (got @ b) (remaining - length b) s' = Some (r, (got @ b) @ c, s'')"
          "loop_result o' (remaining - length b) r c s''"
          using less.hyps [OF shrinks] by blast
        ultimately show ?thesis using loop_result_more [OF t(2,3) nonempty o'] by (metis append_assoc)
      qed
    qed
  qed
qed

end

text \<open>A file that the system reads without errors, interruptions apart: a read has one result.\<close>

locale steady_file = positioned_file read_at content patience
  for read_at :: "nat \<Rightarrow> u64 \<Rightarrow> 's \<Rightarrow> (bytes, io_error) res \<times> 's" and content :: bytes and patience :: "'s \<Rightarrow> nat" +
  assumes steady: "read_at n offset s = (Err e, s') \<Longrightarrow> io_kind_of e = KInterrupted"
begin

lemma file_read_exact:
  "\<exists>s'. file_read_exact_at read_at offset dst_len s =
     (if dst_len = 0 \<or> unat offset + dst_len \<le> length content
      then Some (Ok (), take dst_len (drop (unat offset) content), s')
      else Some (Err (IoError KUnexpectedEof ''failed to fill whole buffer''), drop (unat offset) content, s'))"
proof -
  obtain r b s' where run: "file_read_loop read_at offset [] dst_len s = Some (r, [] @ b, s')" "loop_result offset dst_len r b s'"
    using file_read_loop_total by blast
  show ?thesis
  proof (cases r)
    case (Ok u)
    with run(2) have b: "length b = dst_len" "b = take dst_len (drop (unat offset) content)" by (auto simp: loop_result_def)
    have "length b = min (length content - unat offset) dst_len" using arg_cong [OF b(2), of length] by simp
    then have "dst_len = 0 \<or> unat offset + dst_len \<le> length content" using b(1) by auto
    then show ?thesis using run(1) Ok b(2) by (auto simp: file_read_exact_at_def)
  next
    case (Err e)
    with run(2) have "length content < unat offset + dst_len" "b = drop (unat offset) content" "length b < dst_len"
      "e = IoError KUnexpectedEof ''failed to fill whole buffer''"
      using steady by (auto simp: loop_result_def)
    then show ?thesis using run(1) Err by (auto simp: file_read_exact_at_def)
  qed (use run(2) in \<open>simp add: loop_result_def\<close>)
qed

text \<open>Then a file is a source of its contents.\<close>

lemma file_source_reads:
  "src_read_exact_at (file_source read_at metadata_len s) offset dst =
     (if dst = [] \<or> unat offset + length dst \<le> length content
      then (Ok (), take (length dst) (drop (unat offset) content))
      else (Err (IoError KUnexpectedEof ''failed to fill whole buffer''),
            drop (unat offset) content @ drop (length content - unat offset) dst))"
proof -
  obtain s' where "file_read_exact_at read_at offset (length dst) s =
     (if length dst = 0 \<or> unat offset + length dst \<le> length content
      then Some (Ok (), take (length dst) (drop (unat offset) content), s')
      else Some (Err (IoError KUnexpectedEof ''failed to fill whole buffer''), drop (unat offset) content, s'))"
    using file_read_exact by blast
  then show ?thesis by (auto simp: file_source_def)
qed

lemma file_source_of_contents:
  "source_safe (file_source read_at (Ok (of_nat (length content))) s)"
  "source_backed (file_source read_at (Ok (of_nat (length content))) s) content"
  "source_stable (file_source read_at (Ok (of_nat (length content))) s)"
proof -
  show "source_safe (file_source read_at (Ok (of_nat (length content))) s)"
    unfolding source_safe_def file_source_reads by (auto simp: file_source_def)
  show "source_backed (file_source read_at (Ok (of_nat (length content))) s) content"
    unfolding source_backed_def file_source_reads using size_bound by (auto simp: file_source_def)
  show "source_stable (file_source read_at (Ok (of_nat (length content))) s)"
    unfolding source_stable_def file_source_reads by auto
qed

end

text \<open>
  A positioned read that transfers at most a page per call and is interrupted by each
  pending signal once: the state is the number of pending signals.  The disk may have a
  \<open>fault\<close>, an offset from which on it cannot be read.
\<close>

definition paged_read_at :: "nat \<Rightarrow> nat option \<Rightarrow> bytes \<Rightarrow> nat \<Rightarrow> u64 \<Rightarrow> nat \<Rightarrow> (bytes, io_error) res \<times> nat" where
  "paged_read_at page fault content n offset signals =
     (case signals of
        Suc k \<Rightarrow> (Err (IoError KInterrupted ''interrupted''), k)
      | 0 \<Rightarrow> (if (case fault of None \<Rightarrow> False | Some f \<Rightarrow> f \<le> unat offset)
               then Err (IoError KOther ''input/output error'')
               else Ok (take (min n (Suc page)) (drop (unat offset) content)), 0))"

interpretation paged_file: positioned_file "paged_read_at page fault (take 1048576 data)" "take 1048576 data" "\<lambda>signals. signals"
  for page fault data
  by unfold_locales (auto simp: paged_read_at_def min_def split: nat.splits if_splits option.splits)

interpretation sound_file: steady_file "paged_read_at page None (take 1048576 data)" "take 1048576 data" "\<lambda>signals. signals"
  for page data
  by unfold_locales (auto simp: paged_read_at_def split: nat.splits)

section \<open>Properties\<close>

text \<open>
  Reads from memory.  A byte slice, a cursor over bytes and a shared slice serve exactly
  the ranges that lie inside the contents; any other range is an unexpected end of file
  that leaves the caller's buffer as it was.
\<close>

lemma memory_reads_are_exact:
  assumes "length content \<le> usize_max E" and "S \<in> {slice_source E content, cursor_source E content, arc_source E content}"
  shows "if unat offset + length dst \<le> length content
         then src_read_exact_at S offset dst = (Ok (), take (length dst) (drop (unat offset) content))
         else \<exists>e. src_read_exact_at S offset dst = (Err e, dst) \<and> io_kind_of e = KUnexpectedEof"
  using assms slice_src.read_in [OF assms(1)] cursor_src.read_in [OF assms(1)] arc_src.read_in [OF assms(1)]
    slice_src.read_out cursor_src.read_out arc_src.read_out by auto



end
