(* ===== verification/Reader.thy ===== *)
theory Reader
  imports Index Layout Source
begin

text \<open>
  The archive reader (\<open>archive/reader.rs\<close>): opening an archive, looking entries up by path
  and by identifier, and reading entries, chunks and ranges.  This theory holds the model.
  A buffer the code takes by \<open>&mut\<close> is state: every operation returns its result together
  with the final contents of the caller's buffer and scratch space, on errors too.
\<close>

section \<open>State\<close>

record scratch =
  s_stored :: bytes
  s_decoded :: bytes

definition default_scratch :: scratch where
  "default_scratch = \<lparr> s_stored = [], s_decoded = [] \<rparr>"

record archive =
  a_source :: source
  a_entries :: "entry list"
  a_chunks :: "chunk list"
  a_index :: id_index
  a_chunk_size :: u32
  a_alignment :: u32
  a_paths_stripped :: bool
  a_protection :: protection
  a_aead_key :: "bytes option"
  a_max_chunks_per_operation :: u32

text \<open>\<open>ChecksumLabel\<close>: the path or the hash that a checksum error names.\<close>

datatype checksum_label = LabelPath bytes | LabelHash asset_id

definition hex_digit :: "nat \<Rightarrow> u8" where
  "hex_digit n = (if n < 10 then of_nat (48 + n) else of_nat (87 + n))"

text \<open>\<open>format!("hash:{:016x}", value)\<close>.\<close>

definition hash_label :: "u64 \<Rightarrow> bytes" where
  "hash_label value = [0x68, 0x61, 0x73, 0x68, 0x3A]
     @ map (\<lambda>i. hex_digit (unat (drop_bit (4 * (15 - i)) value) mod 16)) [0..<16]"

definition to_error_string :: "checksum_label \<Rightarrow> bytes" where
  "to_error_string label = (case label of LabelPath path \<Rightarrow> path | LabelHash asset \<Rightarrow> hash_label (asset_id_get asset))"

section \<open>Buffers\<close>

definition allocate :: "env \<Rightarrow> usize \<Rightarrow> string \<Rightarrow> (bytes, error) res" where
  "allocate E len what = bind_res (ensure (alloc_ok E what len) (TooLarge what)) (\<lambda>_. Ok (replicate len 0))"

definition resize_buffer :: "env \<Rightarrow> usize \<Rightarrow> string \<Rightarrow> (bytes, unit, error) stm" where
  "resize_buffer E len what buffer =
     (if alloc_ok E what (len - length buffer) then (Ok (), resize buffer len) else (Err (TooLarge what), buffer))"

text \<open>Integer ranges of \<open>for\<close> loops, and \<open>u32::try_from\<close> of a \<open>u64\<close>.\<close>

definition u32_range :: "nat \<Rightarrow> nat \<Rightarrow> u32 list" where
  "u32_range a b = map of_nat [a..<b]"

definition u64_to_u32 :: "u64 \<Rightarrow> u32 option" where
  "u64_to_u32 v = (if unat v < 2 ^ 32 then Some (ucast v) else None)"

definition min_u64 :: "u64 \<Rightarrow> u64 \<Rightarrow> u64" where "min_u64 a b = (if b < a then b else a)"
definition max_u64 :: "u64 \<Rightarrow> u64 \<Rightarrow> u64" where "max_u64 a b = (if b < a then a else b)"

section \<open>Opening an archive\<close>

text \<open>A zeroed buffer of \<open>len\<close> bytes, filled by \<open>source.read_exact_at(offset, &mut buffer)?\<close>.\<close>

definition read_zeroed :: "source \<Rightarrow> u64 \<Rightarrow> usize \<Rightarrow> (bytes, error) res" where
  "read_zeroed S offset len =
     (case src_read_exact_at S offset (replicate len 0) of (r, buf) \<Rightarrow> bind_res (from_io r) (\<lambda>_. Ok buf))"

definition open_toc :: "env \<Rightarrow> source \<Rightarrow> bytes \<Rightarrow> bytes option \<Rightarrow> header \<Rightarrow> (bytes, error) res" where
  "open_toc E S key aead_key h =
     bind_res (u64_to_usize E (h_toc_size h) ''TOC size'') (\<lambda>toc_len.
     bind_res (ensure (alloc_ok E ''stored TOC allocation'' toc_len) (TooLarge ''stored TOC allocation'')) (\<lambda>_.
     bind_res (read_zeroed S (h_toc_offset h) toc_len) (\<lambda>toc_stored.
     bind_res (case aead_key of
                 Some k \<Rightarrow> decrypt E toc_stored k TOC_AAD
               | None \<Rightarrow> xor_in_place toc_stored key) (\<lambda>toc_stored.
     bind_res (u64_to_usize E (h_toc_raw_size h) ''raw TOC size'') (\<lambda>toc_raw_len.
     bind_res (decompress_block_exact E toc_stored toc_raw_len ''decompressed TOC size mismatch'') (\<lambda>toc_plain.
     bind_res (ensure (checksum E toc_plain = h_toc_hash h) (Corrupt ''TOC checksum mismatch'')) (\<lambda>_.
       Ok toc_plain)))))))"

definition build_index :: "env \<Rightarrow> entry list \<Rightarrow> id_index" where
  "build_index E entries =
     sort_index E (map (\<lambda>(i, entry). (asset_id_from_raw (en_path_hash entry), i)) (enumerate 0 entries))"

definition open_with_limits :: "env \<Rightarrow> source \<Rightarrow> bytes \<Rightarrow> archive_limits \<Rightarrow> (archive, error) res" where
  "open_with_limits E S key limits0 =
     bind_res (ensure (key \<noteq> []) EmptyXorKey) (\<lambda>_.
     let limits = clamped limits0 in
     bind_res (read_zeroed S 0 (unat HEADER_SIZE)) (\<lambda>header_buf.
     bind_res (read_header header_buf) (\<lambda>(h, _).
     bind_res (validate_header E h) (\<lambda>_.
     bind_res (validate_limits E h limits) (\<lambda>_.
     let protection = (if h_flags h AND HEADER_FLAG_AEAD \<noteq> 0 then Aead else Xor);
         aead_key = (if protection = Aead then Some (derive_key E key) else None) in
     bind_res (from_io (src_len S)) (\<lambda>file_len.
     bind_res (ok_or (checked_add (h_toc_offset h) (h_toc_size h)) (Corrupt ''TOC range overflow'')) (\<lambda>toc_end.
     bind_res (ensure (HEADER_SIZE \<le> h_toc_offset h \<and> toc_end \<le> file_len) (Corrupt ''TOC outside archive'')) (\<lambda>_.
     bind_res (ensure (is_multiple_of (h_toc_offset h) (ucast (h_alignment h))) (Corrupt ''TOC is not aligned'')) (\<lambda>_.
     bind_res (open_toc E S key aead_key h) (\<lambda>toc_plain.
     let paths_stripped = (h_flags h AND HEADER_FLAG_PATHS_STRIPPED \<noteq> 0) in
     bind_res (decode_toc E toc_plain (h_entry_count h) (h_chunk_count h) paths_stripped
                 (max_path_bytes limits) (max_total_path_bytes limits) (max_single_asset_bytes limits))
       (\<lambda>(toc_entries, chunks).
     bind_res (validate_layout E toc_entries chunks (h_toc_offset h) (h_chunk_size h) (h_alignment h)
                 (protection = Aead) (max_total_decompressed_bytes limits)) (\<lambda>_.
     bind_res (ensure (alloc_ok E ''entry allocation'' (length toc_entries)) (TooLarge ''entry allocation'')) (\<lambda>_.
     let entries = map entry_from toc_entries in
     bind_res (ensure (alloc_ok E ''index allocation'' (length entries)) (TooLarge ''index allocation'')) (\<lambda>_.
     let index = build_index E entries in
     bind_res (validate_index E entries index paths_stripped) (\<lambda>_.
       Ok \<lparr> a_source = S, a_entries = entries, a_chunks = chunks, a_index = index,
            a_chunk_size = h_chunk_size h, a_alignment = h_alignment h,
            a_paths_stripped = paths_stripped, a_protection = protection, a_aead_key = aead_key,
            a_max_chunks_per_operation = max_chunks_per_operation limits \<rparr>)))))))))))))))"

text \<open>\<open>ArchiveLimits::default()\<close> is \<open>runtime_default()\<close>.\<close>

definition open_archive :: "env \<Rightarrow> source \<Rightarrow> bytes \<Rightarrow> (archive, error) res" where
  "open_archive E S key = open_with_limits E S key runtime_default"

section \<open>Lookup\<close>

fun find_path :: "entry list \<Rightarrow> bytes \<Rightarrow> id_index \<Rightarrow> (usize option, error) res" where
  "find_path entries normalized [] = Ok None"
| "find_path entries normalized ((_, i) # rest) =
     bind_res (index_at entries i) (\<lambda>entry.
       if en_path entry = normalized then Ok (Some i) else find_path entries normalized rest)"

definition find_entry_index_normalized :: "env \<Rightarrow> archive \<Rightarrow> bytes \<Rightarrow> (usize, error) res" where
  "find_entry_index_normalized E A normalized =
     (let id = asset_id_from_raw (checksum E normalized) in
      bind_res (ok_or (hash_range (a_index A) id) (NotFound normalized)) (\<lambda>(start, end).
        if a_paths_stripped A then bind_res (index_at (a_index A) start) (\<lambda>r. Ok (snd r))
        else
          bind_res (slice_range (a_index A) start end) (\<lambda>range.
          bind_res (find_path (a_entries A) normalized range) (\<lambda>found.
            ok_or found (NotFound normalized)))))"

definition find_entry_index_by_id :: "archive \<Rightarrow> asset_id \<Rightarrow> (usize, error) res" where
  "find_entry_index_by_id A asset_id =
     bind_res (ok_or (hash_range (a_index A) asset_id) (NotFound (hash_label (asset_id_get asset_id))))
       (\<lambda>(start, end).
        if end - start \<noteq> 1 then Err (HashCollision (asset_id_get asset_id))
        else bind_res (index_at (a_index A) start) (\<lambda>r. Ok (snd r)))"

definition entry_of_path :: "env \<Rightarrow> archive \<Rightarrow> bytes \<Rightarrow> (entry, error) res" where
  "entry_of_path E A path =
     bind_res (normalize_lookup_path E path) (\<lambda>normalized.
     bind_res (find_entry_index_normalized E A normalized) (\<lambda>idx. index_at (a_entries A) idx))"

definition entry_by_id :: "archive \<Rightarrow> asset_id \<Rightarrow> (entry, error) res" where
  "entry_by_id A asset_id = bind_res (find_entry_index_by_id A asset_id) (\<lambda>idx. index_at (a_entries A) idx)"

definition try_contains :: "env \<Rightarrow> archive \<Rightarrow> bytes \<Rightarrow> (bool, error) res" where
  "try_contains E A path =
     bind_res (normalize_lookup_path E path) (\<lambda>normalized.
       case find_entry_index_normalized E A normalized of
         Ok _ \<Rightarrow> Ok True
       | Err e \<Rightarrow> (case e of NotFound _ \<Rightarrow> Ok False | _ \<Rightarrow> Err e)
       | Panic \<Rightarrow> Panic)"

definition contains :: "env \<Rightarrow> archive \<Rightarrow> bytes \<Rightarrow> (bool, error) res" where
  "contains E A path = (case try_contains E A path of Ok b \<Rightarrow> Ok b | Err _ \<Rightarrow> Ok False | Panic \<Rightarrow> Panic)"

definition contains_id :: "archive \<Rightarrow> asset_id \<Rightarrow> bool" where
  "contains_id A asset_id \<longleftrightarrow> hash_range (a_index A) asset_id \<noteq> None"

definition contains_hash :: "archive \<Rightarrow> u64 \<Rightarrow> bool" where
  "contains_hash A path_hash = contains_id A (asset_id_from_raw path_hash)"

section \<open>Reading one chunk\<close>

definition ensure_chunk_operation_limit :: "archive \<Rightarrow> u32 \<Rightarrow> (unit, error) res" where
  "ensure_chunk_operation_limit A n = ensure (n \<le> a_max_chunks_per_operation A) TooManyChunks"

definition chunk_at :: "env \<Rightarrow> archive \<Rightarrow> u32 \<Rightarrow> (chunk, error) res" where
  "chunk_at E A global_chunk =
     bind_res (ok_or (u32_to_usize E global_chunk) (TooLarge ''chunk index'')) (\<lambda>i.
       if i < length (a_chunks A) then Ok (a_chunks A ! i) else Err (Corrupt ''chunk index outside TOC''))"

text \<open>
  The arm that goes through the stored buffer: read the stored bytes, decrypt if there is a
  key, and decompress or copy.  The state is the pair of destination and stored buffer.
\<close>

definition fill_stored :: "archive \<Rightarrow> chunk \<Rightarrow> usize \<Rightarrow> (bytes \<times> bytes, unit, error) stm" where
  "fill_stored A c stored_len = (\<lambda>(dst, stored).
     case slice_to stored stored_len of
       Ok part \<Rightarrow> (case src_read_exact_at (a_source A) (c_offset c) part of
           (r, part') \<Rightarrow> (from_io r, dst, put_range stored 0 part'))
     | Err e \<Rightarrow> (Err e, dst, stored)
     | Panic \<Rightarrow> (Panic, dst, stored))"

definition plain_of_stored :: "env \<Rightarrow> archive \<Rightarrow> u32 \<Rightarrow> usize \<Rightarrow> bytes \<Rightarrow> (bytes, error) res" where
  "plain_of_stored E A global_chunk stored_len stored =
     bind_res (slice_to stored stored_len) (\<lambda>part.
       case a_aead_key A of
         None \<Rightarrow> Ok part
       | Some key \<Rightarrow> decrypt E part key (chunk_aad global_chunk))"

definition unpack_into :: "env \<Rightarrow> chunk \<Rightarrow> bytes \<Rightarrow> (bytes \<times> bytes, unit, error) stm" where
  "unpack_into E c plain = (\<lambda>(dst, stored).
     if c_compressed c
     then (case decompress_into_exact E plain ''decompressed chunk size mismatch'' dst of
             (r, dst') \<Rightarrow> (r, dst', stored))
     else if length plain = length dst then (Ok (), plain, stored)
     else (Err (Corrupt ''decrypted chunk size mismatch''), dst, stored))"

definition read_stored_into ::
  "env \<Rightarrow> archive \<Rightarrow> u32 \<Rightarrow> chunk \<Rightarrow> (bytes \<times> bytes, unit, error) stm" where
  "read_stored_into E A global_chunk c =
     bind_st (lift_st (u64_to_usize E (c_stored_size c) ''stored chunk size'')) (\<lambda>stored_len.
     bind_st (\<lambda>(dst, stored). case resize_buffer E stored_len ''stored chunk allocation'' stored of
                (r, stored') \<Rightarrow> (r, dst, stored')) (\<lambda>_.
     bind_st (fill_stored A c stored_len) (\<lambda>_.
     bind_st (\<lambda>(dst, stored). (plain_of_stored E A global_chunk stored_len stored, dst, stored)) (\<lambda>plain.
       unpack_into E c plain))))"

text \<open>The \<open>match\<close> on key and compression flag: raw chunks go straight into the destination.\<close>

definition read_payload_into ::
  "env \<Rightarrow> archive \<Rightarrow> u32 \<Rightarrow> chunk \<Rightarrow> (bytes \<times> bytes, unit, error) stm" where
  "read_payload_into E A global_chunk c =
     (if a_aead_key A = None \<and> \<not> c_compressed c
      then (\<lambda>(dst, stored). case src_read_exact_at (a_source A) (c_offset c) dst of
              (r, dst') \<Rightarrow> (from_io r, dst', stored))
      else read_stored_into E A global_chunk c)"

definition read_chunk_by_index_into ::
  "env \<Rightarrow> archive \<Rightarrow> checksum_label \<Rightarrow> u32 \<Rightarrow> u32 \<Rightarrow> (bytes \<times> bytes, unit, error) stm" where
  "read_chunk_by_index_into E A label local_chunk global_chunk =
     bind_st (lift_st (ensure_chunk_operation_limit A 1)) (\<lambda>_.
     bind_st (lift_st (chunk_at E A global_chunk)) (\<lambda>c.
     bind_st (lift_st (u64_to_usize E (c_original_size c) ''original chunk size'')) (\<lambda>original_len.
     bind_st (\<lambda>(dst, stored).
                (ensure (length dst = original_len) (BufferSizeMismatch original_len (length dst)), dst, stored)) (\<lambda>_.
     bind_st (read_payload_into E A global_chunk c) (\<lambda>_.
     (\<lambda>(dst, stored).
        (ensure (checksum E dst = c_checksum c) (ChecksumMismatch (to_error_string label) local_chunk),
         dst, stored)))))))"

section \<open>Reading entries\<close>

text \<open>
  The loop over the chunks of an entry; the state is destination and stored buffer.  Each
  chunk is read into its own slice \<open>dst[written..end]\<close>.
\<close>

definition read_chunk_slice ::
  "env \<Rightarrow> archive \<Rightarrow> checksum_label \<Rightarrow> u32 \<Rightarrow> u32 \<Rightarrow> usize \<Rightarrow> usize \<Rightarrow> (bytes \<times> bytes, unit, error) stm" where
  "read_chunk_slice E A label local_chunk global_chunk written end = (\<lambda>(dst, stored).
     case get_range dst written end of
       None \<Rightarrow> (Err (Corrupt ''entry decompressed size mismatch''), dst, stored)
     | Some chunk_dst \<Rightarrow>
         (case read_chunk_by_index_into E A label local_chunk global_chunk (chunk_dst, stored) of
            (r, chunk_dst', stored') \<Rightarrow> (r, put_range dst written chunk_dst', stored')))"

fun read_entry_chunks ::
  "env \<Rightarrow> archive \<Rightarrow> entry \<Rightarrow> checksum_label \<Rightarrow> u32 list \<Rightarrow> usize \<Rightarrow> (bytes \<times> bytes, usize, error) stm" where
  "read_entry_chunks E A entry label [] written = lift_st (Ok written)"
| "read_entry_chunks E A entry label (local_chunk # rest) written =
     bind_st (lift_st (ok_or (checked_add (en_first_chunk entry) local_chunk)
                         (Corrupt ''chunk index overflow''))) (\<lambda>global_chunk.
     bind_st (lift_st (chunk_at E A global_chunk)) (\<lambda>c.
     bind_st (lift_st (u64_to_usize E (c_original_size c) ''original chunk size'')) (\<lambda>len.
     bind_st (lift_st (ok_or (usize_add E written len) (Corrupt ''entry decompressed size overflow''))) (\<lambda>end.
     bind_st (read_chunk_slice E A label local_chunk global_chunk written end) (\<lambda>_.
       read_entry_chunks E A entry label rest end)))))"

definition read_entry_stored ::
  "env \<Rightarrow> archive \<Rightarrow> usize \<Rightarrow> checksum_label \<Rightarrow> usize \<Rightarrow> (bytes \<times> bytes, unit, error) stm" where
  "read_entry_stored E A idx label dst_len =
     bind_st (lift_st (ok_or (if idx < length (a_entries A) then Some (a_entries A ! idx) else None)
                         (Corrupt ''entry index outside TOC''))) (\<lambda>entry.
     bind_st (lift_st (ensure_chunk_operation_limit A (en_chunk_count entry))) (\<lambda>_.
     bind_st (lift_st (u64_to_usize E (en_original_size entry) ''original entry size'')) (\<lambda>expected.
     bind_st (lift_st (ensure (dst_len = expected) (BufferSizeMismatch expected dst_len))) (\<lambda>_.
     bind_st (read_entry_chunks E A entry label (u32_range 0 (unat (en_chunk_count entry))) 0) (\<lambda>written.
       lift_st (ensure (written = dst_len) (Corrupt ''entry decompressed size mismatch'')))))))"

definition read_entry_into ::
  "env \<Rightarrow> archive \<Rightarrow> usize \<Rightarrow> checksum_label \<Rightarrow> (bytes \<times> scratch, unit, error) stm" where
  "read_entry_into E A idx label = (\<lambda>(dst, scratch).
     case read_entry_stored E A idx label (length dst) (dst, s_stored scratch) of
       (r, dst', stored') \<Rightarrow> (r, dst', scratch\<lparr> s_stored := stored' \<rparr>))"

text \<open>Run an operation on a fresh buffer and return the buffer.\<close>

definition into_vec :: "('b \<times> 's, 'a, error) stm \<Rightarrow> 'b \<Rightarrow> 's \<Rightarrow> ('b, error) res" where
  "into_vec m out s = (case m (out, s) of (r, out', _) \<Rightarrow> bind_res r (\<lambda>_. Ok out'))"

definition read :: "env \<Rightarrow> archive \<Rightarrow> bytes \<Rightarrow> (bytes, error) res" where
  "read E A path =
     bind_res (normalize_lookup_path E path) (\<lambda>normalized.
     bind_res (find_entry_index_normalized E A normalized) (\<lambda>idx.
     bind_res (index_at (a_entries A) idx) (\<lambda>entry.
     bind_res (ensure_chunk_operation_limit A (en_chunk_count entry)) (\<lambda>_.
     bind_res (u64_to_usize E (en_original_size entry) ''original entry size'') (\<lambda>size.
     bind_res (allocate E size ''entry allocation'') (\<lambda>out.
       into_vec (read_entry_into E A idx (LabelPath normalized)) out default_scratch))))))"

definition read_by_id :: "env \<Rightarrow> archive \<Rightarrow> asset_id \<Rightarrow> (bytes, error) res" where
  "read_by_id E A asset_id =
     bind_res (find_entry_index_by_id A asset_id) (\<lambda>idx.
     bind_res (index_at (a_entries A) idx) (\<lambda>entry.
     bind_res (ensure_chunk_operation_limit A (en_chunk_count entry)) (\<lambda>_.
     bind_res (u64_to_usize E (en_original_size entry) ''original entry size'') (\<lambda>size.
     bind_res (allocate E size ''entry allocation'') (\<lambda>out.
     let label = (if a_paths_stripped A then LabelHash asset_id else LabelPath (en_path entry)) in
       into_vec (read_entry_into E A idx label) out default_scratch)))))"

definition read_by_hash :: "env \<Rightarrow> archive \<Rightarrow> u64 \<Rightarrow> (bytes, error) res" where
  "read_by_hash E A path_hash = read_by_id E A (asset_id_from_raw path_hash)"

definition read_into_with_scratch :: "env \<Rightarrow> archive \<Rightarrow> bytes \<Rightarrow> (bytes \<times> scratch, unit, error) stm" where
  "read_into_with_scratch E A path =
     bind_st (lift_st (normalize_lookup_path E path)) (\<lambda>normalized.
     bind_st (lift_st (find_entry_index_normalized E A normalized)) (\<lambda>idx.
       read_entry_into E A idx (LabelPath normalized)))"

definition read_into :: "env \<Rightarrow> archive \<Rightarrow> bytes \<Rightarrow> (bytes, unit, error) stm" where
  "read_into E A path dst =
     (case read_into_with_scratch E A path (dst, default_scratch) of (r, dst', _) \<Rightarrow> (r, dst'))"

section \<open>Reading single chunks\<close>

definition chunk_in_entry :: "entry \<Rightarrow> u32 \<Rightarrow> (u32, error) res" where
  "chunk_in_entry entry chunk_index =
     bind_res (ensure (chunk_index < en_chunk_count entry) (ChunkOutOfRange chunk_index (en_chunk_count entry))) (\<lambda>_.
       ok_or (checked_add (en_first_chunk entry) chunk_index) (Corrupt ''chunk index overflow''))"

definition read_chunk :: "env \<Rightarrow> archive \<Rightarrow> bytes \<Rightarrow> u32 \<Rightarrow> (bytes, error) res" where
  "read_chunk E A path chunk_index =
     bind_res (normalize_lookup_path E path) (\<lambda>normalized.
     bind_res (find_entry_index_normalized E A normalized) (\<lambda>idx.
     bind_res (index_at (a_entries A) idx) (\<lambda>entry.
     bind_res (chunk_in_entry entry chunk_index) (\<lambda>global_chunk.
     bind_res (ensure_chunk_operation_limit A 1) (\<lambda>_.
     bind_res (chunk_at E A global_chunk) (\<lambda>c.
     bind_res (u64_to_usize E (c_original_size c) ''original chunk size'') (\<lambda>len.
     bind_res (allocate E len ''chunk allocation'') (\<lambda>out.
       into_vec (read_chunk_by_index_into E A (LabelPath normalized) chunk_index global_chunk)
         out (s_stored default_scratch)))))))))"

definition read_chunk_into_with_scratch ::
  "env \<Rightarrow> archive \<Rightarrow> bytes \<Rightarrow> u32 \<Rightarrow> (bytes \<times> scratch, unit, error) stm" where
  "read_chunk_into_with_scratch E A path chunk_index =
     bind_st (lift_st (normalize_lookup_path E path)) (\<lambda>normalized.
     bind_st (lift_st (find_entry_index_normalized E A normalized)) (\<lambda>idx.
     bind_st (lift_st (index_at (a_entries A) idx)) (\<lambda>entry.
     bind_st (lift_st (chunk_in_entry entry chunk_index)) (\<lambda>global_chunk.
     (\<lambda>(dst, scratch).
        case read_chunk_by_index_into E A (LabelPath normalized) chunk_index global_chunk
               (dst, s_stored scratch) of
          (r, dst', stored') \<Rightarrow> (r, dst', scratch\<lparr> s_stored := stored' \<rparr>))))))"

definition read_chunk_into :: "env \<Rightarrow> archive \<Rightarrow> bytes \<Rightarrow> u32 \<Rightarrow> (bytes, unit, error) stm" where
  "read_chunk_into E A path chunk_index dst =
     (case read_chunk_into_with_scratch E A path chunk_index (dst, default_scratch) of (r, dst', _) \<Rightarrow> (r, dst'))"

section \<open>Reading ranges\<close>

definition range_chunk_count :: "archive \<Rightarrow> u64 \<Rightarrow> usize \<Rightarrow> (u32, error) res" where
  "range_chunk_count A offset actual_len =
     bind_res (usize_to_u64 actual_len ''range length'') (\<lambda>len64.
     bind_res (ok_or (checked_add offset len64) InvalidRange) (\<lambda>end.
     let chunk_size = ucast (a_chunk_size A) in
     bind_res (div_or_panic offset chunk_size) (\<lambda>first.
     bind_res (sub_or_panic end 1) (\<lambda>end1.
     bind_res (div_or_panic end1 chunk_size) (\<lambda>last.
       ok_or (Option.bind (checked_sub last first) (\<lambda>value.
              Option.bind (checked_add value 1) u64_to_u32)) TooManyChunks)))))"

definition range_len :: "env \<Rightarrow> archive \<Rightarrow> usize \<Rightarrow> u64 \<Rightarrow> usize \<Rightarrow> bool \<Rightarrow> (usize, error) res" where
  "range_len E A idx offset len exact =
     bind_res (index_at (a_entries A) idx) (\<lambda>entry.
     let size = en_original_size entry in
     if size < offset \<or> offset = size \<and> 1 \<le> len \<and> exact then Err InvalidRange
     else if len = 0 \<or> offset = size \<and> \<not> exact then Ok 0
     else
       bind_res (usize_to_u64 len ''range length'') (\<lambda>len64.
       bind_res (ok_or (checked_add offset len64) InvalidRange) (\<lambda>requested_end.
       bind_res (ensure (\<not> exact \<or> requested_end \<le> size) InvalidRange) (\<lambda>_.
       bind_res (sub_or_panic (min_u64 requested_end size) offset) (\<lambda>diff.
       bind_res (u64_to_usize E diff ''range result size'') (\<lambda>actual_len.
       bind_res (if actual_len \<noteq> 0
                 then bind_res (range_chunk_count A offset actual_len) (ensure_chunk_operation_limit A)
                 else Ok ()) (\<lambda>_.
         Ok actual_len)))))))"

text \<open>The slice of a decoded chunk that belongs to the range \<open>offset..end\<close>.\<close>

definition range_slice :: "env \<Rightarrow> u64 \<Rightarrow> u64 \<Rightarrow> u64 \<Rightarrow> u32 \<Rightarrow> u64 \<Rightarrow> (usize \<times> usize, error) res" where
  "range_slice E chunk_size offset end local_chunk original_size =
     bind_res (ok_or (checked_mul (ucast local_chunk) chunk_size) (Corrupt ''range chunk offset overflow'')) (\<lambda>chunk_start.
     bind_res (ok_or (checked_add chunk_start original_size) (Corrupt ''range chunk end overflow'')) (\<lambda>chunk_end.
     bind_res (sub_or_panic (max_u64 offset chunk_start) chunk_start) (\<lambda>start.
     bind_res (u64_to_usize E start ''range slice start'') (\<lambda>take_start.
     bind_res (sub_or_panic (min_u64 end chunk_end) chunk_start) (\<lambda>fin.
     bind_res (u64_to_usize E fin ''range slice end'') (\<lambda>take_end.
       Ok (take_start, take_end)))))))"

text \<open>Decode a chunk into the scratch buffer, and copy a slice of it into the destination.\<close>

definition resize_decoded :: "env \<Rightarrow> usize \<Rightarrow> (scratch, unit, error) stm" where
  "resize_decoded E len scratch =
     (case resize_buffer E len ''decoded chunk allocation'' (s_decoded scratch) of
        (r, decoded') \<Rightarrow> (r, scratch\<lparr> s_decoded := decoded' \<rparr>))"

definition read_decoded ::
  "env \<Rightarrow> archive \<Rightarrow> checksum_label \<Rightarrow> u32 \<Rightarrow> u32 \<Rightarrow> (scratch, unit, error) stm" where
  "read_decoded E A label local_chunk global_chunk scratch =
     (case read_chunk_by_index_into E A label local_chunk global_chunk (s_decoded scratch, s_stored scratch) of
        (r, decoded', stored') \<Rightarrow> (r, scratch\<lparr> s_decoded := decoded', s_stored := stored' \<rparr>))"

definition on_snd :: "('s, 'a, 'e) stm \<Rightarrow> ('b \<times> 's, 'a, 'e) stm" where
  "on_snd m = (\<lambda>(b, s). case m s of (r, s') \<Rightarrow> (r, b, s'))"

definition copy_decoded :: "usize \<Rightarrow> usize \<Rightarrow> usize \<Rightarrow> usize \<Rightarrow> (bytes \<times> scratch, unit, error) stm" where
  "copy_decoded written written_end take_start take_end = (\<lambda>(dst, scratch).
     case get_range dst written written_end of
       None \<Rightarrow> (Err (Corrupt ''range output size mismatch''), dst, scratch)
     | Some output \<Rightarrow>
         (case get_range (s_decoded scratch) take_start take_end of
            None \<Rightarrow> (Err (Corrupt ''range chunk slice mismatch''), dst, scratch)
          | Some decoded \<Rightarrow>
              if length output = length decoded then (Ok (), put_range dst written decoded, scratch)
              else (Panic, dst, scratch)))"

fun read_range_chunks ::
  "env \<Rightarrow> archive \<Rightarrow> entry \<Rightarrow> checksum_label \<Rightarrow> u64 \<Rightarrow> u64 \<Rightarrow> u32 list \<Rightarrow> usize \<Rightarrow>
     (bytes \<times> scratch, usize, error) stm" where
  "read_range_chunks E A entry label offset end [] written = lift_st (Ok written)"
| "read_range_chunks E A entry label offset end (local_chunk # rest) written =
     bind_st (lift_st (ensure (local_chunk < en_chunk_count entry) (Corrupt ''entry chunk range mismatch''))) (\<lambda>_.
     bind_st (lift_st (ok_or (checked_add (en_first_chunk entry) local_chunk)
                         (Corrupt ''chunk index overflow''))) (\<lambda>global_chunk.
     bind_st (lift_st (chunk_at E A global_chunk)) (\<lambda>c.
     bind_st (lift_st (u64_to_usize E (c_original_size c) ''original chunk size'')) (\<lambda>chunk_len.
     bind_st (on_snd (resize_decoded E chunk_len)) (\<lambda>_.
     bind_st (on_snd (read_decoded E A label local_chunk global_chunk)) (\<lambda>_.
     bind_st (lift_st (range_slice E (ucast (a_chunk_size A)) offset end local_chunk (c_original_size c)))
       (\<lambda>(take_start, take_end).
     bind_st (lift_st (ok_or (if take_start \<le> take_end then Some (take_end - take_start) else None)
                         (Corrupt ''range slice order''))) (\<lambda>amount.
     bind_st (lift_st (ok_or (usize_add E written amount) (Corrupt ''range output size overflow''))) (\<lambda>written_end.
     bind_st (copy_decoded written written_end take_start take_end) (\<lambda>_.
       read_range_chunks E A entry label offset end rest written_end))))))))))"

text \<open>After the early return on an empty destination of \<open>dst_len\<close> bytes.\<close>

definition read_range_nonempty ::
  "env \<Rightarrow> archive \<Rightarrow> usize \<Rightarrow> checksum_label \<Rightarrow> u64 \<Rightarrow> usize \<Rightarrow> (bytes \<times> scratch, unit, error) stm" where
  "read_range_nonempty E A idx label offset dst_len =
     bind_st (lift_st (index_at (a_entries A) idx)) (\<lambda>entry.
     bind_st (lift_st (usize_to_u64 dst_len ''range length'')) (\<lambda>len64.
     bind_st (lift_st (ok_or (checked_add offset len64) InvalidRange)) (\<lambda>end.
     bind_st (lift_st (div_or_panic offset (ucast (a_chunk_size A)))) (\<lambda>first.
     bind_st (lift_st (ok_or (u64_to_u32 first) (TooLarge ''range chunk index''))) (\<lambda>first_local.
     bind_st (lift_st (sub_or_panic end 1)) (\<lambda>end1.
     bind_st (lift_st (div_or_panic end1 (ucast (a_chunk_size A)))) (\<lambda>last.
     bind_st (lift_st (ok_or (u64_to_u32 last) (TooLarge ''range chunk index''))) (\<lambda>last_local.
     bind_st (read_range_chunks E A entry label offset end
                (u32_range (unat first_local) (Suc (unat last_local))) 0) (\<lambda>written.
       lift_st (ensure (written = dst_len) (Corrupt ''range decompressed size mismatch'')))))))))))"

definition read_range_index_into ::
  "env \<Rightarrow> archive \<Rightarrow> usize \<Rightarrow> checksum_label \<Rightarrow> u64 \<Rightarrow> (bytes \<times> scratch, unit, error) stm" where
  "read_range_index_into E A idx label offset = (\<lambda>(dst, scratch).
     if dst = [] then (Ok (), dst, scratch)
     else read_range_nonempty E A idx label offset (length dst) (dst, scratch))"

definition read_range_gen :: "env \<Rightarrow> archive \<Rightarrow> bytes \<Rightarrow> u64 \<Rightarrow> usize \<Rightarrow> bool \<Rightarrow> (bytes, error) res" where
  "read_range_gen E A path offset len exact =
     bind_res (normalize_lookup_path E path) (\<lambda>normalized.
     bind_res (find_entry_index_normalized E A normalized) (\<lambda>idx.
     bind_res (range_len E A idx offset len exact) (\<lambda>actual_len.
     bind_res (allocate E actual_len ''range allocation'') (\<lambda>out.
       into_vec (read_range_index_into E A idx (LabelPath normalized) offset) out default_scratch))))"

definition read_range :: "env \<Rightarrow> archive \<Rightarrow> bytes \<Rightarrow> u64 \<Rightarrow> usize \<Rightarrow> (bytes, error) res" where
  "read_range E A path offset len = read_range_gen E A path offset len False"

definition read_range_exact :: "env \<Rightarrow> archive \<Rightarrow> bytes \<Rightarrow> u64 \<Rightarrow> usize \<Rightarrow> (bytes, error) res" where
  "read_range_exact E A path offset len = read_range_gen E A path offset len True"

definition read_range_with_scratch ::
  "env \<Rightarrow> archive \<Rightarrow> bytes \<Rightarrow> u64 \<Rightarrow> (bytes \<times> scratch, usize, error) stm" where
  "read_range_with_scratch E A path offset = (\<lambda>(dst, scratch).
     (bind_st (lift_st (normalize_lookup_path E path)) (\<lambda>normalized.
      bind_st (lift_st (find_entry_index_normalized E A normalized)) (\<lambda>idx.
      bind_st (lift_st (range_len E A idx offset (length dst) False)) (\<lambda>actual_len.
      bind_st (\<lambda>(dst, scratch). case slice_to dst actual_len of
                 Ok part \<Rightarrow>
                   (case read_range_index_into E A idx (LabelPath normalized) offset (part, scratch) of
                      (r, part', scratch') \<Rightarrow> (r, put_range dst 0 part', scratch'))
               | Err e \<Rightarrow> (Err e, dst, scratch)
               | Panic \<Rightarrow> (Panic, dst, scratch)) (\<lambda>_.
        lift_st (Ok actual_len)))))) (dst, scratch))"

definition read_range_into :: "env \<Rightarrow> archive \<Rightarrow> bytes \<Rightarrow> u64 \<Rightarrow> (bytes, usize, error) stm" where
  "read_range_into E A path offset dst =
     (case read_range_with_scratch E A path offset (dst, default_scratch) of (r, dst', _) \<Rightarrow> (r, dst'))"

section \<open>Verification of the whole archive\<close>

fun verify_chunks ::
  "env \<Rightarrow> archive \<Rightarrow> entry \<Rightarrow> checksum_label \<Rightarrow> u32 list \<Rightarrow> (scratch, unit, error) stm" where
  "verify_chunks E A entry label [] = lift_st (Ok ())"
| "verify_chunks E A entry label (local_chunk # rest) =
     bind_st (lift_st (ok_or (checked_add (en_first_chunk entry) local_chunk)
                         (Corrupt ''chunk index overflow''))) (\<lambda>global_chunk.
     bind_st (lift_st (chunk_at E A global_chunk)) (\<lambda>c.
     bind_st (lift_st (u64_to_usize E (c_original_size c) ''original chunk size'')) (\<lambda>len.
     bind_st (resize_decoded E len) (\<lambda>_.
     bind_st (read_decoded E A label local_chunk global_chunk) (\<lambda>_.
       verify_chunks E A entry label rest)))))"

fun verify_entries :: "env \<Rightarrow> archive \<Rightarrow> entry list \<Rightarrow> (scratch, unit, error) stm" where
  "verify_entries E A [] = lift_st (Ok ())"
| "verify_entries E A (entry # rest) =
     (let label = (if a_paths_stripped A then LabelHash (asset_id_from_raw (en_path_hash entry))
                   else LabelPath (en_path entry)) in
      bind_st (verify_chunks E A entry label (u32_range 0 (unat (en_chunk_count entry)))) (\<lambda>_.
        verify_entries E A rest))"

definition verify :: "env \<Rightarrow> archive \<Rightarrow> (unit, error) res" where
  "verify E A =
     bind_res (ok_or (if length (a_chunks A) < 2 ^ 32 then Some (of_nat (length (a_chunks A))) else None)
                 TooManyChunks) (\<lambda>n.
     bind_res (ensure_chunk_operation_limit A n) (\<lambda>_.
       fst (verify_entries E A (a_entries A) default_scratch)))"

end
