(* ===== verification/Reader_Safety.thy ===== *)
theory Reader_Safety
  imports Reader
begin

text \<open>
  What opening an archive establishes, and that no operation of the reader panics.  The
  invariant \<open>archive_wf\<close> collects what the header, layout and index checks leave behind;
  every index expression, subtraction and division of the reader is safe under it, for
  every byte string a source may deliver.
\<close>

section \<open>The invariant of an open archive\<close>

definition entry_names_ok :: "env \<Rightarrow> bool \<Rightarrow> entry \<Rightarrow> bool" where
  "entry_names_ok E paths_stripped e \<longleftrightarrow>
     (if paths_stripped then en_path e = []
      else (\<exists>raw. utf8_valid raw \<and> normalize_path E raw = Ok (en_path e))
         \<and> checksum E (en_path e) = en_path_hash e)"

definition index_records :: "entry list \<Rightarrow> id_index" where
  "index_records es = map (\<lambda>(i, e). (AssetId (en_path_hash e), i)) (enumerate 0 es)"

definition archive_wf :: "env \<Rightarrow> archive \<Rightarrow> bool" where
  "archive_wf E A \<longleftrightarrow>
     (\<exists>toc toc_offset max_total. a_entries A = map entry_from toc
        \<and> layout_ok toc (a_chunks A) toc_offset (unat (a_chunk_size A)) (unat (a_alignment A))
            (a_protection A = Aead) max_total)
   \<and> 0 < unat (a_chunk_size A) \<and> unat (a_chunk_size A) \<le> MAX_CHUNK_SIZE
   \<and> unat (a_chunk_size A) \<le> usize_max E
   \<and> (\<exists>k \<le> 20. unat (a_alignment A) = 2 ^ k)
   \<and> length (a_chunks A) < 2 ^ 32 \<and> length (a_chunks A) \<le> usize_max E
   \<and> sorted (map fst (a_index A)) \<and> mset (a_index A) = mset (index_records (a_entries A))
   \<and> index_ok (a_entries A) (a_paths_stripped A) (a_index A)
   \<and> (\<forall>e \<in> set (a_entries A). entry_names_ok E (a_paths_stripped A) e)
   \<and> (a_aead_key A = None \<longleftrightarrow> a_protection A = Xor)"

lemma set_index_records: "set (index_records es) = {(AssetId (en_path_hash (es ! i)), i) | i. i < length es}"
  by (force simp: index_records_def in_set_enumerate_eq)

lemma build_index_records:
  assumes "env_safe E"
  shows "sorted (map fst (build_index E es))" "mset (build_index E es) = mset (index_records es)"
    "set (build_index E es) = set (index_records es)" "\<forall>r \<in> set (build_index E es). snd r < length es"
proof -
  have b: "build_index E es = sort_index E (index_records es)"
    by (simp add: build_index_def index_records_def asset_id_from_raw_def)
  then show "sorted (map fst (build_index E es))" "mset (build_index E es) = mset (index_records es)"
    and s: "set (build_index E es) = set (index_records es)"
    using env_safe_sort [OF assms] by simp_all
  then show "\<forall>r \<in> set (build_index E es). snd r < length es"
    by (auto simp: set_index_records)
qed

lemma read_zeroed_Ok [res_simps]:
  "read_zeroed S offset n = Ok b \<longleftrightarrow> src_read_exact_at S offset (replicate n 0) = (Ok (), b)"
  by (auto simp: read_zeroed_def res_simps split: prod.splits)

lemma open_toc_Ok:
  assumes "env_safe E" "open_toc E S key k h = Ok plain"
  shows "length plain = unat (h_toc_raw_size h)" "unat (h_toc_raw_size h) \<le> usize_max E"
    "checksum E plain = h_toc_hash h"
  using assms(2) decompress_block_exact_length [OF assms(1)]
  by (auto simp: open_toc_def res_simps arith_simps)

lemma decode_toc_names:
  assumes "list_all2 (\<lambda>r e. r = e\<lparr> e_path := e_path r \<rparr> \<and> length (e_path r) \<le> mp
          \<and> decode_path E ps (length (e_path r)) (e_path r) (e_path_hash e) = Ok (e_path e)) raw toc"
  shows "\<forall>e \<in> set (map entry_from toc). entry_names_ok E ps e"
proof
  fix e assume "e \<in> set (map entry_from toc)"
  then obtain i where i: "i < length toc" "e = entry_from (toc ! i)"
    by (auto simp: in_set_conv_nth)
  then have "decode_path E ps (length (e_path (raw ! i))) (e_path (raw ! i)) (en_path_hash e) = Ok (en_path e)"
    using assms by (auto simp: list_all2_conv_all_nth)
  then show "entry_names_ok E ps e"
    by (auto simp: decode_path_Ok entry_names_ok_def split: if_splits)
qed

lemma open_steps:
  assumes "open_with_limits E S key l = Ok A"
  obtains hb hdr rest plain toc where
    "key \<noteq> []" "src_read_exact_at S 0 (replicate 60 0) = (Ok (), hb)" "read_header hb = Ok (hdr, rest)"
    "validate_header E hdr = Ok ()" "validate_limits E hdr (clamped l) = Ok ()"
    "open_toc E S key (a_aead_key A) hdr = Ok plain"
    "decode_toc E plain (h_entry_count hdr) (h_chunk_count hdr) (a_paths_stripped A)
        (max_path_bytes (clamped l)) (max_total_path_bytes (clamped l)) (max_single_asset_bytes (clamped l))
      = Ok (toc, a_chunks A)"
    "validate_layout E toc (a_chunks A) (h_toc_offset hdr) (h_chunk_size hdr) (h_alignment hdr)
        (a_protection A = Aead) (max_total_decompressed_bytes (clamped l)) = Ok ()"
    "a_entries A = map entry_from toc" "a_index A = build_index E (a_entries A)"
    "validate_index E (a_entries A) (a_index A) (a_paths_stripped A) = Ok ()"
    "a_chunk_size A = h_chunk_size hdr" "a_alignment A = h_alignment hdr" "a_source A = S"
    "a_aead_key A = (if a_protection A = Aead then Some (derive_key E key) else None)"
    "a_protection A = (if bit (h_flags hdr) 5 then Aead else Xor)"
    "a_paths_stripped A = bit (h_flags hdr) 4"
    "a_max_chunks_per_operation A = max_chunks_per_operation (clamped l)"
  using assms unfolding open_with_limits_def Let_def
  by (auto simp: res_simps HEADER_SIZE_def flag_set split: prod.splits)

lemma open_with_limits_wf:
  assumes "env_safe E" "open_with_limits E S key l = Ok A"
  shows "archive_wf E A"
proof -
  from assms(2) obtain hb hdr rest plain toc where
    hv: "validate_header E hdr = Ok ()"
    and ot: "open_toc E S key (a_aead_key A) hdr = Ok plain"
    and dt: "decode_toc E plain (h_entry_count hdr) (h_chunk_count hdr) (a_paths_stripped A)
        (max_path_bytes (clamped l)) (max_total_path_bytes (clamped l)) (max_single_asset_bytes (clamped l))
      = Ok (toc, a_chunks A)"
    and vl: "validate_layout E toc (a_chunks A) (h_toc_offset hdr) (h_chunk_size hdr) (h_alignment hdr)
        (a_protection A = Aead) (max_total_decompressed_bytes (clamped l)) = Ok ()"
    and es: "a_entries A = map entry_from toc" and ix: "a_index A = build_index E (a_entries A)"
    and vi: "validate_index E (a_entries A) (a_index A) (a_paths_stripped A) = Ok ()"
    and cs: "a_chunk_size A = h_chunk_size hdr" and al: "a_alignment A = h_alignment hdr"
    and ak: "a_aead_key A = (if a_protection A = Aead then Some (derive_key E key) else None)"
    by (rule open_steps)
  note plain = open_toc_Ok [OF assms(1) ot]
  from decode_toc_inv [OF dt] plain obtain raw where raw: "plain = toc_bytes raw (a_chunks A)"
    "length (a_chunks A) = unat (h_chunk_count hdr)"
    "list_all2 (\<lambda>r e. r = e\<lparr> e_path := e_path r \<rparr> \<and> length (e_path r) \<le> max_path_bytes (clamped l)
          \<and> decode_path E (a_paths_stripped A) (length (e_path r)) (e_path r) (e_path_hash e) = Ok (e_path e)) raw toc"
    by (metis (no_types, lifting))
  have cl: "length (a_chunks A) \<le> usize_max E"
    using plain raw(1) by (simp add: length_toc_bytes)
  note idx = build_index_records [OF assms(1), of "a_entries A", folded ix]
  have "index_ok (a_entries A) (a_paths_stripped A) (a_index A)"
    using vi validate_index_Ok [OF idx(1,4)] by blast
  moreover have "layout_ok toc (a_chunks A) (unat (h_toc_offset hdr)) (unat (a_chunk_size A))
      (unat (a_alignment A)) (a_protection A = Aead) (unat (max_total_decompressed_bytes (clamped l)))"
    using vl validate_layout_Ok [OF cl] by (simp add: cs al)
  moreover have "a_aead_key A = None \<longleftrightarrow> a_protection A = Xor"
    by (cases "a_protection A") (simp_all add: ak)
  moreover have "\<forall>e \<in> set (a_entries A). entry_names_ok E (a_paths_stripped A) e"
    using decode_toc_names [OF raw(3)] by (simp only: es)
  moreover have "length (a_chunks A) < 2 ^ 32" by (simp add: raw(2))
  moreover note hv [unfolded validate_header_Ok, folded cs al] es cl idx(1,2)
  ultimately show ?thesis
    unfolding archive_wf_def by blast
qed

section \<open>Opening does not panic\<close>

lemma read_zeroed_no_panic [no_panic]: "source_safe S \<Longrightarrow> read_zeroed S offset n \<noteq> Panic"
  using source_safeD(2) [of S offset "replicate n 0"]
  by (auto simp: read_zeroed_def bind_res_Panic from_io_no_panic split: prod.splits)

lemma open_toc_no_panic [no_panic]:
  assumes "source_safe S" "key \<noteq> []"
  shows "open_toc E S key k h \<noteq> Panic"
  unfolding open_toc_def by (intro no_panic assms)

lemma open_with_limits_no_panic:
  assumes "env_safe E" "source_safe S"
  shows "open_with_limits E S key l \<noteq> Panic"
  unfolding open_with_limits_def
  by (intro no_panic assms build_index_records(4)) (simp add: res_simps)

section \<open>Lookup\<close>

lemma find_path_eq:
  "\<forall>r \<in> set rs. snd r < length es \<Longrightarrow>
   find_path es n rs = Ok (map_option snd (List.find (\<lambda>r. en_path (es ! snd r) = n) rs))"
  by (induction rs) (auto simp: index_at_def)

lemma wf_sorted: "archive_wf E A \<Longrightarrow> sorted (map fst (a_index A))"
  by (simp add: archive_wf_def)

lemma wf_index:
  "archive_wf E A \<Longrightarrow>
   set (a_index A) = {(AssetId (en_path_hash (a_entries A ! i)), i) | i. i < length (a_entries A)}"
  using set_index_records [of "a_entries A"] unfolding archive_wf_def by (metis set_mset_mset)

lemma wf_index_less: "archive_wf E A \<Longrightarrow> \<forall>r \<in> set (a_index A). snd r < length (a_entries A)"
  by (auto simp: wf_index)

lemma wf_index_distinct:
  assumes "archive_wf E A"
  shows "distinct (map snd (a_index A))"
proof -
  have "mset (map snd (a_index A)) = mset (map snd (index_records (a_entries A)))"
    using assms by (metis archive_wf_def mset_map)
  moreover have "map snd (index_records es) = [0..<length es]" for es
    by (simp add: index_records_def comp_def case_prod_beta)
  ultimately show ?thesis by (metis distinct_upt mset_eq_imp_distinct_iff)
qed

text \<open>The entries whose path hash is the identifier.\<close>

definition id_matches :: "archive \<Rightarrow> asset_id \<Rightarrow> nat set" where
  "id_matches A a = {i. i < length (a_entries A) \<and> AssetId (en_path_hash (a_entries A ! i)) = a}"

lemma set_bucket: "archive_wf E A \<Longrightarrow> set (bucket (a_index A) a) = Pair a ` id_matches A a"
  by (auto simp: bucket_def wf_index id_matches_def)

lemma length_bucket:
  assumes "archive_wf E A"
  shows "length (bucket (a_index A) a) = card (id_matches A a)"
proof -
  have "distinct (map snd (bucket (a_index A) a))"
    unfolding bucket_def using wf_index_distinct [OF assms] by (rule distinct_map_filter)
  then have "length (bucket (a_index A) a) = card (snd ` set (bucket (a_index A) a))"
    by (metis distinct_card length_map set_map)
  also have "snd ` set (bucket (a_index A) a) = id_matches A a"
    unfolding set_bucket [OF assms] by force
  finally show ?thesis .
qed

lemma hash_range_wf:
  assumes "archive_wf E A"
  shows "hash_range (a_index A) a = None \<longleftrightarrow> id_matches A a = {}"
    "hash_range (a_index A) a = Some (s, e) \<Longrightarrow>
       s < e \<and> e \<le> length (a_index A) \<and> take (e - s) (drop s (a_index A)) = bucket (a_index A) a
       \<and> e - s = card (id_matches A a) \<and> a_index A ! s \<in> set (bucket (a_index A) a)"
proof -
  note hr = hash_range_bucket [OF wf_sorted [OF assms], folded bucket_def]
  show "hash_range (a_index A) a = None \<longleftrightarrow> id_matches A a = {}"
    unfolding hr(1) using set_bucket [OF assms, of a] by (metis image_is_empty set_empty)
  assume "hash_range (a_index A) a = Some (s, e)"
  note r = hr(2) [OF this]
  have pos: "0 < e - s" "e \<le> length (a_index A)" "s < length (a_index A)" using r by linarith+
  then have "a_index A ! s = take (e - s) (drop s (a_index A)) ! 0" "0 < length (take (e - s) (drop s (a_index A)))"
    by (simp_all only: nth_take nth_drop length_take length_drop) simp_all
  then have "a_index A ! s \<in> set (bucket (a_index A) a)" using r by (metis nth_mem)
  then show "s < e \<and> e \<le> length (a_index A) \<and> take (e - s) (drop s (a_index A)) = bucket (a_index A) a
       \<and> e - s = card (id_matches A a) \<and> a_index A ! s \<in> set (bucket (a_index A) a)"
    using r length_bucket [OF assms, of a] by metis
qed

text \<open>Lookup by identifier: the only match, or the reason there is none.\<close>

lemma find_by_id_cases:
  assumes "archive_wf E A"
  shows "find_entry_index_by_id A a =
    (if id_matches A a = {} then Err (NotFound (hash_label (asset_id_get a)))
     else if card (id_matches A a) \<noteq> 1 then Err (HashCollision (asset_id_get a))
     else Ok (the_elem (id_matches A a)))"
proof (cases "hash_range (a_index A) a")
  case None
  moreover from None have "id_matches A a = {}" using hash_range_wf(1) [OF assms] by blast
  ultimately show ?thesis by (simp add: find_entry_index_by_id_def)
next
  case (Some se)
  obtain s e where se: "se = (s, e)" by fastforce
  note r = hash_range_wf(2) [OF assms Some [unfolded se]]
  have ne: "id_matches A a \<noteq> {}" using Some hash_range_wf(1) [OF assms] by (metis option.distinct(1))
  have "snd (a_index A ! s) \<in> id_matches A a"
    using r set_bucket [OF assms] by auto
  then have "card (id_matches A a) = 1 \<Longrightarrow> snd (a_index A ! s) = the_elem (id_matches A a)"
    by (auto simp: card_1_singleton_iff)
  then show ?thesis
    using Some se r ne by (auto simp: find_entry_index_by_id_def index_at_def)
qed

text \<open>
  Lookup by path: in a production archive the only entry with that hash, otherwise the only
  entry with that path.
\<close>

definition path_matches :: "env \<Rightarrow> archive \<Rightarrow> bytes \<Rightarrow> nat \<Rightarrow> bool" where
  "path_matches E A normalized i \<longleftrightarrow> i < length (a_entries A)
   \<and> (if a_paths_stripped A then en_path_hash (a_entries A ! i) = checksum E normalized
      else en_path (a_entries A ! i) = normalized)"

lemma path_matches_id: "archive_wf E A \<Longrightarrow> path_matches E A n i \<Longrightarrow> i \<in> id_matches A (AssetId (checksum E n))"
  by (auto simp: path_matches_def id_matches_def archive_wf_def entry_names_ok_def all_set_conv_all_nth
      split: if_splits)

lemma path_matches_unique:
  assumes "archive_wf E A" "path_matches E A n i" "path_matches E A n j"
  shows "i = j"
proof -
  let ?a = "AssetId (checksum E n)" let ?b = "bucket (a_index A) ?a"
  have m: "(?a, i) \<in> set ?b" "(?a, j) \<in> set ?b"
    using assms path_matches_id set_bucket [OF assms(1)] by auto
  then have "?a \<in> fst ` set (a_index A)" by (force simp: bucket_def)
  then have ok: "bucket_ok (a_entries A) (a_paths_stripped A) ?b"
    using assms(1) by (auto simp: archive_wf_def index_ok_def)
  show ?thesis
  proof (cases "a_paths_stripped A")
    case True
    with ok obtain r where "?b = [r]" by (auto simp: bucket_ok_def length_Suc_conv)
    with m show ?thesis by auto
  next
    case False
    have "inj_on (\<lambda>r. en_path (a_entries A ! snd r)) (set ?b)"
      using ok by (simp add: bucket_ok_def distinct_map)
    then show ?thesis
      using inj_onD [OF _ _ m, of "\<lambda>r. en_path (a_entries A ! snd r)"] False assms(2,3)
      by (simp add: path_matches_def)
  qed
qed

lemma find_normalized_cases:
  assumes "archive_wf E A"
  shows "find_entry_index_normalized E A n =
    (if \<exists>i. path_matches E A n i then Ok (THE i. path_matches E A n i) else Err (NotFound n))"
proof -
  let ?a = "AssetId (checksum E n)" let ?b = "bucket (a_index A) ?a"
  have hit: "(\<exists>i. path_matches E A n i) \<Longrightarrow> id_matches A ?a \<noteq> {}"
    using path_matches_id [OF assms] by blast
  have the: "path_matches E A n i \<Longrightarrow> (THE i. path_matches E A n i) = i" for i
    using path_matches_unique [OF assms] by blast
  show ?thesis
  proof (cases "hash_range (a_index A) ?a")
    case None
    then show ?thesis
      using hit hash_range_wf(1) [OF assms, of ?a]
      by (auto simp: find_entry_index_normalized_def asset_id_from_raw_def)
  next
    case (Some se)
    obtain s e where se: "se = (s, e)" by fastforce
    note r = hash_range_wf(2) [OF assms Some [unfolded se]]
    show ?thesis
    proof (cases "a_paths_stripped A")
      case True
      have "path_matches E A n (snd (a_index A ! s))"
        using r True set_bucket [OF assms] by (auto simp: path_matches_def id_matches_def)
      moreover have "find_entry_index_normalized E A n = Ok (snd (a_index A ! s))"
        using Some se r True by (simp add: find_entry_index_normalized_def asset_id_from_raw_def index_at_def Let_def)
      ultimately show ?thesis using the by auto
    next
      case False
      have lt: "\<forall>r \<in> set ?b. snd r < length (a_entries A)"
        using wf_index_less [OF assms] by (auto simp: bucket_def)
      have eq: "find_entry_index_normalized E A n =
          ok_or (map_option snd (List.find (\<lambda>r. en_path (a_entries A ! snd r) = n) ?b)) (NotFound n)"
      proof -
        have "slice_range (a_index A) s e = (Ok ?b :: (id_index, error) res)" using r by (metis slice_range_Ok less_imp_le)
        then show ?thesis
          using Some se False find_path_eq [OF lt]
          by (simp add: find_entry_index_normalized_def asset_id_from_raw_def Let_def)
      qed
      show ?thesis
      proof (cases "List.find (\<lambda>r. en_path (a_entries A ! snd r) = n) ?b")
        case None
        have "\<not> path_matches E A n i" for i
        proof
          assume pm: "path_matches E A n i"
          then have "(?a, i) \<in> set ?b"
            using path_matches_id [OF assms] set_bucket [OF assms] by auto
          with None pm False show False by (auto simp: find_None_iff path_matches_def)
        qed
        with None eq show ?thesis by simp
      next
        case (Some q)
        then have "path_matches E A n (snd q)"
          using lt False by (auto simp: find_Some_iff path_matches_def)
        with Some eq the show ?thesis by auto
      qed
    qed
  qed
qed

lemma find_normalized_Ok:
  assumes "archive_wf E A"
  shows "find_entry_index_normalized E A n = Ok i \<longleftrightarrow> path_matches E A n i"
proof -
  have "path_matches E A n j \<Longrightarrow> (THE i. path_matches E A n i) = j" for j
    using path_matches_unique [OF assms] by blast
  then show ?thesis by (auto simp: find_normalized_cases [OF assms])
qed

lemma find_no_panic:
  "archive_wf E A \<Longrightarrow> find_entry_index_normalized E A n \<noteq> Panic"
  "archive_wf E A \<Longrightarrow> find_entry_index_by_id A a \<noteq> Panic"
  by (simp_all add: find_normalized_cases find_by_id_cases)

lemma find_in_range:
  assumes "archive_wf E A"
  shows "find_entry_index_normalized E A n = Ok i \<Longrightarrow> i < length (a_entries A)"
    "find_entry_index_by_id A a = Ok j \<Longrightarrow> j < length (a_entries A)"
proof -
  show "find_entry_index_normalized E A n = Ok i \<Longrightarrow> i < length (a_entries A)"
    by (simp add: find_normalized_Ok [OF assms] path_matches_def)
  assume "find_entry_index_by_id A a = Ok j"
  then have "card (id_matches A a) = 1" "j = the_elem (id_matches A a)"
    by (simp_all add: find_by_id_cases [OF assms] split: if_splits)
  then have "id_matches A a = {j}" by (metis card_1_singletonE the_elem_eq)
  then show "j < length (a_entries A)" by (auto simp: id_matches_def)
qed

section \<open>Reading chunks\<close>

lemma resize_buffer_cases:
  "resize_buffer E len what b =
     (if alloc_ok E what (len - length b) then (Ok (), resize b len) else (Err (TooLarge what), b))"
  by (simp add: resize_buffer_def)

lemma chunk_at_Ok [res_simps]:
  "chunk_at E A g = Ok c \<longleftrightarrow> unat g \<le> usize_max E \<and> unat g < length (a_chunks A) \<and> c = a_chunks A ! unat g"
  by (auto simp: chunk_at_def res_simps arith_simps)

lemma reader_helpers_no_panic [no_panic]:
  "ensure_chunk_operation_limit A n \<noteq> Panic" "chunk_at E A g \<noteq> Panic" "allocate E len what \<noteq> Panic"
  "chunk_in_entry e i \<noteq> Panic"
  unfolding ensure_chunk_operation_limit_def chunk_at_def allocate_def chunk_in_entry_def by (intro no_panic)+

lemma allocate_Ok [res_simps]: "allocate E len what = Ok b \<longleftrightarrow> alloc_ok E what len \<and> b = replicate len 0"
  by (auto simp: allocate_def res_simps)

lemma ensure_chunk_operation_limit_Ok [res_simps]:
  "ensure_chunk_operation_limit A n = Ok u \<longleftrightarrow> n \<le> a_max_chunks_per_operation A"
  by (simp add: ensure_chunk_operation_limit_def res_simps)

text \<open>
  A chunk read keeps the length of the destination whatever happens, and a successful one
  leaves bytes with the checksum of the chunk table.
\<close>

lemma wp_read_stored_into:
  assumes "env_safe E" "source_safe (a_source A)"
  shows "wp_st (read_stored_into E A g c) (\<lambda>_ (d, t). length d = length dst) (\<lambda>(d, t). length d = length dst)
           (dst, stored)"
proof -
  have fin: "wp_st (unpack_into E c plain)
      (\<lambda>_ (d, t). length d = length dst) (\<lambda>(d, t). length d = length dst) (dst, t)" for plain t
    using decompress_into_exact_no_panic [of E plain "''decompressed chunk size mismatch''" dst]
      decompress_into_exact_length [OF assms(1), of plain "''decompressed chunk size mismatch''" dst]
    by (auto simp: unpack_into_def wp_prod split: prod.splits res.splits)
  have dec: "plain_of_stored E A g n t \<noteq> Panic" if "n \<le> length t" for t n
    unfolding plain_of_stored_def using that by (intro no_panic)
  have rd: "wp_st (fill_stored A c n) Q (\<lambda>(d, t). length d = length dst) (dst, t)"
    if "length t = n" "\<And>t'. length t' = n \<Longrightarrow> Q () (dst, t')" for t n Q
    using that source_safeD(2) [OF assms(2), of "c_offset c" t] source_safe_length [OF assms(2)]
    by (auto simp: fill_stored_def wp_prod slice_to_def from_io_def split: prod.splits res.splits)
      (metis map_err_no_panic)
  show ?thesis
    unfolding read_stored_into_def
    by (intro wp_bind wp_lift no_panic)
      (auto simp: wp_prod resize_buffer_cases intro!: wp_bind rd, use dec fin in \<open>auto split: res.split\<close>)
qed

lemma wp_read_chunk:
  assumes "env_safe E" "source_safe (a_source A)"
  shows "wp_st (read_chunk_by_index_into E A label l g)
     (\<lambda>_ (d, t). length d = length dst \<and> unat g < length (a_chunks A)
        \<and> length d = unat (c_original_size (a_chunks A ! unat g))
        \<and> checksum E d = c_checksum (a_chunks A ! unat g))
     (\<lambda>(d, t). length d = length dst) (dst, stored)"
proof -
  have raw: "wp_st (\<lambda>(dst, stored). case src_read_exact_at (a_source A) off dst of
                      (r, dst') \<Rightarrow> (from_io r, dst', stored))
      (\<lambda>_ (d, t). length d = length dst) (\<lambda>(d, t). length d = length dst) (dst, stored)" for off
    using source_safeD(2) [OF assms(2), of off dst] source_safe_length [OF assms(2), of off dst]
    by (auto simp: wp_prod from_io_def split: prod.splits res.splits) (metis map_err_no_panic)
  have body: "wp_st (read_payload_into E A g c)
      (\<lambda>_ (d, t). length d = length dst) (\<lambda>(d, t). length d = length dst) (dst, stored)" for c
    using raw wp_read_stored_into [OF assms] by (simp add: read_payload_into_def)
  show ?thesis
    unfolding read_chunk_by_index_into_def
    by (intro wp_bind wp_lift no_panic)
      (auto simp: wp_prod ensure_def res_simps arith_simps intro!: wp_bind wp_conseq [OF body])
qed

text \<open>The loop over an entry's chunks.\<close>

lemma wp_read_entry_chunks:
  assumes "env_safe E" "source_safe (a_source A)"
  shows "wp_st (read_entry_chunks E A e label ls w) (\<lambda>_ (d, t). length d = length dst)
           (\<lambda>(d, t). length d = length dst) (dst, stored)"
proof (induction ls arbitrary: w dst stored)
  case Nil
  then show ?case by (simp add: wp_st_def lift_st_def)
next
  case (Cons l ls)
  have step: "wp_st (read_chunk_slice E A label l g w en)
      (\<lambda>_ (d, t). length d = length dst) (\<lambda>(d, t). length d = length dst) (dst, stored)" for g en
  proof (cases "get_range dst w en")
    case None
    then show ?thesis by (simp add: read_chunk_slice_def wp_prod)
  next
    case (Some cd)
    then have "length cd = en - w" "w \<le> en" "en \<le> length dst" by (auto simp: get_range_Some)
    then show ?thesis
      using wp_read_chunk [OF assms, of label l g cd stored] Some
      by (auto simp: read_chunk_slice_def wp_prod wp_st_def split: prod.splits res.splits)
  qed
  have rest: "length d = length dst \<Longrightarrow> wp_st (read_entry_chunks E A e label ls w')
      (\<lambda>_ (d, t). length d = length dst) (\<lambda>(d, t). length d = length dst) (d, t)" for w' d t
    using Cons.IH [of w' d t] by simp
  show ?case
    unfolding read_entry_chunks.simps
    by (intro wp_bind wp_lift no_panic) (auto intro!: wp_conseq [OF step] rest)
qed

lemma wp_read_entry_into:
  assumes "env_safe E" "source_safe (a_source A)"
  shows "wp_st (read_entry_into E A idx label) (\<lambda>_ (d, t). length d = length dst)
           (\<lambda>(d, t). length d = length dst) (dst, scratch)"
proof -
  have "wp_st (read_entry_stored E A idx label (length dst)) (\<lambda>_ (d, t). length d = length dst) (\<lambda>(d, t). length d = length dst) (dst, s_stored scratch)"
    unfolding read_entry_stored_def
    by (intro wp_bind wp_lift no_panic)
      (auto intro!: wp_bind wp_conseq [OF wp_read_entry_chunks [OF assms]] wp_lift no_panic)
  then show ?thesis
    by (auto simp: read_entry_into_def wp_st_def split: prod.splits res.splits)
qed

section \<open>Reading ranges\<close>

lemma unat_min_max_u64 [simp]:
  "unat (min_u64 a b) = min (unat a) (unat b)" "unat (max_u64 a b) = max (unat a) (unat b)"
  by (auto simp: min_u64_def max_u64_def word_less_nat_alt)

lemma u64_to_u32_Some [arith_simps]: "u64_to_u32 v = Some w \<longleftrightarrow> unat v < 2 ^ 32 \<and> unat w = unat v"
  by (auto simp: u64_to_u32_def word_unat_eq_iff unsigned_ucast_eq take_bit_nat_eq_self)

lemma wf_chunk_size:
  assumes "archive_wf E A"
  shows "(ucast (a_chunk_size A) :: u64) \<noteq> 0" "0 < unat (a_chunk_size A)"
proof -
  show pos: "0 < unat (a_chunk_size A)" using assms by (simp add: archive_wf_def)
  have "unat (ucast (a_chunk_size A) :: u64) = unat (a_chunk_size A)" by simp
  with pos show "(ucast (a_chunk_size A) :: u64) \<noteq> 0" by (metis neq0_conv unat_eq_zero)
qed

lemma range_chunk_count_no_panic:
  assumes "archive_wf E A" "0 < n"
  shows "range_chunk_count A offset n \<noteq> Panic"
  unfolding range_chunk_count_def using assms
  by (intro no_panic wf_chunk_size(1) [OF assms(1)]) (auto simp: res_simps arith_simps)

lemma range_len_no_panic [no_panic]:
  assumes "archive_wf E A" "idx < length (a_entries A)"
  shows "range_len E A idx offset len exact \<noteq> Panic"
  unfolding range_len_def using assms(2)
  by (intro no_panic range_chunk_count_no_panic [OF assms(1)])
    (auto simp: res_simps arith_simps word_less_nat_alt word_unat_eq_iff)

lemma range_slice_no_panic:
  "unat l * unat cs \<le> unat en \<Longrightarrow> range_slice E cs offset en l sz \<noteq> Panic"
  unfolding range_slice_def by (intro no_panic) (auto simp: res_simps arith_simps)

lemma wp_read_decoded:
  assumes "env_safe E" "source_safe (a_source A)"
  shows "wp_st (read_decoded E A label l g) (\<lambda>_ _. True) (\<lambda>_. True) scratch"
  using wp_read_chunk [OF assms, of label l g "s_decoded scratch" "s_stored scratch"]
  by (auto simp: read_decoded_def wp_st_def split: prod.splits res.splits)

lemma wp_read_range_chunks:
  assumes "env_safe E" "source_safe (a_source A)"
    "\<forall>l \<in> set ls. unat l * unat (a_chunk_size A) \<le> unat en"
  shows "wp_st (read_range_chunks E A e label offset en ls w) (\<lambda>_ (d, t). length d = length dst)
           (\<lambda>(d, t). length d = length dst) (dst, scratch)"
  using assms(3)
proof (induction ls arbitrary: w dst scratch)
  case Nil
  then show ?case by (simp add: wp_st_def lift_st_def)
next
  case (Cons l ls)
  have rd: "wp_st (on_snd (read_decoded E A label l g))
      (\<lambda>_ (d, t). length d = length dst) (\<lambda>(d, t). length d = length dst) (dst, scratch)" for g scratch
    using wp_read_decoded [OF assms(1,2), of label l g scratch]
    by (auto simp: on_snd_def wp_prod wp_st_def split: prod.splits res.splits)
  have rz: "wp_st (on_snd (resize_decoded E n)) Q (\<lambda>(d, t). length d = length dst) (dst, scratch)"
    if "\<And>scratch'. Q () (dst, scratch')" for n scratch Q
    using that by (auto simp: on_snd_def resize_decoded_def resize_buffer_cases wp_prod)
  have cp: "wp_st (copy_decoded w we ts te)
      (\<lambda>_ (d, t). length d = length dst) (\<lambda>(d, t). length d = length dst) (d, scratch)"
    if "we = w + (te - ts)" "length d = length dst" for we ts te scratch d
    using that by (auto simp: copy_decoded_def wp_prod get_range_Some split: option.splits)
  have rest: "length d = length dst \<Longrightarrow> wp_st (read_range_chunks E A e label offset en ls w')
      (\<lambda>_ (d, t). length d = length dst) (\<lambda>(d, t). length d = length dst) (d, t)" for w' d t
    using Cons.IH [of w' d t] Cons.prems by simp
  have rs: "range_slice E (ucast (a_chunk_size A)) offset en l sz \<noteq> Panic" for sz
    using Cons.prems by (intro range_slice_no_panic) simp
  show ?case
    unfolding read_range_chunks.simps
    by (intro wp_bind wp_lift no_panic)
      (auto intro!: rz wp_bind wp_conseq [OF rd] wp_lift rs no_panic wp_conseq [OF cp] rest, auto simp: res_simps arith_simps split: if_splits)
qed

lemma wp_read_range_index_into:
  assumes "env_safe E" "source_safe (a_source A)" "archive_wf E A" "idx < length (a_entries A)"
  shows "wp_st (read_range_index_into E A idx label offset) (\<lambda>_ (d, t). length d = length dst)
           (\<lambda>(d, t). length d = length dst) (dst, scratch)"
proof (cases "dst = []")
  case True
  then show ?thesis by (simp add: read_range_index_into_def wp_prod)
next
  case False
  have below: "\<forall>l \<in> set (u32_range a (Suc (unat lst))). unat l * unat (a_chunk_size A) \<le> unat en"
    if "unat lst = unat (en1 :: u64) div unat (a_chunk_size A)" "unat en1 = unat en - 1" for a and lst :: u32 and en en1 :: u64
  proof
    fix l assume "l \<in> set (u32_range a (Suc (unat lst)))"
    then have "unat l \<le> unat lst"
      using unat_bounds(2) [of lst] by (auto simp: u32_range_def unat_of_nat)
    then have "unat l * unat (a_chunk_size A) \<le> unat en1 div unat (a_chunk_size A) * unat (a_chunk_size A)"
      using that(1) by simp
    also have "\<dots> \<le> unat en1" by simp
    finally show "unat l * unat (a_chunk_size A) \<le> unat en" using that(2) by simp
  qed
  have pos: "Suc 0 \<le> n + length dst" for n using False by (cases dst) auto
  have "wp_st (read_range_nonempty E A idx label offset (length dst)) (\<lambda>_ (d, t). length d = length dst)
           (\<lambda>(d, t). length d = length dst) (dst, scratch)"
    unfolding read_range_nonempty_def
    using False assms(4)
    by (intro wp_bind wp_lift no_panic wf_chunk_size(1) [OF assms(3)]
          wp_conseq [OF wp_read_range_chunks [OF assms(1,2) below]])
      (auto simp: res_simps arith_simps pos)
  then show ?thesis
    using False by (simp add: read_range_index_into_def wp_st_def)
qed

section \<open>No operation panics\<close>

lemma into_vec_no_panic [no_panic]: "fst (m (out, s)) \<noteq> Panic \<Longrightarrow> into_vec m out s \<noteq> Panic"
  by (auto simp: into_vec_def bind_res_Panic split: prod.splits)

lemmas reading_no_panic =
  wp_no_panic [OF wp_read_chunk] wp_no_panic [OF wp_read_entry_into] wp_no_panic [OF wp_read_range_index_into]

lemma lookups_no_panic:
  assumes "archive_wf E A"
  shows "entry_of_path E A path \<noteq> Panic" "entry_by_id A a \<noteq> Panic" "try_contains E A path \<noteq> Panic"
    "contains E A path \<noteq> Panic"
proof -
  have norm: "normalize_lookup_path E path \<noteq> Panic"
    unfolding normalize_lookup_path_def by (intro no_panic)
  show "entry_of_path E A path \<noteq> Panic" "entry_by_id A a \<noteq> Panic"
    unfolding entry_of_path_def entry_by_id_def
    by (intro no_panic norm assms find_no_panic [OF assms] find_in_range [OF assms]; assumption)+
  have "(case find_entry_index_normalized E A n of Ok _ \<Rightarrow> Ok True
       | Err e \<Rightarrow> (case e of NotFound _ \<Rightarrow> Ok False | _ \<Rightarrow> Err e) | Panic \<Rightarrow> Panic) \<noteq> Panic" for n
    using find_no_panic(1) [OF assms, of n] by (auto split: res.splits error.splits)
  then show "try_contains E A path \<noteq> Panic"
    unfolding try_contains_def by (intro no_panic norm)
  then show "contains E A path \<noteq> Panic"
    by (auto simp: contains_def split: res.splits)
qed

lemma reads_no_panic:
  assumes "env_safe E" "source_safe (a_source A)" "archive_wf E A"
  shows "read E A path \<noteq> Panic" "read_by_id E A a \<noteq> Panic" "read_chunk E A path i \<noteq> Panic"
    "read_range_gen E A path offset len exact \<noteq> Panic"
proof -
  have norm: "normalize_lookup_path E path \<noteq> Panic"
    unfolding normalize_lookup_path_def by (intro no_panic)
  show "read E A path \<noteq> Panic"
    unfolding read_def
    by (intro no_panic norm reading_no_panic assms find_no_panic [OF assms(3)] find_in_range [OF assms(3)]; assumption)
  show "read_by_id E A a \<noteq> Panic"
    unfolding read_by_id_def
    by (intro no_panic norm reading_no_panic assms find_no_panic [OF assms(3)] find_in_range [OF assms(3)]; assumption)
  show "read_chunk E A path i \<noteq> Panic"
    unfolding read_chunk_def
    by (intro no_panic norm reading_no_panic assms find_no_panic [OF assms(3)] find_in_range [OF assms(3)]; assumption)
  show "read_range_gen E A path offset len exact \<noteq> Panic"
    unfolding read_range_gen_def
    by (intro no_panic norm reading_no_panic assms find_no_panic [OF assms(3)] find_in_range [OF assms(3)]; assumption)
qed

text \<open>
  The operations on caller buffers: they do not panic, and whether they succeed or fail the
  buffer keeps its length.
\<close>

lemma wp_read_into_with_scratch:
  assumes "env_safe E" "source_safe (a_source A)" "archive_wf E A"
  shows "wp_st (read_into_with_scratch E A path) (\<lambda>_ (d, t). length d = length dst)
           (\<lambda>(d, t). length d = length dst) (dst, scratch)"
  unfolding read_into_with_scratch_def normalize_lookup_path_def
  by (intro wp_bind wp_lift no_panic find_no_panic [OF assms(3)] wp_read_entry_into [OF assms(1,2)]) auto

lemma wp_read_chunk_into_with_scratch:
  assumes "env_safe E" "source_safe (a_source A)" "archive_wf E A"
  shows "wp_st (read_chunk_into_with_scratch E A path i) (\<lambda>_ (d, t). length d = length dst)
           (\<lambda>(d, t). length d = length dst) (dst, scratch)"
proof -
  have rd: "wp_st (\<lambda>(dst, scratch). case read_chunk_by_index_into E A label i g (dst, s_stored scratch) of
          (r, dst', stored') \<Rightarrow> (r, dst', scratch\<lparr> s_stored := stored' \<rparr>))
      (\<lambda>_ (d, t). length d = length dst) (\<lambda>(d, t). length d = length dst) (dst, scratch)" for label g
    using wp_read_chunk [OF assms(1,2), of label i g dst "s_stored scratch"]
    by (auto simp: wp_prod wp_st_def split: prod.splits res.splits)
  show ?thesis
    unfolding read_chunk_into_with_scratch_def normalize_lookup_path_def
    by (intro wp_bind wp_lift no_panic find_no_panic [OF assms(3)] find_in_range [OF assms(3)] rd) auto
qed

lemma range_len_le:
  assumes "range_len E A idx offset len exact = Ok n"
  shows "n \<le> len" "unat offset + n \<le> unat (en_original_size (a_entries A ! idx))"
proof -
  have "n \<le> len \<and> unat offset + n \<le> unat (en_original_size (a_entries A ! idx))"
    using assms unfolding range_len_def Let_def
    by (auto simp: res_simps arith_simps word_less_nat_alt not_less split: if_splits)
  then show "n \<le> len" "unat offset + n \<le> unat (en_original_size (a_entries A ! idx))" by auto
qed

lemma wp_read_range_with_scratch:
  assumes "env_safe E" "source_safe (a_source A)" "archive_wf E A"
  shows "wp_st (read_range_with_scratch E A path offset) (\<lambda>n (d, t). length d = length dst \<and> n \<le> length dst)
           (\<lambda>(d, t). length d = length dst) (dst, scratch)"
proof -
  have rd: "wp_st (\<lambda>(dst, scratch). case slice_to dst n of
                 Ok part \<Rightarrow>
                   (case read_range_index_into E A idx label offset (part, scratch) of
                      (r, part', scratch') \<Rightarrow> (r, put_range dst 0 part', scratch'))
               | Err e \<Rightarrow> (Err e, dst, scratch)
               | Panic \<Rightarrow> (Panic, dst, scratch))
      (\<lambda>_ (d, t). length d = length dst) (\<lambda>(d, t). length d = length dst) (dst, scratch)"
    if "idx < length (a_entries A)" "n \<le> length dst" for idx label n
    using wp_read_range_index_into [OF assms that(1), of label offset "take n dst" scratch] that(2)
    by (auto simp: wp_prod slice_to_def wp_st_def split: prod.splits res.splits)
  have "wp_st (bind_st (lift_st (normalize_lookup_path E path)) (\<lambda>normalized.
      bind_st (lift_st (find_entry_index_normalized E A normalized)) (\<lambda>idx.
      bind_st (lift_st (range_len E A idx offset (length dst) False)) (\<lambda>actual_len.
      bind_st (\<lambda>(dst, scratch). case slice_to dst actual_len of
                 Ok part \<Rightarrow>
                   (case read_range_index_into E A idx (LabelPath normalized) offset (part, scratch) of
                      (r, part', scratch') \<Rightarrow> (r, put_range dst 0 part', scratch'))
               | Err e \<Rightarrow> (Err e, dst, scratch)
               | Panic \<Rightarrow> (Panic, dst, scratch)) (\<lambda>_.
        lift_st (Ok actual_len))))))
      (\<lambda>n (d, t). length d = length dst \<and> n \<le> length dst) (\<lambda>(d, t). length d = length dst) (dst, scratch)"
    unfolding normalize_lookup_path_def
    by (intro wp_bind wp_lift no_panic find_no_panic [OF assms(3)] find_in_range [OF assms(3)] assms(3)
        wp_conseq [OF rd]) (auto dest: range_len_le(1) intro!: wp_lift)
  then show ?thesis
    by (simp add: read_range_with_scratch_def wp_st_def)
qed

lemma verify_no_panic:
  assumes "env_safe E" "source_safe (a_source A)"
  shows "verify E A \<noteq> Panic"
proof -
  have rb: "wp_st (resize_decoded E n) (\<lambda>_ _. True) (\<lambda>_. True) s" for n s
    by (auto simp: wp_st_def resize_decoded_def resize_buffer_cases)
  have cs: "wp_st (verify_chunks E A e label ls) (\<lambda>_ _. True) (\<lambda>_. True) s" for e label ls s
  proof (induction ls arbitrary: s)
    case Nil
    then show ?case by (simp add: wp_st_def lift_st_def)
  next
    case (Cons l ls)
    show ?case
      unfolding verify_chunks.simps
      by (intro wp_bind wp_lift no_panic wp_conseq [OF rb] wp_conseq [OF wp_read_decoded [OF assms]]) (auto intro: Cons)
  qed
  have "wp_st (verify_entries E A es) (\<lambda>_ _. True) (\<lambda>_. True) s" for es s
  proof (induction es arbitrary: s)
    case Nil
    then show ?case by (simp add: wp_st_def lift_st_def)
  next
    case (Cons e es)
    show ?case
      unfolding verify_entries.simps Let_def by (intro wp_bind wp_conseq [OF cs]) (auto intro: Cons)
  qed
  from wp_no_panic [OF this] show ?thesis
    unfolding verify_def by (intro no_panic)
qed

end
