(* ===== verification/Reader_Correct.thy ===== *)
theory Reader_Correct
  imports Reader_Safety
begin

text \<open>
  Functional correctness of reading.  A chunk of an open archive has one content that every
  successful read of it delivers, whatever the buffers held before; an entry is the
  concatenation of its chunks; every range read is a slice of the whole entry.
\<close>

section \<open>The content of a chunk\<close>

text \<open>
  The reader's surroundings behave as documented: no allocation fails, decompression and
  the source are functions of what they read.
\<close>

definition reader_pure :: "env \<Rightarrow> archive \<Rightarrow> bool" where
  "reader_pure E A \<longleftrightarrow> env_safe E \<and> lz4_pure E \<and> alloc_total E \<and> source_safe (a_source A)
     \<and> source_stable (a_source A)"

lemma decompress_pure:
  assumes "lz4_pure E" "decompress_into_exact E plain msg dst = (Ok (), d)" "length dst' = length dst"
    "env_safe E"
  shows "decompress_into_exact E plain msg dst' = (Ok (), d)"
proof -
  from assms(2) have l: "lz4_decompress_into E plain dst = (Inr (length d), d)"
    by (auto simp: decompress_into_exact_def split: prod.splits sum.splits if_splits)
  moreover from l have "length d = length dst"
    using env_safe_decompress(1) [OF assms(4)] by blast
  ultimately have "lz4_decompress_into E plain dst' = (Inr (length d), d)"
    using assms(1,3) unfolding lz4_pure_def by metis
  then show ?thesis by (simp add: decompress_into_exact_def)
qed

lemma put_range_all: "length part' = length t \<Longrightarrow> put_range t 0 part' = part'"
  by (simp add: put_range_def)

lemma fill_stored_Ok:
  assumes "source_safe (a_source A)" "length u = n"
  shows "fill_stored A c n (dst, u) = (Ok x, s) \<longleftrightarrow>
    (\<exists>u'. s = (dst, u') \<and> length u' = n \<and> src_read_exact_at (a_source A) (c_offset c) u = (Ok (), u'))"
  using assms(2) source_safe_length [OF assms(1), of "c_offset c" u]
  by (auto simp: fill_stored_def slice_to_def res_simps put_range_all split: prod.splits)

lemma plain_of_stored_Ok:
  "length u = n \<Longrightarrow> plain_of_stored E A g n u = Ok plain \<longleftrightarrow>
     (case a_aead_key A of None \<Rightarrow> plain = u | Some k \<Rightarrow> decrypt E u k (chunk_aad g) = Ok plain)"
  by (auto simp: plain_of_stored_def slice_to_def split: option.splits)

lemma unpack_into_Ok:
  "unpack_into E c plain (dst, u) = (Ok x, d, t) \<longleftrightarrow> t = u \<and>
     (if c_compressed c
      then decompress_into_exact E plain ''decompressed chunk size mismatch'' dst = (Ok (), d)
      else length plain = length dst \<and> d = plain)"
  by (auto simp: unpack_into_def split: prod.splits)

lemma read_stored_into_Ok:
  assumes "alloc_total E" "source_safe (a_source A)"
  shows "read_stored_into E A g c (dst, t) = (Ok x, d, t') \<longleftrightarrow>
    unat (c_stored_size c) \<le> usize_max E
  \<and> src_read_exact_at (a_source A) (c_offset c) (resize t (unat (c_stored_size c))) = (Ok (), t')
  \<and> (\<exists>plain. (case a_aead_key A of None \<Rightarrow> plain = t' | Some k \<Rightarrow> decrypt E t' k (chunk_aad g) = Ok plain)
       \<and> (if c_compressed c
          then decompress_into_exact E plain ''decompressed chunk size mismatch'' dst = (Ok (), d)
          else length plain = length dst \<and> d = plain))"
proof -
  have len: "src_read_exact_at (a_source A) (c_offset c) (resize t n) = (Ok (), u) \<Longrightarrow> length u = n" for n u
    using source_safe_length [OF assms(2)] by fastforce
  show ?thesis
  proof (cases "src_read_exact_at (a_source A) (c_offset c) (resize t (unat (c_stored_size c))) = (Ok (), t')")
    case True
    note l = len [OF True]
    show ?thesis
      unfolding read_stored_into_def bind_st_Ok lift_st_Ok u64_to_usize_Ok
      by (auto simp: resize_buffer_cases assms fill_stored_Ok [OF assms(2)] plain_of_stored_Ok [OF l] unpack_into_Ok
          True l)
  next
    case False
    then show ?thesis
      unfolding read_stored_into_def bind_st_Ok lift_st_Ok u64_to_usize_Ok
      by (auto simp: resize_buffer_cases assms fill_stored_Ok [OF assms(2)] unpack_into_Ok)
  qed
qed

text \<open>A successful chunk read does not depend on the buffers or on the label.\<close>

lemma read_payload_transfer:
  assumes "reader_pure E A" "read_payload_into E A g c (dst, t) = (Ok x, d, t')" "length dst2 = length dst"
  shows "\<exists>t2'. read_payload_into E A g c (dst2, t2) = (Ok x, d, t2')"
proof -
  have pure: "env_safe E" "lz4_pure E" "alloc_total E" "source_safe (a_source A)" "source_stable (a_source A)"
    using assms(1) by (auto simp: reader_pure_def)
  have again: "src_read_exact_at (a_source A) off u = (Ok (), b) \<Longrightarrow> length u2 = length u \<Longrightarrow>
      src_read_exact_at (a_source A) off u2 = (Ok (), b)" for off u u2 b
    using pure(5) unfolding source_stable_def by blast
  show ?thesis
  proof (cases "a_aead_key A = None \<and> \<not> c_compressed c")
    case True
    then have "src_read_exact_at (a_source A) (c_offset c) dst = (Ok (), d)"
      using assms(2) by (auto simp: read_payload_into_def res_simps split: prod.splits)
    from again [OF this assms(3)] True show ?thesis by (simp add: read_payload_into_def)
  next
    case False
    then have eq: "read_payload_into E A g c = read_stored_into E A g c"
      by (simp only: read_payload_into_def if_False)
    let ?n = "unat (c_stored_size c)"
    from assms(2) [unfolded eq read_stored_into_Ok [OF pure(3,4)]] obtain plain where
      n: "?n \<le> usize_max E" and rd: "src_read_exact_at (a_source A) (c_offset c) (resize t ?n) = (Ok (), t')"
      and pl: "case a_aead_key A of None \<Rightarrow> plain = t' | Some k \<Rightarrow> decrypt E t' k (chunk_aad g) = Ok plain"
      and un: "if c_compressed c
          then decompress_into_exact E plain ''decompressed chunk size mismatch'' dst = (Ok (), d)
          else length plain = length dst \<and> d = plain" by blast
    have "src_read_exact_at (a_source A) (c_offset c) (resize t2 ?n) = (Ok (), t')"
      using again [OF rd, of "resize t2 ?n"] by simp
    moreover have "if c_compressed c
          then decompress_into_exact E plain ''decompressed chunk size mismatch'' dst2 = (Ok (), d)
          else length plain = length dst2 \<and> d = plain"
      using un decompress_pure [OF pure(2) _ assms(3) pure(1), of plain "''decompressed chunk size mismatch''" d]
        assms(3) by (simp split: if_splits)
    ultimately have "read_stored_into E A g c (dst2, t2) = (Ok x, d, t')"
      unfolding read_stored_into_Ok [OF pure(3,4)] using n pl by blast
    then show ?thesis unfolding eq by blast
  qed
qed

definition chunk_reads :: "env \<Rightarrow> archive \<Rightarrow> nat \<Rightarrow> bytes \<Rightarrow> bool" where
  "chunk_reads E A g d \<longleftrightarrow> g < 2 ^ 32
     \<and> (\<exists>t. read_chunk_by_index_into E A (LabelPath []) 0 (of_nat g) (replicate (length d) 0, []) = (Ok (), d, t))"

lemma read_chunk_Ok:
  "read_chunk_by_index_into E A label l g (dst, t) = (Ok x, d, t') \<longleftrightarrow>
     1 \<le> a_max_chunks_per_operation A \<and> unat g < length (a_chunks A) \<and> unat g \<le> usize_max E
   \<and> (let c = a_chunks A ! unat g in length dst = unat (c_original_size c)
      \<and> unat (c_original_size c) \<le> usize_max E
      \<and> read_payload_into E A g c (dst, t) = (Ok (), d, t') \<and> checksum E d = c_checksum c)"
  unfolding read_chunk_by_index_into_def
  by (auto simp: res_simps arith_simps Let_def)

lemma read_chunk_transfer:
  assumes "reader_pure E A" "read_chunk_by_index_into E A label l g (dst, t) = (Ok x, d, t')"
    "length dst2 = length dst"
  shows "\<exists>t2'. read_chunk_by_index_into E A label2 l2 g (dst2, t2) = (Ok y, d, t2')"
  using assms(2,3) read_payload_transfer [OF assms(1) _ assms(3)] unfolding read_chunk_Ok Let_def by metis

lemma read_chunk_reads:
  assumes "reader_pure E A"
  shows "(\<exists>t'. read_chunk_by_index_into E A label l g (dst, t) = (Ok x, d, t')) \<longleftrightarrow>
     length dst = length d \<and> chunk_reads E A (unat g) d"
proof -
  have safe: "env_safe E" "source_safe (a_source A)" using assms by (auto simp: reader_pure_def)
  have len: "read_chunk_by_index_into E A label l g (dst, t) = (Ok x, d, t') \<Longrightarrow> length d = length dst" for t'
    using wp_Ok [OF wp_read_chunk [OF safe]] by fastforce
  show ?thesis
  proof
    assume "\<exists>t'. read_chunk_by_index_into E A label l g (dst, t) = (Ok x, d, t')"
    then obtain t' where r: "read_chunk_by_index_into E A label l g (dst, t) = (Ok x, d, t')" by blast
    from read_chunk_transfer [OF assms r, of "replicate (length d) 0" "LabelPath []" 0 "[]" "()"] len [OF r]
    show "length dst = length d \<and> chunk_reads E A (unat g) d" by (simp add: chunk_reads_def)
  next
    assume "length dst = length d \<and> chunk_reads E A (unat g) d"
    then show "\<exists>t'. read_chunk_by_index_into E A label l g (dst, t) = (Ok x, d, t')"
      using read_chunk_transfer [OF assms, where ?dst2.0 = dst] by (auto simp: chunk_reads_def)
  qed
qed

lemma chunk_reads_facts:
  assumes "reader_pure E A" "chunk_reads E A g d"
  shows "g < length (a_chunks A)" "length d = unat (c_original_size (a_chunks A ! g))"
    "checksum E d = c_checksum (a_chunks A ! g)" "g \<le> usize_max E" "length d \<le> usize_max E"
    "1 \<le> a_max_chunks_per_operation A"
  using assms(2) by (auto simp: chunk_reads_def read_chunk_Ok Let_def unat_of_nat)

lemma chunk_reads_unique:
  assumes "reader_pure E A" "chunk_reads E A g d" "chunk_reads E A g d'"
  shows "d = d'"
  using assms(2,3) chunk_reads_facts(2) [OF assms(1)] unfolding chunk_reads_def by (metis prod.inject)

section \<open>The content of an entry\<close>

definition entry_parts :: "env \<Rightarrow> archive \<Rightarrow> entry \<Rightarrow> bytes list \<Rightarrow> bool" where
  "entry_parts E A e ds \<longleftrightarrow> length ds = unat (en_chunk_count e)
     \<and> (\<forall>i < length ds. chunk_reads E A (unat (en_first_chunk e) + i) (ds ! i))"

definition entry_reads :: "env \<Rightarrow> archive \<Rightarrow> entry \<Rightarrow> bytes \<Rightarrow> bool" where
  "entry_reads E A e data \<longleftrightarrow> (\<exists>ds. entry_parts E A e ds \<and> data = concat ds)"

lemma entry_reads_unique:
  assumes "reader_pure E A" "entry_reads E A e a" "entry_reads E A e b"
  shows "a = b"
proof -
  from assms(2,3) obtain as bs where ab: "entry_parts E A e as" "entry_parts E A e bs"
    "a = concat as" "b = concat bs" by (auto simp: entry_reads_def)
  then have "as = bs"
    unfolding entry_parts_def by (metis nth_equalityI chunk_reads_unique [OF assms(1)])
  with ab show ?thesis by simp
qed

lemma put_range_append:
  "w + length a + length b \<le> length dst \<Longrightarrow>
   put_range (put_range dst w a) (w + length a) b = put_range dst w (a @ b)"
  by (simp add: put_range_def ac_simps)

lemma unat_of_nat_u32: "n < 2 ^ 32 \<Longrightarrow> unat (of_nat n :: u32) = n"
  by (simp add: unat_of_nat)

lemma checked_add_u32: "unat a + n < 2 ^ 32 \<Longrightarrow> checked_add a (of_nat n :: u32) = Some (of_nat (unat a + n))"
  by (auto simp: checked_add_def unat_of_nat)

lemma u32_range_simps:
  "u32_range n n = []" "k < n \<Longrightarrow> u32_range k n = of_nat k # u32_range (Suc k) n"
  by (simp_all add: u32_range_def upt_conv_Cons)

lemma read_chunk_slice_Ok [res_simps]:
  "read_chunk_slice E A label l g w en (dst, t) = (Ok x, s) \<longleftrightarrow>
     (\<exists>cd c0 t1. get_range dst w en = Some cd \<and> read_chunk_by_index_into E A label l g (cd, t) = (Ok x, c0, t1)
        \<and> s = (put_range dst w c0, t1))"
  by (auto simp: read_chunk_slice_def split: option.splits prod.splits)

text \<open>One turn of the loop, and the loop: it reads what the chunks hold, in order.\<close>

lemma read_entry_step:
  assumes "reader_pure E A" "length (a_chunks A) < 2 ^ 32" "k < 2 ^ 32" "length dst \<le> usize_max E"
  shows "read_entry_chunks E A e label (of_nat k # ls) w (dst, t) = (Ok w', d, t') \<longleftrightarrow>
    (\<exists>c0 t1. chunk_reads E A (unat (en_first_chunk e) + k) c0 \<and> w + length c0 \<le> length dst
       \<and> read_chunk_by_index_into E A label (of_nat k) (of_nat (unat (en_first_chunk e) + k))
           (take (length c0) (drop w dst), t) = (Ok (), c0, t1)
       \<and> read_entry_chunks E A e label ls (w + length c0) (put_range dst w c0, t1) = (Ok w', d, t'))"
    (is "?L \<longleftrightarrow> ?R")
proof
  let ?f = "unat (en_first_chunk e)"
  assume ?L
  then obtain g cd c0 t1 where g: "unat g = ?f + k" "?f + k < 2 ^ 32"
    and cd: "get_range dst w (w + unat (c_original_size (a_chunks A ! unat g))) = Some cd"
    and rd: "read_chunk_by_index_into E A label (of_nat k) g (cd, t) = (Ok (), c0, t1)"
    and rest: "read_entry_chunks E A e label ls
        (w + unat (c_original_size (a_chunks A ! unat g))) (put_range dst w c0, t1) = (Ok w', d, t')"
    using assms(3) by (auto simp: res_simps arith_simps unat_of_nat)
  have c0: "length cd = length c0" "chunk_reads E A (?f + k) c0"
    using read_chunk_reads [OF assms(1)] rd g by metis+
  then have "length c0 = unat (c_original_size (a_chunks A ! unat g))"
    using chunk_reads_facts(2) [OF assms(1)] g by metis
  moreover have "g = of_nat (?f + k)" using g(1) by (rule unat_imp_of_nat)
  ultimately show ?R
    using c0 cd rd rest by (auto simp: get_range_Some)
next
  let ?f = "unat (en_first_chunk e)"
  assume ?R
  then obtain c0 t1 where c0: "chunk_reads E A (?f + k) c0" "w + length c0 \<le> length dst"
    and rd: "read_chunk_by_index_into E A label (of_nat k) (of_nat (?f + k))
           (take (length c0) (drop w dst), t) = (Ok (), c0, t1)"
    and rest: "read_entry_chunks E A e label ls (w + length c0) (put_range dst w c0, t1) = (Ok w', d, t')"
    by blast
  note f = chunk_reads_facts [OF assms(1) c0(1)]
  have lt: "?f + k < 2 ^ 32" using f(1) assms(2) by linarith
  have u: "unat (of_nat (?f + k) :: u32) = ?f + k" using lt by (rule unat_of_nat_u32)
  have "checked_add (en_first_chunk e) (of_nat k) = Some (of_nat (?f + k))"
    using lt by (rule checked_add_u32)
  moreover have "chunk_at E A (of_nat (?f + k)) = Ok (a_chunks A ! (?f + k))"
    using f(1,4) u by (simp only: chunk_at_Ok)
  moreover have "u64_to_usize E (c_original_size (a_chunks A ! (?f + k))) ''original chunk size'' = Ok (length c0)"
    using f(2,5) by (simp add: u64_to_usize_def)
  moreover have "usize_add E w (length c0) = Some (w + length c0)"
    using c0(2) assms(4) by (simp add: usize_add_def)
  moreover have "get_range dst w (w + length c0) = Some (take (length c0) (drop w dst))"
    using c0(2) by (simp add: get_range_def)
  ultimately show ?L using rd rest by (auto simp: res_simps)
qed

definition parts_from :: "env \<Rightarrow> archive \<Rightarrow> entry \<Rightarrow> nat \<Rightarrow> bytes list \<Rightarrow> bool" where
  "parts_from E A e k ds \<longleftrightarrow> (\<forall>i < length ds. chunk_reads E A (unat (en_first_chunk e) + (k + i)) (ds ! i))"

lemma parts_from_simps [simp]:
  "parts_from E A e k []"
  "parts_from E A e k (d # ds) \<longleftrightarrow> chunk_reads E A (unat (en_first_chunk e) + k) d \<and> parts_from E A e (Suc k) ds"
  by (auto simp: parts_from_def less_Suc_eq_0_disj nth_Cons split: nat.splits)

lemma entry_parts_from: "entry_parts E A e ds \<longleftrightarrow> length ds = unat (en_chunk_count e) \<and> parts_from E A e 0 ds"
  by (simp add: entry_parts_def parts_from_def)

lemma read_entry_chunks_Ok:
  assumes "reader_pure E A" "length (a_chunks A) < 2 ^ 32"
    "k \<le> n" "n < 2 ^ 32" "w \<le> length dst" "length dst \<le> usize_max E"
  shows "(\<exists>t'. read_entry_chunks E A e label (u32_range k n) w (dst, t) = (Ok w', d, t')) \<longleftrightarrow>
    (\<exists>ds. length ds = n - k \<and> parts_from E A e k ds
       \<and> w' = w + length (concat ds) \<and> w' \<le> length dst \<and> d = put_range dst w (concat ds))"
  using assms(3-)
proof (induction "n - k" arbitrary: k w dst t)
  case 0
  then show ?case by (auto simp: u32_range_simps lift_st_def put_range_def)
next
  case (Suc m)
  then have kn: "k < n" by simp
  let ?f = "unat (en_first_chunk e)"
  let ?spec = "\<lambda>k w dst. \<exists>ds. length ds = n - k \<and> parts_from E A e k ds
       \<and> w' = w + length (concat ds) \<and> w' \<le> length dst \<and> d = put_range dst w (concat ds)"
  have IH: "w + length c0 \<le> length dst \<Longrightarrow>
      (\<exists>t'. read_entry_chunks E A e label (u32_range (Suc k) n) (w + length c0) (put_range dst w c0, t1) = (Ok w', d, t'))
      \<longleftrightarrow> ?spec (Suc k) (w + length c0) (put_range dst w c0)" for c0 t1
    using Suc.hyps(2) Suc.prems kn by (intro Suc.hyps(1)) auto
  have "(\<exists>t'. read_entry_chunks E A e label (u32_range k n) w (dst, t) = (Ok w', d, t')) \<longleftrightarrow>
      (\<exists>c0. chunk_reads E A (?f + k) c0 \<and> w + length c0 \<le> length dst
        \<and> ?spec (Suc k) (w + length c0) (put_range dst w c0))" (is "?L \<longleftrightarrow> ?M")
  proof -
    have fits: "k < 2 ^ 32" using kn Suc.prems(2) by simp
    have again: "chunk_reads E A (?f + k) c0 \<Longrightarrow> w + length c0 \<le> length dst \<Longrightarrow>
        \<exists>t1. read_chunk_by_index_into E A label (of_nat k) (of_nat (?f + k)) (take (length c0) (drop w dst), t) = (Ok (), c0, t1)"
      for c0
    proof -
      assume c0: "chunk_reads E A (?f + k) c0" "w + length c0 \<le> length dst"
      have "unat (of_nat (?f + k) :: u32) = ?f + k"
        using chunk_reads_facts(1) [OF assms(1) c0(1)] assms(2) by (intro unat_of_nat_u32) linarith
      then show ?thesis
        using read_chunk_reads [OF assms(1), of label "of_nat k" "of_nat (?f + k)" "take (length c0) (drop w dst)" t "()" c0] c0
        by simp
    qed
    show ?thesis
    proof
      assume ?L
      then show ?M
        unfolding u32_range_simps(2) [OF kn] read_entry_step [OF assms(1,2) fits Suc.prems(4)]
        using IH by blast
    next
      assume ?M
      then obtain c0 where c0: "chunk_reads E A (?f + k) c0" "w + length c0 \<le> length dst"
        "?spec (Suc k) (w + length c0) (put_range dst w c0)" by blast
      from again [OF c0(1,2)] obtain t1 where t1: "read_chunk_by_index_into E A label (of_nat k) (of_nat (?f + k))
          (take (length c0) (drop w dst), t) = (Ok (), c0, t1)" by blast
      from IH [OF c0(2), of t1] c0(3) obtain t' where
        "read_entry_chunks E A e label (u32_range (Suc k) n) (w + length c0) (put_range dst w c0, t1) = (Ok w', d, t')"
        by blast
      with c0(1,2) t1 show ?L
        unfolding u32_range_simps(2) [OF kn] read_entry_step [OF assms(1,2) fits Suc.prems(4)] by blast
    qed
  qed
  also have "\<dots> \<longleftrightarrow> ?spec k w dst"
  proof
    assume ?M
    then obtain c0 ds where c0: "chunk_reads E A (?f + k) c0" "w + length c0 \<le> length dst"
      and ds: "length ds = n - Suc k" "parts_from E A e (Suc k) ds" "w' = w + length c0 + length (concat ds)"
        "w' \<le> length (put_range dst w c0)" "d = put_range (put_range dst w c0) (w + length c0) (concat ds)"
      by blast
    then have "length (c0 # ds) = n - k" "parts_from E A e k (c0 # ds)"
      "w' = w + length (concat (c0 # ds))" "w' \<le> length dst" "d = put_range dst w (concat (c0 # ds))"
      using kn put_range_append [of w c0 "concat ds" dst] by auto
    then show "?spec k w dst" by blast
  next
    assume "?spec k w dst"
    then obtain ds where ds: "length ds = n - k" "parts_from E A e k ds"
       "w' = w + length (concat ds)" "w' \<le> length dst" "d = put_range dst w (concat ds)" by blast
    then obtain c0 ds' where c: "ds = c0 # ds'" using kn by (cases ds) auto
    have "w + length c0 + length (concat ds') \<le> length dst" using ds c by simp
    from put_range_append [OF this] show ?M
      using ds c kn by (intro exI [of _ c0] conjI exI [of _ ds']) auto
  qed
  finally show ?case .
qed

text \<open>An entry is read successfully exactly if its chunks read, and the result is their concatenation.\<close>

lemma read_entry_into_Ok:
  assumes "reader_pure E A" "length (a_chunks A) < 2 ^ 32" "idx < length (a_entries A)"
  defines "e \<equiv> a_entries A ! idx"
  shows "(\<exists>s'. read_entry_into E A idx label (dst, s) = (Ok x, d, s')) \<longleftrightarrow>
     en_chunk_count e \<le> a_max_chunks_per_operation A \<and> unat (en_original_size e) \<le> usize_max E
   \<and> length dst = unat (en_original_size e) \<and> length d = length dst \<and> entry_reads E A e d"
proof -
  let ?n = "unat (en_chunk_count e)"
  have loop: "(\<exists>t'. read_entry_chunks E A e label (u32_range 0 ?n) 0 (dst, s_stored s) = (Ok (length dst), d, t')) \<longleftrightarrow>
      length d = length dst \<and> entry_reads E A e d" if "length dst \<le> usize_max E"
  proof -
    have "put_range dst 0 b = b" if "length b = length dst" for b using that by (rule put_range_all)
    then show ?thesis
      unfolding read_entry_chunks_Ok [OF assms(1,2), of 0 ?n 0 dst e label "s_stored s" "length dst" d,
          OF _ _ _ that, simplified] entry_reads_def entry_parts_from
      by force
  qed
  have "(\<exists>s'. read_entry_into E A idx label (dst, s) = (Ok x, d, s')) \<longleftrightarrow>
     en_chunk_count e \<le> a_max_chunks_per_operation A \<and> unat (en_original_size e) \<le> usize_max E
   \<and> length dst = unat (en_original_size e)
   \<and> (\<exists>t'. read_entry_chunks E A e label (u32_range 0 ?n) 0 (dst, s_stored s) = (Ok (length dst), d, t'))"
    using assms(3)
  proof -
    have "(\<exists>s'. read_entry_into E A idx label (dst, s) = (Ok x, d, s')) \<longleftrightarrow>
        (\<exists>t'. read_entry_stored E A idx label (length dst) (dst, s_stored s) = (Ok x, d, t'))"
      by (auto simp: read_entry_into_def split: prod.splits)
    also have "\<dots> \<longleftrightarrow> en_chunk_count e \<le> a_max_chunks_per_operation A \<and> unat (en_original_size e) \<le> usize_max E
      \<and> length dst = unat (en_original_size e)
      \<and> (\<exists>t'. read_entry_chunks E A e label (u32_range 0 ?n) 0 (dst, s_stored s) = (Ok (length dst), d, t'))"
      using assms(3) by (auto simp: read_entry_stored_def res_simps arith_simps e_def)
    finally show ?thesis .
  qed
  then show ?thesis using loop by auto
qed

lemma read_Ok:
  assumes "reader_pure E A" "archive_wf E A"
  shows "read E A path = Ok d \<longleftrightarrow>
    (\<exists>n i. normalize_path E path = Ok n \<and> path_matches E A n i
       \<and> en_chunk_count (a_entries A ! i) \<le> a_max_chunks_per_operation A
       \<and> unat (en_original_size (a_entries A ! i)) \<le> usize_max E
       \<and> length d = unat (en_original_size (a_entries A ! i)) \<and> entry_reads E A (a_entries A ! i) d)"
proof -
  have cl: "length (a_chunks A) < 2 ^ 32" using assms(2) by (simp add: archive_wf_def)
  have al: "alloc_total E" using assms(1) by (simp add: reader_pure_def)
  have lt: "path_matches E A n i \<Longrightarrow> i < length (a_entries A)" for n i by (simp add: path_matches_def)
  have iv: "i < length (a_entries A) \<Longrightarrow> into_vec (read_entry_into E A i label) out s = Ok d \<longleftrightarrow>
      en_chunk_count (a_entries A ! i) \<le> a_max_chunks_per_operation A
      \<and> unat (en_original_size (a_entries A ! i)) \<le> usize_max E
      \<and> length out = unat (en_original_size (a_entries A ! i)) \<and> length d = length out
      \<and> entry_reads E A (a_entries A ! i) d" for i label out s
    using read_entry_into_Ok [OF assms(1) cl, of i label out s "()" d]
    by (auto simp: into_vec_def res_simps split: prod.splits)
  show ?thesis (is "_ \<longleftrightarrow> ?R")
  proof
    assume "read E A path = Ok d"
    then obtain n i where "normalize_path E path = Ok n" "path_matches E A n i"
      "unat (en_original_size (a_entries A ! i)) \<le> usize_max E"
      "into_vec (read_entry_into E A i (LabelPath n)) (replicate (unat (en_original_size (a_entries A ! i))) 0)
        default_scratch = Ok d"
      by (auto simp: read_def normalize_lookup_path_def res_simps arith_simps find_normalized_Ok [OF assms(2)])
    then show ?R using iv [OF lt] by (metis length_replicate)
  next
    assume ?R
    then obtain n i where r: "normalize_path E path = Ok n" "path_matches E A n i"
      "en_chunk_count (a_entries A ! i) \<le> a_max_chunks_per_operation A"
      "unat (en_original_size (a_entries A ! i)) \<le> usize_max E"
      "length d = unat (en_original_size (a_entries A ! i))" "entry_reads E A (a_entries A ! i) d" by blast
    from r(2) have f: "find_entry_index_normalized E A n = Ok i" by (simp add: find_normalized_Ok [OF assms(2)])
    show "read E A path = Ok d"
      unfolding read_def normalize_lookup_path_def r(1) f bind_res.simps
      using r lt [OF r(2)] al iv [OF lt [OF r(2)]]
      by (simp add: index_at_def allocate_def u64_to_usize_def ensure_chunk_operation_limit_def)
  qed
qed

section \<open>Ranges are slices\<close>

lemma wf_entry:
  assumes "archive_wf E A" "idx < length (a_entries A)"
  obtains te where "a_entries A ! idx = entry_from te" "entry_ok (a_chunks A) (unat (a_chunk_size A)) te"
    "\<And>c. c \<in> set (a_chunks A) \<Longrightarrow> 0 < unat (c_original_size c) \<and> unat (c_original_size c) \<le> unat (a_chunk_size A)"
proof -
  from assms(1) obtain toc to mx where "a_entries A = map entry_from toc"
    "layout_ok toc (a_chunks A) to (unat (a_chunk_size A)) (unat (a_alignment A)) (a_protection A = Aead) mx"
    by (auto simp: archive_wf_def)
  with assms(2) show ?thesis
    by (intro that [of "toc ! idx"]) (auto simp: layout_ok_def chunks_ok_def chunk_ok_def)
qed

text \<open>All chunks of an entry but the last are full, and together they have its size.\<close>

lemma entry_parts_sizes:
  assumes "reader_pure E A" "archive_wf E A" "idx < length (a_entries A)" "entry_parts E A (a_entries A ! idx) ds"
  shows "\<And>i. Suc i < length ds \<Longrightarrow> length (ds ! i) = unat (a_chunk_size A)"
    "\<And>i. i < length ds \<Longrightarrow> 0 < length (ds ! i) \<and> length (ds ! i) \<le> unat (a_chunk_size A)"
    "length (concat ds) = unat (en_original_size (a_entries A ! idx))"
proof -
  let ?e = "a_entries A ! idx" and ?cs = "a_chunks A"
  obtain te where te: "?e = entry_from te" "entry_ok ?cs (unat (a_chunk_size A)) te"
    and pos: "\<And>c. c \<in> set ?cs \<Longrightarrow> 0 < unat (c_original_size c) \<and> unat (c_original_size c) \<le> unat (a_chunk_size A)"
    using wf_entry [OF assms(2,3)] by metis
  have n: "length ds = entry_count te" and f: "unat (en_first_chunk ?e) = entry_first te"
    using assms(4) te(1) by (simp_all add: entry_parts_def entry_count_def entry_first_def)
  have fits: "entry_first te + entry_count te \<le> length ?cs" using te(2) by (simp add: entry_ok_def)
  have len: "length (ds ! i) = unat (c_original_size (?cs ! (entry_first te + i)))"
    and inr: "entry_first te + i < length ?cs" if "i < length ds" for i
  proof -
    have "chunk_reads E A (entry_first te + i) (ds ! i)"
      using that assms(4) f by (auto simp: entry_parts_def)
    from chunk_reads_facts(2,1) [OF assms(1) this]
    show "length (ds ! i) = unat (c_original_size (?cs ! (entry_first te + i)))" "entry_first te + i < length ?cs" .
  qed
  have nth: "entry_chunks ?cs te ! i = ?cs ! (entry_first te + i)" if "i < length ds" for i
    using that n fits by (simp add: entry_chunks_def)
  show "length (ds ! i) = unat (a_chunk_size A)" if "Suc i < length ds" for i
  proof -
    have "Suc i < entry_count te" "i < length ds" using that n by auto
    then show ?thesis using te(2) len [of i] nth [of i] unfolding entry_ok_def by metis
  qed
  show "0 < length (ds ! i) \<and> length (ds ! i) \<le> unat (a_chunk_size A)" if "i < length ds" for i
    using len [OF that] inr [OF that] pos [of "?cs ! (entry_first te + i)"] by simp
  have "map length ds = map (\<lambda>c. unat (c_original_size c)) (entry_chunks ?cs te)"
    by (rule nth_equalityI) (use n fits len nth in \<open>auto simp: entry_chunks_def\<close>)
  then show "length (concat ds) = unat (en_original_size ?e)"
    using te by (simp add: length_concat entry_ok_def)
qed

lemma drop_concat_full:
  assumes "\<And>i. Suc i < length ds \<Longrightarrow> length (ds ! i) = n" "i < length ds"
  shows "drop (i * n) (concat ds) = concat (drop i ds)"
  using assms
proof (induction i arbitrary: ds)
  case (Suc i)
  then obtain d ds' where ds: "ds = d # ds'" by (cases ds) auto
  have "ds' \<noteq> []" using Suc.prems(2) ds by auto
  then have "length d = n" using Suc.prems(1) [of 0] ds by simp
  moreover have "drop (i * n) (concat ds') = concat (drop i ds')"
    using Suc.prems(1) [of "Suc _"] Suc.prems(2) ds by (intro Suc.IH) auto
  ultimately show ?case by (simp add: ds)
qed simp

text \<open>A piece that lies inside one chunk is a piece of the whole.\<close>

lemma chunk_piece:
  assumes "\<And>i. Suc i < length ds \<Longrightarrow> length (ds ! i) = n" "l < length ds"
    "l * n \<le> p" "q \<le> l * n + length (ds ! l)"
  shows "take (q - p) (drop (p - l * n) (ds ! l)) = take (q - p) (drop p (concat ds))"
proof -
  have "drop p (concat ds) = drop (p - l * n) (drop (l * n) (concat ds))" using assms(3) by simp
  also have "\<dots> = drop (p - l * n) (ds ! l @ concat (drop (Suc l) ds))"
    using drop_concat_full [OF assms(1,2)] Cons_nth_drop_Suc [OF assms(2)] by (metis concat.simps(2))
  finally show ?thesis using assms(3,4) by simp
qed

lemma range_slice_eq:
  assumes "unat l * unat cs \<le> unat en" "unat l * unat cs + unat sz < 2 ^ 64" "unat sz \<le> usize_max E"
    "unat offset \<le> unat l * unat cs + unat sz"
  shows "range_slice E cs offset en l sz =
    Ok (max (unat offset) (unat l * unat cs) - unat l * unat cs,
        min (unat en) (unat l * unat cs + unat sz) - unat l * unat cs)"
proof -
  define st :: u64 where "st = of_nat (unat l * unat cs)"
  define fin :: u64 where "fin = of_nat (unat l * unat cs + unat sz)"
  have st: "unat st = unat l * unat cs" unfolding st_def using assms(2) by (intro unat_of_nat_u64) linarith
  have fin: "unat fin = unat l * unat cs + unat sz" unfolding fin_def using assms(2) by (intro unat_of_nat_u64) linarith
  have mul: "checked_mul (ucast l) cs = Some st"
    using assms(2) st by (simp add: checked_mul_Some)
  have add: "checked_add st sz = Some fin"
    using assms(2) st fin by (simp add: checked_add_Some)
  have subs: "sub_or_panic (max_u64 offset st) st = Ok (max_u64 offset st - st)"
    "sub_or_panic (min_u64 en fin) st = Ok (min_u64 en fin - st)"
    using assms(1) st fin by (simp_all add: sub_or_panic_def word_le_nat_alt)
  have us: "unat (max_u64 offset st - st) = max (unat offset) (unat st) - unat st"
    "unat (min_u64 en fin - st) = min (unat en) (unat fin) - unat st"
    using assms(1) st fin by (simp_all add: unat_sub word_le_nat_alt)
  have bounds: "max (unat offset) (unat st) - unat st \<le> usize_max E"
    "min (unat en) (unat fin) - unat st \<le> usize_max E"
    using assms st fin by linarith+
  show ?thesis
    unfolding range_slice_def mul add ok_or_simps bind_res.simps subs u64_to_usize_def us
    using bounds by (simp add: st fin)
qed

lemma on_snd_Ok [res_simps]: "on_snd m (b, s) = (Ok x, t) \<longleftrightarrow> (\<exists>s'. m s = (Ok x, s') \<and> t = (b, s'))"
  by (auto simp: on_snd_def split: prod.splits)

lemma read_decoded_reads:
  assumes "reader_pure E A" "chunk_reads E A (unat g) d" "length (s_decoded s) = length d"
  shows "\<exists>t. read_decoded E A label l g s = (Ok (), s\<lparr> s_decoded := d, s_stored := t \<rparr>)"
proof -
  obtain t where "read_chunk_by_index_into E A label l g (s_decoded s, s_stored s) = (Ok (), d, t)"
    using read_chunk_reads [OF assms(1)] assms(2,3) by blast
  then show ?thesis by (auto simp: read_decoded_def)
qed

text \<open>One turn of the range loop copies the part of the chunk inside the range.\<close>

lemma read_range_step:
  assumes pure: "reader_pure E A" and wf: "archive_wf E A"
    and d: "chunk_reads E A (unat (en_first_chunk e) + l) d" and l: "l < unat (en_chunk_count e)"
    and pos: "l * unat (a_chunk_size A) \<le> unat en" "l * unat (a_chunk_size A) + length d < 2 ^ 64"
      "unat offset \<le> l * unat (a_chunk_size A) + length d"
    and p: "p = max (unat offset) (l * unat (a_chunk_size A))"
    and q: "q = min (unat en) (l * unat (a_chunk_size A) + length d)"
    and fit: "p \<le> q" "w + (q - p) \<le> length dst" "length dst \<le> usize_max E"
  shows "\<exists>s'. read_range_chunks E A e label offset en (of_nat l # ls) w (dst, s) =
    read_range_chunks E A e label offset en ls (w + (q - p))
      (put_range dst w (take (q - p) (drop (p - l * unat (a_chunk_size A)) d)), s')"
proof -
  let ?f = "unat (en_first_chunk e)" and ?cs = "unat (a_chunk_size A)"
  note f = chunk_reads_facts [OF pure d]
  have lt: "?f + l < 2 ^ 32" using f(1) wf unfolding archive_wf_def by linarith
  have ul: "unat (of_nat l :: u32) = l" using lt by (intro unat_of_nat_u32) linarith
  define g :: u32 where "g = of_nat (?f + l)"
  have ug: "unat g = ?f + l" unfolding g_def using lt by (rule unat_of_nat_u32)
  have sz: "unat (c_original_size (a_chunks A ! (?f + l))) = length d" using f(2) by simp
  have c1: "ensure ((of_nat l :: u32) < en_chunk_count e) err = Ok ()" for err :: error
    using l ul by (simp add: word_less_nat_alt)
  have c2: "checked_add (en_first_chunk e) (of_nat l) = Some g" unfolding g_def using lt by (rule checked_add_u32)
  have c3: "chunk_at E A g = Ok (a_chunks A ! (?f + l))" using f(1,4) ug by (simp only: chunk_at_Ok)
  have c4: "u64_to_usize E (c_original_size (a_chunks A ! (?f + l))) what = Ok (length d)" for what
    using sz f(5) by (simp add: u64_to_usize_def)
  define s1 where "s1 = s\<lparr> s_decoded := resize (s_decoded s) (length d) \<rparr>"
  have c5: "on_snd (resize_decoded E (length d)) (dst, s) = (Ok (), dst, s1)"
    using pure by (simp add: on_snd_def resize_decoded_def resize_buffer_cases s1_def reader_pure_def)
  obtain t where t: "read_decoded E A label (of_nat l) g s1 = (Ok (), s1\<lparr> s_decoded := d, s_stored := t \<rparr>)"
    using read_decoded_reads [OF pure, of g d s1] d ug by (auto simp: s1_def)
  define s2 where "s2 = s1\<lparr> s_decoded := d, s_stored := t \<rparr>"
  have c6: "on_snd (read_decoded E A label (of_nat l) g) (dst, s1) = (Ok (), dst, s2)"
    using t by (simp add: on_snd_def s2_def)
  have c7: "range_slice E (ucast (a_chunk_size A)) offset en (of_nat l) (c_original_size (a_chunks A ! (?f + l)))
      = Ok (p - l * ?cs, q - l * ?cs)"
    using range_slice_eq [of "of_nat l" "ucast (a_chunk_size A)" en "c_original_size (a_chunks A ! (?f + l))" E offset]
      pos f(5) by (simp only: ul sz unat_ucast_u32_u64 p q)
  have amt: "p - l * ?cs \<le> q - l * ?cs" "q - l * ?cs - (p - l * ?cs) = q - p"
    using fit(1) p by linarith+
  have c8: "usize_add E w (q - p) = Some (w + (q - p))" using fit(2,3) by (simp add: usize_add_def)
  have c9: "copy_decoded w (w + (q - p)) (p - l * ?cs) (q - l * ?cs) (dst, s2)
      = (Ok (), put_range dst w (take (q - p) (drop (p - l * ?cs) d)), s2)"
  proof -
    have "get_range dst w (w + (q - p)) = Some (take (q - p) (drop w dst))" using fit(2) by (simp add: get_range_def)
    moreover have "q - l * ?cs \<le> length d" using q by linarith
    then have "get_range d (p - l * ?cs) (q - l * ?cs) = Some (take (q - p) (drop (p - l * ?cs) d))"
      using amt by (simp add: get_range_def)
    moreover have "length (take (q - p) (drop w dst)) = length (take (q - p) (drop (p - l * ?cs) d))"
      using fit(2) diff_le_mono [OF \<open>q - l * ?cs \<le> length d\<close>, of "p - l * ?cs"] unfolding amt(2) by simp
    ultimately show ?thesis by (simp add: copy_decoded_def s2_def)
  qed
  define ts te where "ts = p - l * ?cs" and "te = q - l * ?cs"
  note fold = ts_def [symmetric] te_def [symmetric]
  note c7 = c7 [unfolded fold] and amt = amt [unfolded fold] and c9 = c9 [unfolded fold]
  have "read_range_chunks E A e label offset en (of_nat l # ls) w (dst, s) =
    read_range_chunks E A e label offset en ls (w + (q - p)) (put_range dst w (take (q - p) (drop ts d)), s2)"
    unfolding read_range_chunks.simps
    by (simp add: c1 c2 c3 c4 c7 c8 amt bind_st_def [of "on_snd _"] c5 c6
        bind_st_def [of "copy_decoded _ _ _ _"] c9)
  then show ?thesis unfolding ts_def by blast
qed

text \<open>
  Arithmetic of the loop: a chunk before the last one of the range is full and ends inside
  the range, the last one covers the end of the range.
\<close>

lemma range_chunk_bounds:
  assumes full: "\<And>i. Suc i < length ds \<Longrightarrow> length (ds ! i) = n"
    and small: "\<And>i. i < length ds \<Longrightarrow> 0 < length (ds ! i) \<and> length (ds ! i) \<le> n"
    and en: "0 < en" "en \<le> length (concat ds)" and l: "l \<le> (en - 1) div n" and n: "0 < n"
  shows "l < length ds" "l * n < en" "l * n + length (ds ! l) \<le> length (concat ds)"
    "l < (en - 1) div n \<Longrightarrow> length (ds ! l) = n \<and> Suc l * n < en"
    "l = (en - 1) div n \<Longrightarrow> en \<le> l * n + length (ds ! l)"
proof -
  have le: "l * n \<le> en - 1" using l n by (metis div_times_less_eq_dividend le_trans mult_le_mono1)
  then show ln: "l * n < en" using en(1) by linarith
  have len: "length (concat xs) \<le> length xs * n" if "\<And>x. x \<in> set xs \<Longrightarrow> length x \<le> n" for xs :: "'a list list"
    using that by (induction xs) (auto intro: add_mono)
  have "length (concat ds) \<le> length ds * n"
    using small by (intro len) (auto simp: in_set_conv_nth)
  then have "l * n < length ds * n" using ln en(2) by linarith
  then show ld: "l < length ds" by simp
  have tail: "length (concat ds) - l * n = length (concat (drop l ds))"
    using arg_cong [OF drop_concat_full [OF full ld], of length] by simp
  also have "\<dots> = length (ds ! l) + length (concat (drop (Suc l) ds))"
    by (simp flip: Cons_nth_drop_Suc [OF ld])
  finally have split: "length (concat ds) = l * n + length (ds ! l) + length (concat (drop (Suc l) ds))"
    using ln en(2) by linarith
  then show "l * n + length (ds ! l) \<le> length (concat ds)" by simp
  have last: "Suc l = length ds \<Longrightarrow> length (concat ds) = l * n + length (ds ! l)" using split by simp
  show "length (ds ! l) = n \<and> Suc l * n < en" if "l < (en - 1) div n"
  proof -
    have "Suc l * n \<le> en - 1" using that n by (metis Suc_leI div_times_less_eq_dividend le_trans mult_le_mono1)
    then have lt: "Suc l * n < en" using en(1) by linarith
    have "Suc l \<noteq> length ds"
    proof
      assume "Suc l = length ds"
      then have "length (concat ds) \<le> Suc l * n" using last small [OF ld] unfolding mult_Suc by linarith
      with lt en(2) show False by linarith
    qed
    with ld full [of l] lt show ?thesis by simp
  qed
  show "en \<le> l * n + length (ds ! l)" if "l = (en - 1) div n"
  proof (cases "Suc l = length ds")
    case True
    then show ?thesis using last en(2) by simp
  next
    case False
    then have "length (ds ! l) = n" using ld full [of l] by simp
    moreover have "en - 1 < (l + 1) * n" using that n by (simp add: dividend_less_div_times)
    ultimately show ?thesis by simp
  qed
qed

lemma read_range_turn:
  assumes pure: "reader_pure E A" and wf: "archive_wf E A" and idx: "idx < length (a_entries A)"
    and parts: "entry_parts E A (a_entries A ! idx) ds"
    and rng: "unat offset < unat en" "unat en \<le> length (concat ds)"
    and dst: "length dst = unat en - unat offset" "length dst \<le> usize_max E"
    and l: "unat offset div unat (a_chunk_size A) \<le> l" "l \<le> (unat en - 1) div unat (a_chunk_size A)"
    and p: "p = max (unat offset) (l * unat (a_chunk_size A))"
  defines "q \<equiv> (if l = (unat en - 1) div unat (a_chunk_size A) then unat en else Suc l * unat (a_chunk_size A))"
  shows "\<exists>s'. read_range_chunks E A (a_entries A ! idx) label offset en (of_nat l # ls) (p - unat offset) (dst, s) =
    read_range_chunks E A (a_entries A ! idx) label offset en ls (q - unat offset)
      (put_range dst (p - unat offset) (take (q - p) (drop p (concat ds))), s')"
    and "p \<le> q" "q \<le> unat en" "l \<noteq> (unat en - 1) div unat (a_chunk_size A) \<Longrightarrow> q = max (unat offset) (Suc l * unat (a_chunk_size A))"
proof -
  let ?e = "a_entries A ! idx" and ?n = "unat (a_chunk_size A)"
  note sizes = entry_parts_sizes [OF pure wf idx parts]
  have n: "0 < ?n" using wf_chunk_size(2) [OF wf] .
  have en: "0 < unat en" using rng(1) by linarith
  note b = range_chunk_bounds [OF sizes(1,2) en rng(2) l(2) n]
  have off: "unat offset < Suc l * ?n"
  proof -
    have "unat offset < (unat offset div ?n + 1) * ?n" using n by (simp add: dividend_less_div_times)
    also have "\<dots> \<le> Suc l * ?n" using l(1) by (intro mult_le_mono1) simp
    finally show ?thesis .
  qed
  show q: "p \<le> q" "q \<le> unat en"
    "l \<noteq> (unat en - 1) div ?n \<Longrightarrow> q = max (unat offset) (Suc l * ?n)"
    using off b(2,4) l(2) rng(1) by (auto simp: q_def p)
  have q': "q = min (unat en) (l * ?n + length (ds ! l))"
    using b(4,5) l(2) by (auto simp: q_def)
  have total: "length (concat ds) < 2 ^ 64" using sizes(3) by simp
  have rd: "chunk_reads E A (unat (en_first_chunk ?e) + l) (ds ! l)" and lc: "l < unat (en_chunk_count ?e)"
    using parts b(1) by (auto simp: entry_parts_def)
  have off': "unat offset \<le> l * ?n + length (ds ! l)"
    using off rng(1) b(4,5) l(2) by (cases "l = (unat en - 1) div ?n") auto
  have piece: "take (q - p) (drop (p - l * ?n) (ds ! l)) = take (q - p) (drop p (concat ds))"
    using b(1) q' by (intro chunk_piece [OF sizes(1)]) (auto simp: p)
  have "p - unat offset + (q - p) = q - unat offset" using q(1) p by simp
  moreover have "q - unat offset \<le> length dst" using q(2) dst(1) by simp
  moreover have "l * ?n \<le> unat en" "l * ?n + length (ds ! l) < 2 ^ 64" using b(2,3) total by linarith+
  ultimately show "\<exists>s'. read_range_chunks E A ?e label offset en (of_nat l # ls) (p - unat offset) (dst, s) =
    read_range_chunks E A ?e label offset en ls (q - unat offset)
      (put_range dst (p - unat offset) (take (q - p) (drop p (concat ds))), s')"
    using read_range_step [OF pure wf rd lc _ _ off' p q' q(1), of "p - unat offset" dst label ls s] dst(2) piece
    by metis
qed

lemma read_range_loop:
  assumes pure: "reader_pure E A" and wf: "archive_wf E A" and idx: "idx < length (a_entries A)"
    and parts: "entry_parts E A (a_entries A ! idx) ds"
    and rng: "unat offset < unat en" "unat en \<le> length (concat ds)"
    and dst: "length dst = unat en - unat offset" "length dst \<le> usize_max E"
    and l: "unat offset div unat (a_chunk_size A) \<le> l" "l \<le> (unat en - 1) div unat (a_chunk_size A)"
    and p: "p = max (unat offset) (l * unat (a_chunk_size A))"
  shows "\<exists>s'. read_range_chunks E A (a_entries A ! idx) label offset en
      (u32_range l (Suc ((unat en - 1) div unat (a_chunk_size A)))) (p - unat offset) (dst, s) =
    (Ok (unat en - unat offset), put_range dst (p - unat offset) (take (unat en - p) (drop p (concat ds))), s')"
  using dst l p
proof (induction "(unat en - 1) div unat (a_chunk_size A) - l" arbitrary: l p dst s)
  case base: 0
  then have l: "l = (unat en - 1) div unat (a_chunk_size A)" by simp
  from read_range_turn(1) [OF pure wf idx parts rng base.prems, of label "[]" s]
  show ?case by (auto simp: l u32_range_simps lift_st_def)
next
  case (Suc m)
  let ?n = "unat (a_chunk_size A)" and ?lst = "(unat en - 1) div unat (a_chunk_size A)"
  define q where "q = Suc l * ?n"
  have l: "l \<noteq> ?lst" "l < Suc ?lst" using Suc.hyps(2) Suc.prems(4) by auto
  note turn = read_range_turn [OF pure wf idx parts rng Suc.prems, unfolded if_not_P [OF l(1)], folded q_def]
  from turn(1) [of label "u32_range (Suc l) (Suc ?lst)" s] obtain s1 where s1:
    "read_range_chunks E A (a_entries A ! idx) label offset en (u32_range l (Suc ?lst)) (p - unat offset) (dst, s) =
     read_range_chunks E A (a_entries A ! idx) label offset en (u32_range (Suc l) (Suc ?lst)) (q - unat offset)
      (put_range dst (p - unat offset) (take (q - p) (drop p (concat ds))), s1)"
    unfolding u32_range_simps(2) [OF l(2)] by blast
  let ?a = "take (q - p) (drop p (concat ds))" and ?b = "take (unat en - q) (drop q (concat ds))"
  let ?w = "p - unat offset"
  have po: "unat offset \<le> p" using Suc.prems(5) by simp
  have la: "length ?a = q - p" "length ?b = unat en - q" using turn(2,3) rng(2) by simp_all
  have fit: "?w + length ?a + length ?b \<le> length dst" unfolding la using turn(2,3) po Suc.prems(1) by linarith
  have wq: "?w + length ?a = q - unat offset" using la(1) turn(2) po by linarith
  have len: "length (put_range dst ?w ?a) = length dst" using fit by simp
  have "\<exists>s'. read_range_chunks E A (a_entries A ! idx) label offset en (u32_range (Suc l) (Suc ?lst))
      (q - unat offset) (put_range dst ?w ?a, s1) =
    (Ok (unat en - unat offset), put_range (put_range dst ?w ?a) (q - unat offset) ?b, s')"
  proof -
    have m: "m = ?lst - Suc l" using Suc.hyps(2) by linarith
    show ?thesis
      using Suc.prems l turn(4) [OF l(1)] len by (intro Suc.hyps(1) [OF m]) (auto simp: q_def)
  qed
  moreover have "?a @ ?b = take (unat en - p) (drop p (concat ds))"
    using turn(2,3) take_add [of "q - p" "unat en - q" "drop p (concat ds)"] by simp
  then have "put_range (put_range dst ?w ?a) (q - unat offset) ?b = put_range dst ?w (take (unat en - p) (drop p (concat ds)))"
    using put_range_append [OF fit] wq by simp
  ultimately show ?case by (simp only: s1)
qed

text \<open>The length of a range is cut at the end of the entry, and the chunk limit of a full read suffices.\<close>

lemma range_len_value:
  assumes pure: "reader_pure E A" and wf: "archive_wf E A" and idx: "idx < length (a_entries A)"
    and parts: "entry_parts E A (a_entries A ! idx) ds"
    and lim: "en_chunk_count (a_entries A ! idx) \<le> a_max_chunks_per_operation A"
    and fits: "length (concat ds) \<le> usize_max E"
    and rng: "unat offset \<le> length (concat ds)" "unat offset + len < 2 ^ 64"
    and exact: "exact \<Longrightarrow> unat offset + len \<le> length (concat ds)"
  shows "range_len E A idx offset len exact = Ok (min len (length (concat ds) - unat offset))"
proof (cases "len = 0 \<or> unat offset = length (concat ds)")
  case True
  let ?size = "en_original_size (a_entries A ! idx)"
  note size = entry_parts_sizes(3) [OF pure wf idx parts]
  have "\<not> ?size < offset" "offset = ?size \<longleftrightarrow> unat offset = length (concat ds)"
    using rng(1) size by (simp_all add: word_less_nat_alt word_unat_eq_iff)
  then show ?thesis using True exact idx by (auto simp: range_len_def index_at_def Let_def)
next
  case False
  let ?size = "en_original_size (a_entries A ! idx)" and ?n = "unat (a_chunk_size A)"
  note sizes = entry_parts_sizes [OF pure wf idx parts]
  define k where "k = min len (length (concat ds) - unat offset)"
  define en :: u64 where "en = of_nat (unat offset + k)"
  have kb: "0 < k" "unat offset + k \<le> length (concat ds)" "k \<le> len" using False rng(1) by (auto simp: k_def)
  have en: "unat en = unat offset + k" unfolding en_def using kb rng(2) by (intro unat_of_nat_u64) linarith
  have req: "checked_add offset (of_nat len) = Some (of_nat (unat offset + len))"
    using rng(2) by (simp add: checked_add_def unat_of_nat)
  have ur: "unat (of_nat (unat offset + len) :: u64) = unat offset + len" using rng(2) by (rule unat_of_nat_u64)
  have n: "0 < ?n" using wf_chunk_size(2) [OF wf] .
  have sub: "sub_or_panic (min_u64 (of_nat (unat offset + len)) ?size) offset = Ok (of_nat k)"
  proof -
    have "unat (min_u64 (of_nat (unat offset + len)) ?size) = unat offset + k"
      unfolding unat_min_max_u64 ur using sizes(3) rng(1) by (simp add: k_def)
    then show ?thesis
      by (simp add: sub_or_panic_Ok) (metis add_diff_cancel_left' kb(3) le_add2 order_le_less_trans rng(2) unat_of_nat_u64)
  qed
  have uk: "unat (of_nat k :: u64) = k" using kb rng(2) by (intro unat_of_nat_u64) linarith
  have cnt: "unat (en_chunk_count (a_entries A ! idx)) < 2 ^ 32" by simp
  have ck: "range_chunk_count A offset k = Ok (of_nat ((unat en - 1) div ?n - unat offset div ?n + 1))"
    "(unat en - 1) div ?n - unat offset div ?n + 1 \<le> unat (en_chunk_count (a_entries A ! idx))"
  proof -
    have lst: "(unat en - 1) div ?n < length ds"
      using range_chunk_bounds(1) [OF sizes(1,2), of "unat en" "(unat en - 1) div ?n"] kb en n by simp
    then show bnd: "(unat en - 1) div ?n - unat offset div ?n + 1 \<le> unat (en_chunk_count (a_entries A ! idx))"
      using parts by (simp add: entry_parts_def)
    have ad: "usize_to_u64 k what = Ok (of_nat k)" "checked_add offset (of_nat k) = Some en" for what
      using kb rng(2) en uk by (auto simp: usize_to_u64_def checked_add_Some)
    have e1: "unat (en - 1) = unat en - 1" "1 \<le> en" using en kb by (auto simp: word_le_nat_alt unat_sub)
    have dv: "div_or_panic v (ucast (a_chunk_size A)) = Ok (v div ucast (a_chunk_size A))"
      "unat (v div ucast (a_chunk_size A) :: u64) = unat v div ?n" for v
      using wf_chunk_size(1) [OF wf] by (simp_all add: div_or_panic_def unat_div)
    let ?a = "(en - 1) div ucast (a_chunk_size A)" and ?b = "offset div ucast (a_chunk_size A)"
    have le: "unat ?b \<le> unat ?a" using e1(1) en kb by (simp add: dv(2) div_le_mono)
    have c1: "checked_sub ?a ?b = Some (?a - ?b)" using le by (simp add: checked_sub_def word_le_nat_alt)
    have d: "unat (?a - ?b) = unat ?a - unat ?b" using le by (simp add: unat_sub word_le_nat_alt)
    have small: "unat ?a - unat ?b + 1 < 2 ^ 32"
      using order_le_less_trans [OF bnd cnt] by (simp only: dv(2) e1(1))
    have c2: "checked_add (?a - ?b) 1 = Some (of_nat (unat ?a - unat ?b + 1))"
      using small d by (simp add: checked_add_Some unat_of_nat_u64 del: of_nat_add of_nat_Suc)
    have c3: "u64_to_u32 (of_nat (unat ?a - unat ?b + 1)) = Some (of_nat (unat ?a - unat ?b + 1))"
      using small by (simp add: u64_to_u32_Some unat_of_nat_u64 unat_of_nat_u32 del: of_nat_add of_nat_Suc)
    show "range_chunk_count A offset k = Ok (of_nat ((unat en - 1) div ?n - unat offset div ?n + 1))"
      unfolding range_chunk_count_def ad ok_or_simps bind_res.simps Let_def dv(1)
      using e1 c1 c2 c3 by (simp add: sub_or_panic_def dv del: of_nat_add of_nat_Suc)
  qed
  have small: "(unat en - 1) div ?n - unat offset div ?n + 1 < 2 ^ 32"
    using order_le_less_trans [OF ck(2) cnt] .
  have ol: "ensure_chunk_operation_limit A (of_nat ((unat en - 1) div ?n - unat offset div ?n + 1)) = Ok ()"
    using ck(2) lim unat_of_nat_u32 [OF small]
    by (simp add: ensure_chunk_operation_limit_def word_le_nat_alt ensure_def del: of_nat_add of_nat_Suc)
  have op: "bind_res (range_chunk_count A offset k) (ensure_chunk_operation_limit A) = Ok ()"
    unfolding ck(1) bind_res.simps by (rule ol)
  have ne: "\<not> ?size < offset" "offset \<noteq> ?size"
    using rng(1) False sizes(3) by (auto simp: word_less_nat_alt word_unat_eq_iff)
  have ex: "\<not> exact \<or> (of_nat (unat offset + len) :: u64) \<le> ?size"
    using exact sizes(3) ur by (auto simp: word_le_nat_alt)
  have u: "usize_to_u64 len what = Ok (of_nat len)" "u64_to_usize E (of_nat k) what = Ok k" for what
    using rng(2) uk kb fits by (auto simp: usize_to_u64_def u64_to_usize_def)
  show ?thesis
    unfolding range_len_def Let_def k_def [symmetric]
    using idx False ne ex kb(1)
    by (simp add: index_at_def u req sub op ensure_def del: of_nat_add of_nat_Suc)
qed

text \<open>The whole operation: a range read is a slice of the full content.\<close>

lemma read_range_index_slice:
  assumes pure: "reader_pure E A" and wf: "archive_wf E A" and idx: "idx < length (a_entries A)"
    and parts: "entry_parts E A (a_entries A ! idx) ds"
    and rng: "unat offset + k \<le> length (concat ds)" "length (concat ds) \<le> usize_max E" and dst: "length dst = k"
  shows "\<exists>s'. read_range_index_into E A idx label offset (dst, s) = (Ok (), take k (drop (unat offset) (concat ds)), s')"
proof (cases "k = 0")
  case True
  with dst show ?thesis by (simp add: read_range_index_into_def)
next
  case False
  let ?n = "unat (a_chunk_size A)"
  note sizes = entry_parts_sizes [OF pure wf idx parts]
  have tot: "length (concat ds) < 2 ^ 64" using sizes(3) by simp
  define en :: u64 where "en = of_nat (unat offset + k)"
  have en: "unat en = unat offset + k" unfolding en_def using rng(1) tot by (intro unat_of_nat_u64) linarith
  have add: "usize_to_u64 k what = Ok (of_nat k)" "checked_add offset (of_nat k) = Some en" for what
  proof -
    have "unat (of_nat k :: u64) = k" using rng(1) tot by (intro unat_of_nat_u64) linarith
    then show "usize_to_u64 k what = Ok (of_nat k)" "checked_add offset (of_nat k) = Some en"
      using rng(1) tot en by (auto simp: usize_to_u64_def checked_add_Some)
  qed
  have e1: "unat (en - 1) = unat en - 1" "sub_or_panic en 1 = Ok (en - 1)"
    using en False by (auto simp: word_le_nat_alt unat_sub sub_or_panic_def)
  have dv: "div_or_panic v (ucast (a_chunk_size A)) = Ok (v div ucast (a_chunk_size A))"
      "unat (v div ucast (a_chunk_size A) :: u64) = unat v div ?n" for v
    using wf_chunk_size(1) [OF wf] by (simp_all add: div_or_panic_def unat_div)
  have lst: "(unat en - 1) div ?n < length ds"
    using range_chunk_bounds(1) [OF sizes(1,2), of "unat en" "(unat en - 1) div ?n"] False rng(1) en
      wf_chunk_size(2) [OF wf] by simp
  moreover have "length ds < 2 ^ 32" using parts by (simp add: entry_parts_def)
  ultimately have last: "(unat en - 1) div ?n < 2 ^ 32" by linarith
  moreover have "unat offset div ?n \<le> (unat en - 1) div ?n" using en False by (intro div_le_mono) simp
  ultimately have first: "unat offset div ?n < 2 ^ 32" "unat offset div ?n \<le> (unat en - 1) div ?n" by linarith+
  have u32: "u64_to_u32 ((en - 1) div ucast (a_chunk_size A)) = Some (of_nat ((unat en - 1) div ?n))"
    "u64_to_u32 (offset div ucast (a_chunk_size A)) = Some (of_nat (unat offset div ?n))"
    using last first unat_of_nat_u32 [OF last] unat_of_nat_u32 [OF first(1)] by (simp_all add: u64_to_u32_Some dv(2) e1(1))
  have p: "unat offset = max (unat offset) (unat offset div ?n * ?n)" by simp
  have "\<exists>s'. read_range_chunks E A (a_entries A ! idx) label offset en
      (u32_range (unat offset div ?n) (Suc ((unat en - 1) div ?n))) (unat offset - unat offset) (dst, s) =
    (Ok (unat en - unat offset), put_range dst (unat offset - unat offset)
       (take (unat en - unat offset) (drop (unat offset) (concat ds))), s')"
    using False en rng dst
    by (intro read_range_loop [OF pure wf idx parts _ _ _ _ order.refl first(2) p]) auto
  then obtain s' where s': "read_range_chunks E A (a_entries A ! idx) label offset en
      (u32_range (unat offset div ?n) (Suc ((unat en - 1) div ?n))) 0 (dst, s)
      = (Ok k, put_range dst 0 (take k (drop (unat offset) (concat ds))), s')" using en by auto
  moreover have "put_range dst 0 (take k (drop (unat offset) (concat ds))) = take k (drop (unat offset) (concat ds))"
    using dst rng(1) by (intro put_range_all) simp
  ultimately have "read_range_nonempty E A idx label offset k (dst, s)
      = (Ok (), take k (drop (unat offset) (concat ds)), s')"
    using idx unat_of_nat_u32 [OF last] unat_of_nat_u32 [OF first(1)]
    by (simp add: read_range_nonempty_def index_at_def add dv(1) u32 e1(2) bind_st_def [of "read_range_chunks _ _ _ _ _ _ _ _"]
        lift_st_def [of _ "(_, _)"])
  with False dst show ?thesis by (auto simp: read_range_index_into_def)
qed

lemma read_range_gen_slice:
  assumes pure: "reader_pure E A" and wf: "archive_wf E A" and full: "read E A path = Ok full"
    and rng: "unat offset \<le> length full" "unat offset + len < 2 ^ 64"
    and exact: "exact \<Longrightarrow> unat offset + len \<le> length full"
  shows "read_range_gen E A path offset len exact = Ok (take len (drop (unat offset) full))"
proof -
  from full [unfolded read_Ok [OF pure wf]] obtain n i ds where
    n: "normalize_path E path = Ok n" and i: "path_matches E A n i"
    and lim: "en_chunk_count (a_entries A ! i) \<le> a_max_chunks_per_operation A"
      "unat (en_original_size (a_entries A ! i)) \<le> usize_max E"
      "length full = unat (en_original_size (a_entries A ! i))"
    and ds: "entry_parts E A (a_entries A ! i) ds" "full = concat ds"
    by (auto simp: entry_reads_def)
  have idx: "i < length (a_entries A)" using i by (simp add: path_matches_def)
  have f: "find_entry_index_normalized E A n = Ok i" using i by (simp add: find_normalized_Ok [OF wf])
  define k where "k = min len (length full - unat offset)"
  have rl: "range_len E A i offset len exact = Ok k"
    unfolding k_def ds(2) using rng exact lim ds(2)
    by (intro range_len_value [OF pure wf idx ds(1) lim(1)]) auto
  have "\<exists>s'. read_range_index_into E A i (LabelPath n) offset (replicate k 0, default_scratch)
      = (Ok (), take k (drop (unat offset) (concat ds)), s')"
    using rng(1) lim(2,3) ds(2) by (intro read_range_index_slice [OF pure wf idx ds(1)]) (auto simp: k_def)
  moreover have "take k (drop (unat offset) (concat ds)) = take len (drop (unat offset) full)"
    by (simp add: k_def ds(2) min_def)
  moreover have "alloc_total E" using pure by (simp add: reader_pure_def)
  ultimately show ?thesis
    by (auto simp: read_range_gen_def normalize_lookup_path_def n f rl allocate_def into_vec_def)
qed

section \<open>Verification\<close>

lemma read_decoded_Ok:
  assumes "reader_pure E A"
  shows "(\<exists>s'. read_decoded E A label l g s = (Ok x, s')) \<longleftrightarrow>
    (\<exists>d. chunk_reads E A (unat g) d \<and> length (s_decoded s) = length d)"
proof -
  have "(\<exists>s'. read_decoded E A label l g s = (Ok x, s')) \<longleftrightarrow>
      (\<exists>d t. read_chunk_by_index_into E A label l g (s_decoded s, s_stored s) = (Ok x, d, t))"
    by (auto simp: read_decoded_def split: prod.splits)
  then show ?thesis using read_chunk_reads [OF assms] by blast
qed

lemma verify_chunks_step:
  assumes "reader_pure E A" "archive_wf E A" "k < 2 ^ 32"
    and rest: "\<And>s. (\<exists>s'. verify_chunks E A e label ls s = (Ok x, s')) \<longleftrightarrow> R"
  shows "(\<exists>s'. verify_chunks E A e label (of_nat k # ls) s = (Ok x, s')) \<longleftrightarrow>
    (\<exists>d. chunk_reads E A (unat (en_first_chunk e) + k) d) \<and> R"
proof -
  let ?f = "unat (en_first_chunk e)"
  have rs: "resize_decoded E n s = (Ok u, s1) \<longleftrightarrow> s1 = s\<lparr> s_decoded := resize (s_decoded s) n \<rparr>" for n u s1
    using assms(1) by (auto simp: resize_decoded_def resize_buffer_cases reader_pure_def)
  have uk: "unat (of_nat k :: u32) = k" using assms(3) by (rule unat_of_nat_u32)
  have "(\<exists>s'. verify_chunks E A e label (of_nat k # ls) s = (Ok x, s')) \<longleftrightarrow>
    (\<exists>g s1 s2. unat g = ?f + k \<and> ?f + k < 2 ^ 32 \<and> unat g \<le> usize_max E \<and> unat g < length (a_chunks A)
      \<and> unat (c_original_size (a_chunks A ! unat g)) \<le> usize_max E
      \<and> s1 = s\<lparr> s_decoded := resize (s_decoded s) (unat (c_original_size (a_chunks A ! unat g))) \<rparr>
      \<and> read_decoded E A label (of_nat k) g s1 = (Ok (), s2)
      \<and> (\<exists>s'. verify_chunks E A e label ls s2 = (Ok x, s')))"
    by (auto simp: res_simps arith_simps rs uk)
  also have "\<dots> \<longleftrightarrow> (\<exists>d. chunk_reads E A (?f + k) d) \<and> R" (is "?l \<longleftrightarrow> ?r")
  proof
    assume ?l
    then show ?r unfolding rest by (metis read_decoded_Ok [OF assms(1)])
  next
    assume ?r
    then obtain d where d: "chunk_reads E A (?f + k) d" and R by blast
    note f = chunk_reads_facts [OF assms(1) d]
    have lt: "?f + k < 2 ^ 32" using f(1) assms(2) unfolding archive_wf_def by linarith
    define g :: u32 where "g = of_nat (?f + k)"
    have g: "unat g = ?f + k" unfolding g_def using lt by (rule unat_of_nat_u32)
    let ?s1 = "s\<lparr> s_decoded := resize (s_decoded s) (unat (c_original_size (a_chunks A ! unat g))) \<rparr>"
    have "\<exists>s2. read_decoded E A label (of_nat k) g ?s1 = (Ok (), s2)"
      using read_decoded_Ok [OF assms(1), of label "of_nat k" g ?s1 "()"] d f(2) g by auto
    then show ?l using g lt f \<open>R\<close> rest by metis
  qed
  finally show ?thesis .
qed

lemma verify_chunks_Ok:
  assumes "reader_pure E A" "archive_wf E A" "k \<le> n" "n < 2 ^ 32"
  shows "(\<exists>s'. verify_chunks E A e label (u32_range k n) s = (Ok x, s')) \<longleftrightarrow>
    (\<forall>i \<in> {k..<n}. \<exists>d. chunk_reads E A (unat (en_first_chunk e) + i) d)"
  using assms(3)
proof (induction "n - k" arbitrary: k s)
  case 0
  then show ?case by (simp add: u32_range_simps lift_st_def)
next
  case (Suc m)
  then have kn: "k < n" by simp
  have "(\<exists>s'. verify_chunks E A e label (u32_range (Suc k) n) s = (Ok x, s')) \<longleftrightarrow>
      (\<forall>i \<in> {Suc k..<n}. \<exists>d. chunk_reads E A (unat (en_first_chunk e) + i) d)" for s
    using Suc.hyps(2) kn by (intro Suc.hyps(1)) auto
  from verify_chunks_step [OF assms(1,2) _ this, of k s] kn assms(4)
  have "(\<exists>s'. verify_chunks E A e label (u32_range k n) s = (Ok x, s')) \<longleftrightarrow>
      (\<exists>d. chunk_reads E A (unat (en_first_chunk e) + k) d) \<and>
      (\<forall>i \<in> {Suc k..<n}. \<exists>d. chunk_reads E A (unat (en_first_chunk e) + i) d)"
    by (simp add: u32_range_simps(2) [OF kn])
  moreover have "{k..<n} = insert k {Suc k..<n}" using kn by auto
  ultimately show ?case by simp
qed

lemma entry_readable: "(\<exists>data. entry_reads E A e data) \<longleftrightarrow>
    (\<forall>i \<in> {0..<unat (en_chunk_count e)}. \<exists>d. chunk_reads E A (unat (en_first_chunk e) + i) d)" (is "?l \<longleftrightarrow> ?r")
proof
  assume ?l
  then show ?r by (force simp: entry_reads_def entry_parts_def)
next
  assume ?r
  then obtain f where "\<forall>i \<in> {0..<unat (en_chunk_count e)}. chunk_reads E A (unat (en_first_chunk e) + i) (f i)"
    by metis
  then have "entry_parts E A e (map f [0..<unat (en_chunk_count e)])" by (simp add: entry_parts_def)
  then show ?l by (auto simp: entry_reads_def)
qed

text \<open>Verification succeeds exactly if every entry of the archive can be read.\<close>

lemma verify_Ok:
  assumes "reader_pure E A" "archive_wf E A"
  shows "verify E A = Ok () \<longleftrightarrow> length (a_chunks A) \<le> unat (a_max_chunks_per_operation A)
    \<and> (\<forall>e \<in> set (a_entries A). \<exists>data. entry_reads E A e data)"
proof -
  have es: "(\<exists>s'. verify_entries E A es s = (Ok (), s')) \<longleftrightarrow> (\<forall>e \<in> set es. \<exists>data. entry_reads E A e data)" for es s
  proof (induction es arbitrary: s)
    case Nil
    then show ?case by (simp add: lift_st_def)
  next
    case (Cons e es)
    let ?label = "if a_paths_stripped A then LabelHash (asset_id_from_raw (en_path_hash e)) else LabelPath (en_path e)"
    have "(\<exists>s'. verify_chunks E A e ?label (u32_range 0 (unat (en_chunk_count e))) s = (Ok (), s'))
        \<longleftrightarrow> (\<exists>data. entry_reads E A e data)"
      unfolding entry_readable by (rule verify_chunks_Ok [OF assms]) auto
    then have "(\<exists>s'. verify_entries E A (e # es) s = (Ok (), s')) \<longleftrightarrow>
        (\<exists>data. entry_reads E A e data) \<and> (\<forall>e \<in> set es. \<exists>data. entry_reads E A e data)"
      using Cons.IH by (auto simp: Let_def res_simps)
    then show ?case by simp
  qed
  have cl: "length (a_chunks A) < 2 ^ 32" using assms(2) by (simp add: archive_wf_def)
  have "verify E A = Ok () \<longleftrightarrow> length (a_chunks A) \<le> unat (a_max_chunks_per_operation A)
      \<and> (\<exists>s'. verify_entries E A (a_entries A) default_scratch = (Ok (), s'))"
    using cl unat_of_nat_u32 [OF cl] unfolding verify_def
    by (cases "verify_entries E A (a_entries A) default_scratch") (auto simp: res_simps word_le_nat_alt)
  then show ?thesis using es by simp
qed

end
