(* ===== verification/Sample_Archive.thy ===== *)
theory Sample_Archive
  imports Reader_Correct
begin

text \<open>
  How the steps of \<open>open_with_limits\<close> compose, and one concrete archive: a debug archive
  with XOR protection that holds the asset \<open>a\<close> in two chunks of at most four bytes, the
  first of them compressed.  The properties of the reader are instantiated on it.
\<close>

section \<open>Composing the steps of opening\<close>

lemma open_intro:
  assumes "key \<noteq> []" "alloc_total E"
    and "src_read_exact_at S 0 (replicate 60 0) = (Ok (), header_bytes h)" "src_len S = Ok n"
    and "validate_header E h = Ok ()" "validate_limits E h (clamped l) = Ok ()"
    and "60 \<le> unat (h_toc_offset h)" "unat (h_toc_offset h) + unat (h_toc_size h) \<le> unat n"
    and "unat (h_alignment h) dvd unat (h_toc_offset h)"
    and "protection = (if bit (h_flags h) 5 then Aead else Xor)"
    and "aead_key = (if protection = Aead then Some (derive_key E key) else None)"
    and "open_toc E S key aead_key h = Ok plain"
    and "decode_toc E plain (h_entry_count h) (h_chunk_count h) (bit (h_flags h) 4)
           (max_path_bytes (clamped l)) (max_total_path_bytes (clamped l)) (max_single_asset_bytes (clamped l))
         = Ok (toc, chunks)"
    and "validate_layout E toc chunks (h_toc_offset h) (h_chunk_size h) (h_alignment h)
           (protection = Aead) (max_total_decompressed_bytes (clamped l)) = Ok ()"
    and "validate_index E (map entry_from toc) (build_index E (map entry_from toc)) (bit (h_flags h) 4) = Ok ()"
  shows "open_with_limits E S key l = Ok \<lparr> a_source = S, a_entries = map entry_from toc, a_chunks = chunks,
    a_index = build_index E (map entry_from toc), a_chunk_size = h_chunk_size h, a_alignment = h_alignment h,
    a_paths_stripped = bit (h_flags h) 4, a_protection = protection, a_aead_key = aead_key,
    a_max_chunks_per_operation = max_chunks_per_operation (clamped l) \<rparr>"
proof -
  have "unat (h_toc_offset h) + unat (h_toc_size h) < 2 ^ 64"
    using assms(8) by (rule le_unat_u64)
  then have add: "checked_add (h_toc_offset h) (h_toc_size h) = Some (h_toc_offset h + h_toc_size h)"
    "unat (h_toc_offset h + h_toc_size h) = unat (h_toc_offset h) + unat (h_toc_size h)"
    by (simp_all add: checked_add_Some unat_word_ariths)
  have hb: "read_header (header_bytes h) = Ok (h, [])" by (simp add: read_header_Ok)
  have "h_alignment h \<noteq> 0" using assms(5) by (auto simp: validate_header_Ok)
  then have al: "is_multiple_of (h_toc_offset h) (ucast (h_alignment h))"
    using assms(9) by (simp add: is_multiple_of_dvd)
  show ?thesis
    using assms(1-6,7,8) assms(10-15) add hb al
    by (simp add: open_with_limits_def Let_def HEADER_SIZE_def read_zeroed_def from_io_def flag_set word_le_nat_alt)
qed
section \<open>The sample archive\<close>

definition demo_chunks :: "chunk list" where
  "demo_chunks =
    [\<lparr> c_offset = 64, c_stored_size = 3, c_original_size = 4, c_checksum = sample_hash [9, 9, 9, 9], c_compressed = True \<rparr>,
     \<lparr> c_offset = 80, c_stored_size = 1, c_original_size = 1, c_checksum = sample_hash [5], c_compressed = False \<rparr>]"

definition demo_entry :: toc_entry where
  "demo_entry = \<lparr> e_path = [0x61], e_path_hash = sample_hash [0x61], e_original_size = 5, e_stored_size = 4,
     e_first_chunk = 0, e_chunk_count = 2 \<rparr>"

definition demo_toc :: bytes where
  "demo_toc = toc_bytes [demo_entry] demo_chunks"

definition demo_header :: header where
  "demo_header = \<lparr> h_version = 1, h_flags = 15, h_header_size = 60, h_alignment = 16, h_chunk_size = 4,
     h_entry_count = 1, h_chunk_count = 2, h_toc_offset = 96, h_toc_size = 114, h_toc_raw_size = 113,
     h_toc_hash = sample_hash demo_toc \<rparr>"

text \<open>Header, padding, the two stored chunks with padding, and the obfuscated table of contents.\<close>

definition demo_bytes :: bytes where
  "demo_bytes = header_bytes demo_header @ (replicate 4 0 @ [1, 9, 4] @ replicate 13 0 @ [5] @ replicate 15 0)
     @ map (\<lambda>b. b XOR 7) (0 # demo_toc)"

definition demo_source :: source where
  "demo_source = slice_source sample_env demo_bytes"

definition demo_archive :: archive where
  "demo_archive = \<lparr> a_source = demo_source, a_entries = [entry_from demo_entry], a_chunks = demo_chunks,
    a_index = [(AssetId (sample_hash [0x61]), 0)], a_chunk_size = 4, a_alignment = 16,
    a_paths_stripped = False, a_protection = Xor, a_aead_key = None, a_max_chunks_per_operation = 65536 \<rparr>"

lemma length_demo: "length demo_toc = 113" "length demo_bytes = 210"
  by (simp_all add: demo_toc_def demo_bytes_def length_toc_bytes length_header_bytes demo_entry_def demo_chunks_def)

lemma demo_max: "usize_max sample_env = 18446744073709551615"
  by (simp add: sample_env_def)

lemma demo_read:
  "unat offset + length dst \<le> 210 \<Longrightarrow>
   src_read_exact_at demo_source offset dst = (Ok (), take (length dst) (drop (unat offset) demo_bytes))"
  unfolding demo_source_def by (rule slice_src.read_in) (simp_all add: length_demo demo_max)

lemma demo_validate_header: "validate_header sample_env demo_header = Ok ()"
proof -
  have "count_ones (15 AND (HEADER_FLAG_TOC_XOR OR HEADER_FLAG_AEAD) :: u16) = 1"
    unfolding count_ones_protection by simp
  then show ?thesis
    by (auto simp: validate_header_Ok demo_header_def VERSION_def MAX_CHUNK_SIZE_def REQUIRED_HEADER_FLAGS_def
        KNOWN_HEADER_FLAGS_def HEADER_FLAG_TOC_LZ4_def HEADER_FLAG_CHUNKED_def HEADER_FLAG_XXH3_def HEADER_FLAG_TOC_XOR_def
        HEADER_FLAG_PATHS_STRIPPED_def HEADER_FLAG_AEAD_def MAX_TOC_STORED_SIZE_def MAX_TOC_RAW_SIZE_def demo_max
        intro!: exI [of _ 4])
qed

text \<open>The archive opens under the default limits of a runtime and under those of the tools.\<close>

definition sample_limits :: "archive_limits \<Rightarrow> bool" where
  "sample_limits l \<longleftrightarrow> l = runtime_default \<or> l = tooling_default"

lemma demo_validate_limits: "sample_limits l \<Longrightarrow> validate_limits sample_env demo_header (clamped l) = Ok ()"
  unfolding sample_limits_def
  by (elim disjE; hypsubst; rule validate_limits_intro)
    (simp_all add: demo_header_def clamped_def runtime_default_def tooling_default_def MAX_TOC_STORED_SIZE_def MAX_TOC_RAW_SIZE_def
      HARD_MAX_ENTRIES_def HARD_MAX_CHUNKS_def HARD_MAX_TOTAL_PATH_BYTES_def HARD_MAX_METADATA_BYTES_def
      metadata_cost_def sample_env_def min_def)

lemma xor_single: "xor_in_place (map (\<lambda>b. b XOR k) xs) [k] = Ok xs"
proof -
  have "map (\<lambda>j. map (\<lambda>b. b XOR k) xs ! j XOR [k] ! (j mod length [k])) [0..<length (map (\<lambda>b. b XOR k) xs)] = xs"
    by (rule nth_equalityI) (simp_all add: xor.assoc)
  then show ?thesis by (simp add: xor_in_place_eq)
qed

lemma sample_decompress:
  "decompress_block_exact sample_env (0 # plain) (length plain) what = Ok plain"
  by (simp add: decompress_block_exact_def decompress_into_exact_def sample_env_alloc)
    (simp add: sample_env_def sample_unpack_def put_range_def)

lemma demo_read_toc:
  "read_zeroed demo_source 96 114 = Ok (map (\<lambda>b. b XOR 7) (0 # demo_toc))"
proof -
  have "drop 96 demo_bytes = map (\<lambda>b. b XOR 7) (0 # demo_toc)"
    by (simp add: demo_bytes_def length_header_bytes)
  moreover have "length (map (\<lambda>b. b XOR 7) (0 # demo_toc)) = 114" by (simp add: length_demo)
  ultimately show ?thesis
    using demo_read [of 96 "replicate 114 0"] by (simp only: read_zeroed_def length_replicate)
      (simp add: from_io_def)
qed

lemma demo_open_toc: "open_toc sample_env demo_source [7] None demo_header = Ok demo_toc"
proof -
  have sizes: "u64_to_usize sample_env (h_toc_size demo_header) what = Ok 114"
    "u64_to_usize sample_env (h_toc_raw_size demo_header) what = Ok 113"
    "h_toc_offset demo_header = 96" "checksum sample_env demo_toc = h_toc_hash demo_header" for what
    by (simp_all add: u64_to_usize_def demo_header_def demo_max checksum_def) (simp add: sample_env_def)
  show ?thesis
    unfolding open_toc_def sizes demo_read_toc bind_res.simps option.case xor_single
      sample_decompress [of demo_toc, unfolded length_demo(1)]
    by (simp add: sample_env_alloc)
qed

lemma demo_path: "normalize_path sample_env [0x61] = Ok [0x61]"
  by (simp add: normalize_path_def is_sep_def slash_def backslash_def dot_def MAX_PATH_LEN_def
      MAX_PATH_SEGMENTS_def sample_env_alloc)

lemma demo_decode:
  assumes "sample_limits l"
  shows "decode_toc sample_env demo_toc (h_entry_count demo_header) (h_chunk_count demo_header) (bit (h_flags demo_header) 4)
     (max_path_bytes (clamped l))
     (max_total_path_bytes (clamped l)) (max_single_asset_bytes (clamped l))
   = Ok ([demo_entry], demo_chunks)"
proof -
  let ?l = "clamped l"
  have "entry_decodable sample_env False (max_path_bytes ?l) (max_single_asset_bytes ?l) demo_entry"
    by (simp add: entry_decodable_def demo_entry_def demo_path checksum_def)
      (use assms in \<open>auto simp: sample_env_def sample_limits_def clamped_def runtime_default_def tooling_default_def HARD_MAX_SINGLE_ASSET_BYTES_def
        HARD_MAX_TOTAL_DECOMPRESSED_BYTES_def HARD_MAX_PATH_BYTES_def MAX_PATH_LEN_def min_def\<close>)
  then have dec: "\<forall>e \<in> set [demo_entry]. entry_decodable sample_env False (max_path_bytes ?l) (max_single_asset_bytes ?l) e"
    by simp
  have paths: "(\<Sum>e\<leftarrow>[demo_entry]. length (e_path e)) \<le> unat (max_total_path_bytes ?l)"
    using assms
    by (auto simp: sample_limits_def demo_entry_def clamped_def runtime_default_def tooling_default_def HARD_MAX_TOTAL_PATH_BYTES_def)
  have fits: "length (toc_bytes [demo_entry] demo_chunks) \<le> usize_max sample_env"
    using length_demo(1) by (simp add: demo_toc_def demo_max)
  have counts: "length [demo_entry] < 2 ^ 32" "length demo_chunks < 2 ^ 32" by (simp_all add: demo_chunks_def)
  have h: "h_entry_count demo_header = of_nat (length [demo_entry])" "h_chunk_count demo_header = of_nat (length demo_chunks)"
    "bit (h_flags demo_header) 4 = False" by (simp_all add: demo_header_def demo_chunks_def)
  show ?thesis
    unfolding h demo_toc_def
    by (rule decode_toc_encoded [OF fits counts _ _ dec paths]) (simp_all add: sample_env_alloc)
qed

lemma demo_layout:
  assumes "sample_limits l"
  shows "validate_layout sample_env [demo_entry] demo_chunks 96 4 16 False (max_total_decompressed_bytes (clamped l))
   = Ok ()"
proof -
  let ?max = "unat (max_total_decompressed_bytes (clamped l))"
  have "5 \<le> ?max"
    using assms
    by (auto simp: sample_limits_def clamped_def runtime_default_def tooling_default_def HARD_MAX_TOTAL_DECOMPRESSED_BYTES_def min_def)
  moreover have "[0..<2] = [0, Suc 0]" "{..<Suc (Suc 0)} = {0, Suc 0}" by (auto simp: upt_rec)
  ultimately have "layout_ok [demo_entry] demo_chunks 96 4 16 False ?max"
    by (simp add: layout_ok_def chunks_ok_def chunk_ok_def chunk_payload_def chunk_end_def entry_ok_def
        entry_chunks_def entry_range_def entry_first_def entry_count_def demo_entry_def demo_chunks_def)
  moreover have cl: "length demo_chunks \<le> usize_max sample_env" by (simp add: demo_max demo_chunks_def)
  ultimately show ?thesis
    using validate_layout_Ok [OF cl, of "[demo_entry]" 96 4 16 False "max_total_decompressed_bytes (clamped l)"]
    by (simp add: sample_env_alloc)
qed

lemma demo_index: "build_index sample_env [entry_from demo_entry] = [(AssetId (sample_hash [0x61]), 0)]"
  by (simp add: build_index_def sample_env_def entry_from_def demo_entry_def asset_id_from_raw_def)

lemma demo_validate_index:
  "validate_index sample_env [entry_from demo_entry] [(AssetId (sample_hash [0x61]), 0)] (bit (h_flags demo_header) 4) = Ok ()"
  by (subst validate_index_Ok) (simp_all add: index_ok_def bucket_ok_def bucket_def sample_env_alloc demo_header_def)

lemma demo_open_with:
  assumes "sample_limits l"
  shows "open_with_limits sample_env demo_source [7] l
    = Ok (demo_archive\<lparr> a_max_chunks_per_operation := max_chunks_per_operation (clamped l) \<rparr>)"
proof -
  have hb: "src_read_exact_at demo_source 0 (replicate 60 0) = (Ok (), header_bytes demo_header)"
    using demo_read [of 0 "replicate 60 0"] by (simp add: demo_bytes_def length_header_bytes)
  have len: "src_len demo_source = Ok 210"
    using slice_src.len [of demo_bytes] by (simp add: demo_source_def length_demo)
  have "bit (h_flags demo_header) 4 = False" by (simp add: demo_header_def)
  moreover have "h_chunk_size demo_header = 4" "h_alignment demo_header = 16" "bit (h_flags demo_header) 5 = False"
    "h_toc_offset demo_header = 96" "h_toc_size demo_header = 114"
    by (simp_all add: demo_header_def)
  ultimately show ?thesis
    using open_intro [of "[7]" sample_env demo_source demo_header 210 l Xor None demo_toc
        "[demo_entry]" demo_chunks, OF _ sample_env_alloc hb len demo_validate_header demo_validate_limits [OF assms] _ _ _ _ _
        demo_open_toc demo_decode [OF assms]] demo_layout [OF assms] demo_validate_index
    by (simp add: demo_archive_def demo_index)
qed

lemma demo_open: "open_with_limits sample_env demo_source [7] runtime_default = Ok demo_archive"
proof -
  have "max_chunks_per_operation (clamped runtime_default) = 65536"
    by (simp add: clamped_def runtime_default_def HARD_MAX_CHUNKS_PER_OPERATION_def HARD_MAX_CHUNKS_def min_def)
  then show ?thesis using demo_open_with [of runtime_default] by (simp add: sample_limits_def demo_archive_def)
qed

section \<open>The sample archive satisfies the hypotheses of the reader's theorems\<close>

lemma demo_wf: "archive_wf sample_env demo_archive"
  by (rule open_with_limits_wf [OF sample_env_safe demo_open])

lemma demo_source_ok: "source_safe demo_source" "source_stable demo_source"
  unfolding demo_source_def using slice_src.safe slice_src.stable [of demo_bytes sample_env]
  by (simp_all add: length_demo demo_max)

lemma demo_pure: "reader_pure sample_env demo_archive"
  by (simp add: reader_pure_def sample_env_safe sample_env_pure sample_env_alloc demo_archive_def demo_source_ok)

lemma demo_safe: "source_safe (a_source demo_archive)"
  by (simp add: demo_archive_def demo_source_ok)

lemma demo_path_matches: "path_matches sample_env demo_archive [0x61] 0"
  by (simp add: path_matches_def demo_archive_def entry_from_def demo_entry_def)

lemma replicate_3_4: "replicate 3 (0 :: u8) = [0, 0, 0]" "replicate 4 (0 :: u8) = [0, 0, 0, 0]"
  "replicate 4 (9 :: u8) = [9, 9, 9, 9]"
  by (simp_all add: numeral_eq_Suc)

lemma demo_chunk_reads:
  "chunk_reads sample_env demo_archive 0 [9, 9, 9, 9]" "chunk_reads sample_env demo_archive 1 [5]"
proof -
  have rd: "src_read_exact_at demo_source 64 [0, 0, 0] = (Ok (), [1, 9, 4])"
    "src_read_exact_at demo_source 80 [0] = (Ok (), [5])"
    using demo_read [of 64 "[0, 0, 0]"] demo_read [of 80 "[0]"]
    by (simp_all add: demo_bytes_def length_header_bytes)
  have unpack: "decompress_into_exact sample_env [1, 9, 4] what [0, 0, 0, 0] = (Ok (), [9, 9, 9, 9])" for what
    by (simp add: decompress_into_exact_def sample_env_def sample_unpack_def put_range_def replicate_3_4)
  have ck: "checksum sample_env d = sample_hash d" for d by (simp add: checksum_def sample_env_def)
  have "read_stored_into sample_env demo_archive 0 (demo_chunks ! 0) ([0, 0, 0, 0], []) = (Ok (), [9, 9, 9, 9], [1, 9, 4])"
    using rd(1) unpack
    by (simp add: read_stored_into_Ok [OF sample_env_alloc] demo_archive_def demo_source_ok demo_max demo_chunks_def
        resize_def replicate_3_4)
  then show "chunk_reads sample_env demo_archive 0 [9, 9, 9, 9]"
    by (simp add: chunk_reads_def read_chunk_Ok ck demo_archive_def demo_max read_payload_into_def)
      (simp add: demo_chunks_def)
  show "chunk_reads sample_env demo_archive 1 [5]"
    using rd(2)
    by (simp add: chunk_reads_def read_chunk_Ok ck demo_archive_def demo_max read_payload_into_def demo_chunks_def from_io_def)
qed

lemma demo_entry_reads: "entry_reads sample_env demo_archive (entry_from demo_entry) [9, 9, 9, 9, 5]"
  unfolding entry_reads_def using demo_chunk_reads
  by (intro exI [of _ "[[9, 9, 9, 9], [5]]"]) (simp add: entry_parts_def entry_from_def demo_entry_def less_Suc_eq)

lemma demo_entry_at: "a_entries demo_archive ! 0 = entry_from demo_entry" "e_chunk_count demo_entry = 2"
  "e_original_size demo_entry = 5" "a_max_chunks_per_operation demo_archive = 65536"
  by (simp_all add: demo_archive_def entry_from_def demo_entry_def)

lemma demo_read_path: "read sample_env demo_archive [0x61] = Ok [9, 9, 9, 9, 5]"
  unfolding read_Ok [OF demo_pure demo_wf]
  by (intro exI [of _ "[0x61]"] exI [of _ "0::nat"])
    (simp add: demo_path demo_path_matches demo_entry_at demo_entry_reads demo_max)

end
