(* ===== verification/Reader_Ranges.thy ===== *)
theory Reader_Ranges
  imports Reader_Safety
begin

text \<open>
  Which ranges are refused with \<open>InvalidRange\<close>: those that \<open>range_len\<close> refuses.  What follows it
  in a range read fails in other ways only, so that a failing source, a wrong checksum or a
  limit is never reported as a bad range.
\<close>

section \<open>Results that do not refuse a range\<close>

named_theorems in_range "introduction rules for results that are not InvalidRange"

abbreviation refused :: "('a, error) res" where
  "refused \<equiv> Err InvalidRange"

lemma in_range_res [in_range]:
  "Ok x \<noteq> refused" "Panic \<noteq> refused" "e \<noteq> InvalidRange \<Longrightarrow> Err e \<noteq> refused"
  "(\<not> c \<Longrightarrow> e \<noteq> InvalidRange) \<Longrightarrow> ensure c e \<noteq> refused"
  "(found = None \<Longrightarrow> e \<noteq> InvalidRange) \<Longrightarrow> ok_or found e \<noteq> refused"
  "from_io r \<noteq> refused" "index_at xs i \<noteq> refused" "slice_to xs n \<noteq> refused"
  "div_or_panic a b \<noteq> refused" "sub_or_panic a b \<noteq> refused"
  "usize_to_u64 n what \<noteq> refused" "u64_to_usize E v what \<noteq> refused" "allocate E n what \<noteq> refused"
  by (auto simp: ensure_def ok_or_def from_io_def index_at_def slice_to_def div_or_panic_def sub_or_panic_def
      usize_to_u64_def u64_to_usize_def allocate_def split: option.splits) (cases r; simp)

lemma in_range_bind [in_range]:
  "r \<noteq> refused \<Longrightarrow> (\<And>x. r = Ok x \<Longrightarrow> k x \<noteq> refused) \<Longrightarrow> bind_res r k \<noteq> refused"
  by (cases r) simp_all

lemma in_range_bind_st [in_range]:
  "fst (m s) \<noteq> refused \<Longrightarrow> (\<And>x t. m s = (Ok x, t) \<Longrightarrow> fst (k x t) \<noteq> refused) \<Longrightarrow> fst (bind_st m k s) \<noteq> refused"
  by (auto simp: bind_st_def split: prod.splits res.splits)

lemma in_range_lift [in_range]: "r \<noteq> refused \<Longrightarrow> fst (lift_st r s) \<noteq> refused"
  by (simp add: lift_st_def)

lemma in_range_cases [in_range]:
  "(c \<Longrightarrow> r \<noteq> refused) \<Longrightarrow> (\<not> c \<Longrightarrow> r' \<noteq> refused) \<Longrightarrow> (if c then r else r') \<noteq> refused"
  "(\<And>a b. p = (a, b) \<Longrightarrow> f a b \<noteq> refused) \<Longrightarrow> (case p of (a, b) \<Rightarrow> f a b) \<noteq> refused"
  "(x = None \<Longrightarrow> r \<noteq> refused) \<Longrightarrow> (\<And>v. x = Some v \<Longrightarrow> g v \<noteq> refused) \<Longrightarrow> (case x of None \<Rightarrow> r | Some v \<Rightarrow> g v) \<noteq> refused"
  "(\<And>a b. p = (a, b) \<Longrightarrow> fst (h a b s) \<noteq> refused) \<Longrightarrow> fst ((case p of (a, b) \<Rightarrow> h a b) s) \<noteq> refused"
  by (simp_all split: prod.split option.split)

section \<open>Reading chunks\<close>

lemma decompress_in_range [in_range]: "fst (decompress_into_exact E data what out) \<noteq> refused"
  by (auto simp: decompress_into_exact_def split: prod.split sum.split)

lemma chunk_at_in_range [in_range]: "chunk_at E A g \<noteq> refused"
  unfolding chunk_at_def by (intro in_range) simp_all

lemma plain_of_stored_in_range [in_range]: "plain_of_stored E A g n stored \<noteq> refused"
  unfolding plain_of_stored_def decrypt_def by (intro in_range) simp_all

lemma fill_stored_in_range [in_range]: "fst (fill_stored A c n s) \<noteq> refused"
  by (auto simp: fill_stored_def slice_to_def in_range_res(6) split: prod.splits)

lemma unpack_into_in_range [in_range]: "fst (unpack_into E c plain s) \<noteq> refused"
  using decompress_in_range [of E plain "''decompressed chunk size mismatch''" "fst s"]
  by (auto simp: unpack_into_def split: prod.splits)

lemma resize_buffer_in_range [in_range]: "fst (resize_buffer E n what b) \<noteq> refused"
  by (simp add: resize_buffer_def)

lemma read_stored_in_range [in_range]: "fst (read_stored_into E A g c s) \<noteq> refused"
  unfolding read_stored_into_def
proof (intro in_range)
  show "fst (case s of (dst, stored) \<Rightarrow> case resize_buffer E n ''stored chunk allocation'' stored of
      (r, stored') \<Rightarrow> (r, dst, stored')) \<noteq> refused" for n and s :: "bytes \<times> bytes"
    using resize_buffer_in_range [of E n "''stored chunk allocation''" "snd s"] by (auto split: prod.splits)
  show "fst (case s of (dst, stored) \<Rightarrow> (plain_of_stored E A g n stored, dst, stored)) \<noteq> refused" for n s
    using plain_of_stored_in_range by (auto split: prod.splits)
qed

lemma read_payload_in_range [in_range]: "fst (read_payload_into E A g c s) \<noteq> refused"
  using read_stored_in_range by (auto simp: read_payload_into_def in_range_res(6) split: prod.splits)

lemma read_chunk_in_range [in_range]: "fst (read_chunk_by_index_into E A label l g s) \<noteq> refused"
  unfolding read_chunk_by_index_into_def ensure_chunk_operation_limit_def
  by (intro in_range) (auto simp: ensure_def split: prod.splits)

section \<open>Reading ranges\<close>

lemma resize_decoded_in_range: "fst (on_snd (resize_decoded E n) s) \<noteq> refused"
  using resize_buffer_in_range [of E n "''decoded chunk allocation''"]
  by (auto simp: on_snd_def resize_decoded_def split: prod.splits) (metis fst_conv)

lemma read_decoded_in_range: "fst (on_snd (read_decoded E A label l g) s) \<noteq> refused"
  using read_chunk_in_range [of E A label l g]
  by (auto simp: on_snd_def read_decoded_def split: prod.splits) (metis fst_conv)

lemma copy_decoded_in_range: "fst (copy_decoded w we ts te s) \<noteq> refused"
  by (auto simp: copy_decoded_def split: prod.splits option.splits)

lemma range_slice_in_range [in_range]: "range_slice E cs offset en l sz \<noteq> refused"
  unfolding range_slice_def by (intro in_range) simp_all

lemma read_range_chunks_in_range [in_range]: "fst (read_range_chunks E A entry label offset en ls w s) \<noteq> refused"
proof (induction ls arbitrary: w s)
  case (Cons l ls)
  show ?case
    unfolding read_range_chunks.simps
    by (intro in_range resize_decoded_in_range read_decoded_in_range copy_decoded_in_range Cons.IH) simp_all
qed (simp add: lift_st_def)

lemma read_range_index_in_range:
  assumes "unat offset + length dst < 2 ^ 64"
  shows "fst (read_range_index_into E A idx label offset (dst, scratch)) \<noteq> refused"
proof -
  have "fst (read_range_nonempty E A idx label offset (length dst) (dst, scratch)) \<noteq> refused"
    unfolding read_range_nonempty_def using assms
    by (intro in_range) (auto simp: arith_simps lift_st_def usize_to_u64_def unat_of_nat_u64)
  then show ?thesis by (simp add: read_range_index_into_def)
qed

section \<open>The decision\<close>

lemma range_chunk_count_in_range: "unat offset + n < 2 ^ 64 \<Longrightarrow> range_chunk_count A offset n \<noteq> refused"
  unfolding range_chunk_count_def Let_def
  by (intro in_range) (auto simp: arith_simps)

lemma range_len_errors:
  assumes "idx < length (a_entries A)" "sz = unat (en_original_size (a_entries A ! idx))"
  shows "sz < unat offset \<Longrightarrow> range_len E A idx offset len exact = Err InvalidRange"
    "unat offset < sz \<Longrightarrow> len < 2 ^ 64 \<Longrightarrow> 2 ^ 64 \<le> unat offset + len \<Longrightarrow>
       range_len E A idx offset len exact = Err InvalidRange"
    "exact \<Longrightarrow> sz < unat offset + len \<Longrightarrow> len < 2 ^ 64 \<Longrightarrow> range_len E A idx offset len exact = Err InvalidRange"
proof -
  let ?s = "en_original_size (a_entries A ! idx)"
  show "sz < unat offset \<Longrightarrow> range_len E A idx offset len exact = Err InvalidRange"
    using assms by (simp add: range_len_def index_at_def word_less_nat_alt)
  have len64: "len < 2 ^ 64 \<Longrightarrow> usize_to_u64 len what = Ok (of_nat len)" "len < 2 ^ 64 \<Longrightarrow> unat (of_nat len :: u64) = len" for what
    by (simp_all add: usize_to_u64_def unat_of_nat_u64)
  show "range_len E A idx offset len exact = Err InvalidRange"
    if "unat offset < sz" "len < 2 ^ 64" "2 ^ 64 \<le> unat offset + len"
  proof -
    have "len \<noteq> 0"
    proof
      assume "len = 0"
      then show False using that(3) unat_bounds(1) [of offset] by simp
    qed
    moreover have "\<not> ?s < offset" "offset \<noteq> ?s" using that assms(2) by (auto simp: word_less_nat_alt)
    moreover have "checked_add offset (of_nat len) = None" using that by (simp add: checked_add_None len64)
    ultimately show ?thesis using assms that by (simp add: range_len_def index_at_def len64 Let_def)
  qed
  show "range_len E A idx offset len exact = Err InvalidRange"
    if "exact" "sz < unat offset + len" "len < 2 ^ 64"
  proof (cases "sz \<le> unat offset")
    case True
    then show ?thesis using assms that
      by (cases "sz = unat offset") (auto simp: range_len_def index_at_def word_less_nat_alt word_unat_eq_iff Let_def)
  next
    case False
    then have "len \<noteq> 0" "\<not> ?s < offset" "offset \<noteq> ?s" using that assms(2) by (auto simp: word_less_nat_alt)
    moreover have "checked_add offset (of_nat len) = Some e \<Longrightarrow> \<not> e \<le> ?s" for e
      using that assms(2) by (auto simp: checked_add_Some word_le_nat_alt len64)
    ultimately show ?thesis using assms that
      by (cases "checked_add offset (of_nat len :: u64)") (auto simp: range_len_def index_at_def len64 Let_def)
  qed
qed

lemma range_len_refuses:
  assumes "idx < length (a_entries A)" "len < 2 ^ 64"
  shows "range_len E A idx offset len exact = refused \<longleftrightarrow>
     (if exact then unat (en_original_size (a_entries A ! idx)) < unat offset + len
      else unat (en_original_size (a_entries A ! idx)) < unat offset
        \<or> unat offset < unat (en_original_size (a_entries A ! idx)) \<and> 2 ^ 64 \<le> unat offset + len)"
    (is "_ \<longleftrightarrow> ?bad")
proof
  assume ?bad
  then show "range_len E A idx offset len exact = refused"
    using range_len_errors [OF assms(1) refl] assms(2) by (auto split: if_splits)
next
  let ?size = "en_original_size (a_entries A ! idx)"
  show "range_len E A idx offset len exact = refused \<Longrightarrow> ?bad"
  proof (rule ccontr)
    assume "\<not> ?bad"
    then have start: "unat offset \<le> unat ?size" and fits: "exact \<Longrightarrow> unat offset + len \<le> unat ?size"
      and inside: "unat offset < unat ?size \<Longrightarrow> unat offset + len < 2 ^ 64"
      using le_unat_u64 [of "unat offset + len" ?size] by (auto split: if_splits)
    have "range_len E A idx offset len exact \<noteq> refused"
      unfolding range_len_def Let_def
      using start fits inside assms
      by (intro in_range range_chunk_count_in_range)
        (auto simp: res_simps arith_simps word_less_nat_alt word_unat_eq_iff word_le_nat_alt ensure_chunk_operation_limit_def
           ensure_def split: if_splits)
    then show "range_len E A idx offset len exact = refused \<Longrightarrow> False" by simp
  qed
qed

lemma range_rest_in_range:
  assumes "range_len E A idx offset len exact = Ok n"
  shows "bind_res (allocate E n what) (\<lambda>out.
      into_vec (read_range_index_into E A idx label offset) out scratch) \<noteq> refused"
proof (intro in_range)
  fix out assume "allocate E n what = Ok out"
  then have "length out = n" by (auto simp: allocate_def res_simps)
  moreover have "unat offset + n < 2 ^ 64"
    by (rule le_unat_u64 [OF range_len_le(2) [OF assms]])
  ultimately have "fst (read_range_index_into E A idx label offset (out, scratch)) \<noteq> refused"
    by (intro read_range_index_in_range) simp
  then show "into_vec (read_range_index_into E A idx label offset) out scratch \<noteq> refused"
    unfolding into_vec_def by (intro in_range) auto
qed

end
