(* ===== verification/Reader_Properties.thy ===== *)
theory Reader_Properties
  imports Sample_Archive Reader_Ranges
begin

text \<open>
  The properties of the archive reader, each with its instance on the sample archive: what
  opening establishes, that no operation panics or changes the length of a caller's buffer,
  how entries are looked up, and what reads, range reads and verification return.
\<close>

section \<open>Opening\<close>

text \<open>
  C7: opening an archive is total and establishes the reader's invariant.  For every byte
  string a source may deliver and all limits, \<open>open_with_limits\<close> does not panic, and an
  archive it returns is well formed: its chunks and entries form a valid layout, its index
  is a sorted permutation of the entries' hashes with small, unambiguous buckets, and in a
  debug archive every path is normalised and has the recorded hash.
\<close>

theorem open_establishes_invariant:
  assumes "env_safe E" and "source_safe S"
  shows "case open_with_limits E S key l of Ok A \<Rightarrow> archive_wf E A \<and> a_source A = S | Err e \<Rightarrow> True | Panic \<Rightarrow> False"
  using open_with_limits_no_panic [OF assms, of key l] open_with_limits_wf [OF assms(1), of S key l]
  by (auto split: res.splits elim: open_steps)

theorem open_establishes_invariant_witness:
  "case open_with_limits sample_env demo_source [7] runtime_default of
     Ok A \<Rightarrow> archive_wf sample_env A \<and> a_source A = demo_source | Err e \<Rightarrow> True | Panic \<Rightarrow> False"
  by (rule open_establishes_invariant [OF sample_env_safe demo_source_ok(1)])

text \<open>
  C19: an opened archive is within its limits, the hard ones included: it has at most a
  million entries and eight million chunks, no entry above the asset limit, its contents are
  at most the total limit, and no operation may touch more chunks than allowed.
\<close>

theorem open_respects_limits:
  assumes "env_safe E" and "open_with_limits E S key l = Ok A"
  shows "length (a_entries A) \<le> min (unat (max_entries l)) 1000000
     \<and> length (a_chunks A) \<le> min (unat (max_chunks l)) 8000000
     \<and> (\<forall>e \<in> set (a_entries A). unat (en_original_size e) \<le> min (unat (max_single_asset_bytes l)) (2 ^ 33))
     \<and> (\<Sum>c\<leftarrow>a_chunks A. unat (c_original_size c)) \<le> min (unat (max_total_decompressed_bytes l)) (2 ^ 33)
     \<and> unat (a_max_chunks_per_operation A) \<le> min (unat (max_chunks_per_operation l)) 8000000"
proof -
  from assms(2) obtain hb hdr rest plain toc where
    vl: "validate_limits E hdr (clamped l) = Ok ()"
    and ot: "open_toc E S key (a_aead_key A) hdr = Ok plain"
    and dt: "decode_toc E plain (h_entry_count hdr) (h_chunk_count hdr) (a_paths_stripped A)
        (max_path_bytes (clamped l)) (max_total_path_bytes (clamped l)) (max_single_asset_bytes (clamped l))
      = Ok (toc, a_chunks A)"
    and vy: "validate_layout E toc (a_chunks A) (h_toc_offset hdr) (h_chunk_size hdr) (h_alignment hdr)
        (a_protection A = Aead) (max_total_decompressed_bytes (clamped l)) = Ok ()"
    and es: "a_entries A = map entry_from toc"
    and op: "a_max_chunks_per_operation A = max_chunks_per_operation (clamped l)"
    by (rule open_steps)
  note plain = open_toc_Ok [OF assms(1) ot]
  from decode_toc_inv [OF dt] plain have n: "length toc = unat (h_entry_count hdr)"
    "length (a_chunks A) = unat (h_chunk_count hdr)"
    and ms: "\<forall>e \<in> set toc. e_original_size e \<le> max_single_asset_bytes (clamped l)"
    by metis+
  have "archive_wf E A" by (rule open_with_limits_wf [OF assms])
  then have "length (a_chunks A) \<le> usize_max E" by (simp add: archive_wf_def)
  then have tot: "(\<Sum>c\<leftarrow>a_chunks A. unat (c_original_size c)) \<le> unat (max_total_decompressed_bytes (clamped l))"
    using vy by (simp add: validate_layout_Ok layout_ok_def chunks_ok_def)
  show ?thesis
    using validate_limits_Ok(3,4) [OF vl] ms tot
    by (auto simp: n es op word_le_nat_alt clamped_def min_def HARD_MAX_ENTRIES_def HARD_MAX_CHUNKS_def
        HARD_MAX_SINGLE_ASSET_BYTES_def HARD_MAX_TOTAL_DECOMPRESSED_BYTES_def
        HARD_MAX_CHUNKS_PER_OPERATION_def split: if_splits)
qed

theorem open_respects_limits_witness:
  "length (a_entries demo_archive) \<le> min (unat (max_entries runtime_default)) 1000000"
  using open_respects_limits [OF sample_env_safe demo_open] by simp

section \<open>Safety\<close>

text \<open>
  C17: no operation of an open archive panics.  Lookups, whole and partial reads and
  verification return a value or an error for every source, even one that fails or returns
  different bytes each time: no index, slice, subtraction or division goes wrong.
\<close>

theorem reader_never_panics:
  assumes "env_safe E" and "source_safe (a_source A)" and "archive_wf E A"
  shows "entry_of_path E A path \<noteq> Panic \<and> entry_by_id A a \<noteq> Panic \<and> try_contains E A path \<noteq> Panic
     \<and> contains E A path \<noteq> Panic \<and> read E A path \<noteq> Panic \<and> read_by_id E A a \<noteq> Panic
     \<and> read_chunk E A path i \<noteq> Panic \<and> read_range E A path offset len \<noteq> Panic
     \<and> read_range_exact E A path offset len \<noteq> Panic \<and> verify E A \<noteq> Panic"
  unfolding read_range_def read_range_exact_def
  by (intro conjI lookups_no_panic [OF assms(3)] reads_no_panic [OF assms] verify_no_panic [OF assms(1,2)])

theorem reader_never_panics_witness:
  "read sample_env demo_archive [0x61] \<noteq> Panic \<and> verify sample_env demo_archive \<noteq> Panic"
  using reader_never_panics [OF sample_env_safe demo_safe demo_wf, of "[0x61]"] by simp

text \<open>
  C18: the reads into a caller's buffer neither panic nor change its length, whether they
  succeed or fail, and a range read reports at most that length.
\<close>

theorem reads_keep_buffer_length:
  assumes "env_safe E" and "source_safe (a_source A)" and "archive_wf E A"
  shows "(case read_into E A path dst of (r, dst') \<Rightarrow> r \<noteq> Panic \<and> length dst' = length dst)
     \<and> (case read_chunk_into E A path i dst of (r, dst') \<Rightarrow> r \<noteq> Panic \<and> length dst' = length dst)
     \<and> (case read_range_into E A path offset dst of (r, dst') \<Rightarrow>
          r \<noteq> Panic \<and> length dst' = length dst \<and> (\<forall>n. r = Ok n \<longrightarrow> n \<le> length dst))"
  using wp_read_into_with_scratch [OF assms, of path dst default_scratch]
    wp_read_chunk_into_with_scratch [OF assms, of path i dst default_scratch]
    wp_read_range_with_scratch [OF assms, of path offset dst default_scratch]
  by (auto simp: read_into_def read_chunk_into_def read_range_into_def wp_st_def split: prod.splits res.splits)

theorem reads_keep_buffer_length_witness:
  "case read_into sample_env demo_archive [0x61] [1, 2] of (r, dst') \<Rightarrow> r \<noteq> Panic \<and> length dst' = length [1, 2 :: u8]"
  using reads_keep_buffer_length [OF sample_env_safe demo_safe demo_wf, where path = "[0x61]" and dst = "[1, 2]",
    THEN conjunct1] .

section \<open>Lookup\<close>

text \<open>
  C27: lookup by path is sound, complete and unambiguous.  It finds an entry exactly if the
  path normalises and an entry matches it (by path in a debug archive, by hash in a
  production one), and no two entries match the same path; with no match it reports the
  normalised path.
\<close>

theorem lookup_by_path:
  assumes "archive_wf E A" and "normalize_path E path = Ok normalized"
  shows "(entry_of_path E A path = Ok e \<longleftrightarrow> (\<exists>i. path_matches E A normalized i \<and> e = a_entries A ! i))
     \<and> (\<forall>i j. path_matches E A normalized i \<and> path_matches E A normalized j \<longrightarrow> i = j)
     \<and> ((\<nexists>i. path_matches E A normalized i) \<longrightarrow> entry_of_path E A path = Err (NotFound normalized))
     \<and> (try_contains E A path = Ok True \<longleftrightarrow> (\<exists>i. path_matches E A normalized i))"
proof -
  have "entry_of_path E A path = Ok e \<longleftrightarrow> (\<exists>i. path_matches E A normalized i \<and> e = a_entries A ! i)"
    using assms(2) by (auto simp: entry_of_path_def normalize_lookup_path_def res_simps index_at_def
        find_normalized_Ok [OF assms(1)] path_matches_def)
  then show ?thesis
    using assms path_matches_unique [OF assms(1)] find_normalized_cases [OF assms(1), of normalized]
    by (auto simp: entry_of_path_def try_contains_def normalize_lookup_path_def split: if_splits)
qed

theorem lookup_by_path_witness: "entry_of_path sample_env demo_archive [0x61] = Ok (entry_from demo_entry)"
  using lookup_by_path [OF demo_wf demo_path, of "entry_from demo_entry"] demo_path_matches demo_entry_at(1) by metis

text \<open>
  C30: lookup by identifier.  It returns the only entry with that hash; no entry gives
  \<open>NotFound\<close> with the hash in hexadecimal, several give \<open>HashCollision\<close>.
\<close>

theorem lookup_by_id:
  assumes "archive_wf E A"
  shows "entry_by_id A a =
    (let matches = {i. i < length (a_entries A) \<and> en_path_hash (a_entries A ! i) = asset_id_get a} in
     if matches = {} then Err (NotFound (hash_label (asset_id_get a)))
     else if card matches = 1 then Ok (a_entries A ! the_elem matches)
     else Err (HashCollision (asset_id_get a)))"
proof -
  have m: "{i. i < length (a_entries A) \<and> en_path_hash (a_entries A ! i) = asset_id_get a} = id_matches A a"
    by (cases a) (auto simp: id_matches_def)
  have "the_elem (id_matches A a) < length (a_entries A)" if "card (id_matches A a) = 1"
  proof -
    from that obtain i where "id_matches A a = {i}" by (rule card_1_singletonE)
    moreover from this have "i < length (a_entries A)" by (auto simp: id_matches_def)
    ultimately show ?thesis by simp
  qed
  then show ?thesis
    unfolding m Let_def entry_by_id_def find_by_id_cases [OF assms] by (auto simp: index_at_def)
qed

theorem lookup_by_id_witness: "entry_by_id demo_archive (AssetId 99) = Err (NotFound (hash_label 99))"
proof -
  have "sample_hash [0x61] \<noteq> 99" by (simp add: sample_hash_def)
  then show ?thesis
    using lookup_by_id [OF demo_wf, of "AssetId 99"]
    by (simp add: demo_archive_def entry_from_def demo_entry_def Let_def split: if_splits)
qed

section \<open>Reading\<close>

text \<open>
  C8: whole reads.  \<open>read\<close> succeeds exactly if the path leads to an entry whose chunk count
  is allowed, whose size fits memory and whose chunks can all be read, and it returns the
  concatenation of the chunks; that has the size the table of contents states.
\<close>

theorem read_characterisation:
  assumes "reader_pure E A" and "archive_wf E A"
  shows "read E A path = Ok d \<longleftrightarrow>
    (\<exists>n i ds. normalize_path E path = Ok n \<and> path_matches E A n i
       \<and> en_chunk_count (a_entries A ! i) \<le> a_max_chunks_per_operation A
       \<and> unat (en_original_size (a_entries A ! i)) \<le> usize_max E
       \<and> entry_parts E A (a_entries A ! i) ds \<and> d = concat ds
       \<and> length d = unat (en_original_size (a_entries A ! i)))"
  unfolding read_Ok [OF assms] entry_reads_def by blast

theorem read_characterisation_witness:
  "\<exists>ds. entry_parts sample_env demo_archive (a_entries demo_archive ! 0) ds \<and> [9, 9, 9, 9, 5] = concat ds"
proof -
  have "path_matches sample_env demo_archive n i \<Longrightarrow> i = 0" for n i
    by (simp add: path_matches_def demo_archive_def)
  then show ?thesis
    using read_characterisation [OF demo_pure demo_wf, THEN iffD1, OF demo_read_path] by blast
qed

text \<open>
  C20: integrity.  What a chunk read delivers has the checksum and the size that the table of
  contents records for the chunk; so a source that was tampered with yields an error or
  bytes with the same XXH3 value.
\<close>

theorem chunk_reads_are_checked:
  assumes "env_safe E" and "source_safe (a_source A)"
    and "read_chunk_by_index_into E A label local_chunk global_chunk (dst, stored) = (Ok (), d, t)"
  shows "unat global_chunk < length (a_chunks A)
     \<and> length d = unat (c_original_size (a_chunks A ! unat global_chunk))
     \<and> checksum E d = c_checksum (a_chunks A ! unat global_chunk) \<and> length d = length dst"
  using wp_Ok [OF wp_read_chunk [OF assms(1,2)] assms(3)] by simp

theorem chunk_reads_are_checked_witness:
  "\<exists>d. checksum sample_env d = c_checksum (a_chunks demo_archive ! 1)"
proof -
  obtain t where "read_chunk_by_index_into sample_env demo_archive (LabelPath []) 0 1 (replicate 1 0, []) = (Ok (), [5], t)"
    using demo_chunk_reads(2) by (auto simp: chunk_reads_def)
  from chunk_reads_are_checked [OF sample_env_safe demo_safe this] show ?thesis by auto
qed

text \<open>
  C9: range reads are slices.  Whenever \<open>read\<close> returns the asset, \<open>read_range\<close> at an offset
  inside it returns that slice of it, cut off at the end; \<open>read_range_exact\<close> returns it in
  full, and fails if it does not lie inside the asset.  Neither depends on how the asset is
  cut into chunks.
\<close>

theorem range_reads_slice:
  assumes "reader_pure E A" and "archive_wf E A" and "read E A path = Ok full"
    and "unat offset \<le> length full" and "unat offset + len < 2 ^ 64"
  shows "read_range E A path offset len = Ok (take len (drop (unat offset) full))
     \<and> (unat offset + len \<le> length full \<longrightarrow>
          read_range_exact E A path offset len = Ok (take len (drop (unat offset) full)))"
  unfolding read_range_def read_range_exact_def
  using read_range_gen_slice [OF assms(1-5), of False] read_range_gen_slice [OF assms(1-5), of True] by blast

theorem range_reads_slice_witness:
  "read_range sample_env demo_archive [0x61] 3 7 = Ok [9, 5]
   \<and> read_range_exact sample_env demo_archive [0x61] 3 2 = Ok [9, 5]"
  using range_reads_slice [OF demo_pure demo_wf demo_read_path, of 3 7]
    range_reads_slice [OF demo_pure demo_wf demo_read_path, of 3 2] by simp

text \<open>
  C33: which ranges are refused.  For an entry that is found, \<open>read_range_exact\<close> reports
  \<open>InvalidRange\<close> exactly if the range does not lie inside the asset.  \<open>read_range\<close>, which clips
  at the end of the asset, reports it exactly if the range starts behind the end, or starts
  before the end and has an end that does not fit 64 bits.  A range that starts at the end is
  never refused by \<open>read_range\<close>: it is empty.
\<close>

theorem range_errors:
  assumes "archive_wf E A" and "entry_of_path E A path = Ok e" and "len < 2 ^ 64"
  shows "(read_range E A path offset len = Err InvalidRange \<longleftrightarrow>
        unat (en_original_size e) < unat offset
        \<or> unat offset < unat (en_original_size e) \<and> 2 ^ 64 \<le> unat offset + len)
     \<and> (read_range_exact E A path offset len = Err InvalidRange \<longleftrightarrow> unat (en_original_size e) < unat offset + len)
     \<and> (unat offset = unat (en_original_size e) \<longrightarrow> alloc_total E \<longrightarrow> read_range E A path offset len = Ok [])"
proof -
  from assms(2) obtain n i where n: "normalize_path E path = Ok n" "find_entry_index_normalized E A n = Ok i"
    and i: "e = a_entries A ! i" "i < length (a_entries A)"
    by (auto simp: entry_of_path_def normalize_lookup_path_def res_simps index_at_def split: if_splits)
  then have gen: "read_range_gen E A path offset len exact =
      bind_res (range_len E A i offset len exact) (\<lambda>actual_len.
      bind_res (allocate E actual_len ''range allocation'') (\<lambda>out.
        into_vec (read_range_index_into E A i (LabelPath n) offset) out default_scratch))" for exact
    by (simp add: read_range_gen_def normalize_lookup_path_def)
  have "read_range_gen E A path offset len exact = Err InvalidRange \<longleftrightarrow> range_len E A i offset len exact = Err InvalidRange"
    for exact
    unfolding gen using range_rest_in_range [of E A i offset len exact] by (cases "range_len E A i offset len exact") simp_all
  note decided = this [unfolded range_len_refuses [OF i(2) assms(3)] i(1) [symmetric]]
  have "read_range_gen E A path offset len False = Ok []" if "unat offset = unat (en_original_size e)" "alloc_total E"
  proof -
    have "range_len E A i offset len False = Ok 0"
      using i that(1) by (simp add: range_len_def index_at_def word_unat_eq_iff word_less_nat_alt)
    then show ?thesis using that(2) by (simp add: gen allocate_def into_vec_def read_range_index_into_def)
  qed
  then show ?thesis unfolding read_range_def read_range_exact_def decided by simp
qed

theorem range_errors_witness:
  "read_range sample_env demo_archive [0x61] 4 (2 ^ 64 - 1) = Err InvalidRange
   \<and> read_range_exact sample_env demo_archive [0x61] 4 2 = Err InvalidRange
   \<and> read_range sample_env demo_archive [0x61] 4 2 \<noteq> Err InvalidRange
   \<and> read_range sample_env demo_archive [0x61] 5 (2 ^ 64 - 1) = Ok []"
proof -
  have e: "entry_of_path sample_env demo_archive [0x61] = Ok (entry_from demo_entry)"
    using demo_path demo_path_matches
    by (simp add: entry_of_path_def normalize_lookup_path_def find_normalized_Ok [OF demo_wf, THEN iffD2]
        index_at_def) (simp add: demo_archive_def)
  show ?thesis
    using range_errors [OF demo_wf e, of "2 ^ 64 - 1" 4] range_errors [OF demo_wf e, of 2 4]
      range_errors [OF demo_wf e, of "2 ^ 64 - 1" 5] sample_env_alloc
    by (simp add: demo_entry_at)
qed

section \<open>Variants of one operation\<close>

text \<open>
  C34: the two ways of reading agree.  \<open>read_into\<close> succeeds with contents \<open>d\<close> exactly if the
  caller's buffer has the length of the asset and \<open>read\<close> returns \<open>d\<close>; what the buffer held
  does not matter.
\<close>

theorem read_into_agrees_with_read:
  assumes "reader_pure E A" and "archive_wf E A"
  shows "read_into E A path dst = (Ok (), d) \<longleftrightarrow> read E A path = Ok d \<and> length dst = length d"
proof -
  have cl: "length (a_chunks A) < 2 ^ 32" using assms(2) by (simp add: archive_wf_def)
  have "read_into E A path dst = (Ok (), d) \<longleftrightarrow>
      (\<exists>s'. read_into_with_scratch E A path (dst, default_scratch) = (Ok (), d, s'))"
    by (auto simp: read_into_def split: prod.splits)
  also have "\<dots> \<longleftrightarrow> (\<exists>n i. normalize_path E path = Ok n \<and> path_matches E A n i
      \<and> (\<exists>s'. read_entry_into E A i (LabelPath n) (dst, default_scratch) = (Ok (), d, s')))"
    by (auto simp: read_into_with_scratch_def normalize_lookup_path_def res_simps find_normalized_Ok [OF assms(2)])
  also have "\<dots> \<longleftrightarrow> read E A path = Ok d \<and> length dst = length d"
  proof -
    have "(\<exists>s'. read_entry_into E A i (LabelPath n) (dst, default_scratch) = (Ok (), d, s')) \<longleftrightarrow>
        en_chunk_count (a_entries A ! i) \<le> a_max_chunks_per_operation A
        \<and> unat (en_original_size (a_entries A ! i)) \<le> usize_max E
        \<and> length dst = unat (en_original_size (a_entries A ! i)) \<and> length d = length dst
        \<and> entry_reads E A (a_entries A ! i) d" if "path_matches E A n i" for n i
      using that by (intro read_entry_into_Ok [OF assms(1) cl]) (simp add: path_matches_def)
    then show ?thesis unfolding read_Ok [OF assms] by (metis (no_types))
  qed
  finally show ?thesis .
qed

theorem read_into_agrees_with_read_witness:
  "read_into sample_env demo_archive [0x61] [1, 2, 3, 4, 5] = (Ok (), [9, 9, 9, 9, 5])"
  using read_into_agrees_with_read [OF demo_pure demo_wf, of "[0x61]" "[1, 2, 3, 4, 5]" "[9, 9, 9, 9, 5]"]
  by (simp add: demo_read_path)



section \<open>Verification\<close>

text \<open>
  C10: \<open>verify\<close> is sound and complete: it succeeds exactly if the archive's chunks are within
  the operation limit and the contents of every entry can be read.
\<close>

theorem verify_decides_readability:
  assumes "reader_pure E A" and "archive_wf E A"
  shows "verify E A = Ok () \<longleftrightarrow> length (a_chunks A) \<le> unat (a_max_chunks_per_operation A)
     \<and> (\<forall>e \<in> set (a_entries A). \<exists>ds. entry_parts E A e ds)"
  unfolding verify_Ok [OF assms] entry_reads_def by blast

theorem verify_decides_readability_witness: "verify sample_env demo_archive = Ok ()"
  using verify_decides_readability [OF demo_pure demo_wf] demo_entry_reads
  by (simp add: demo_archive_def entry_reads_def demo_chunks_def) blast

end
