(* ===== verification/Packer.thy ===== *)
theory Packer
  imports Limits Toc
begin

text \<open>
  The packer (\<open>pack/writer.rs\<close>).  Files are read from a reader in chunks, each chunk is
  compressed if that helps, protected and appended to the writer behind alignment padding;
  \<open>finish\<close> appends the table of contents and overwrites the header.  This theory holds the
  model.
\<close>

section \<open>Readers and writers\<close>

text \<open>
  A reader's \<open>read(&mut buffer)\<close> takes the buffer's contents and gives the count or the
  error, the buffer's contents afterwards and the reader's new state.  A writer has the
  operations of \<open>Write + Seek\<close> that the packer uses.
\<close>

type_synonym 'r reader = "bytes \<Rightarrow> 'r \<Rightarrow> (nat, io_error) res \<times> bytes \<times> 'r"

record 'w writer =
  w_write_all :: "bytes \<Rightarrow> ('w, unit, io_error) stm"
  w_seek_start :: "u64 \<Rightarrow> ('w, u64, io_error) stm"
  w_seek_end :: "('w, u64, io_error) stm"

text \<open>
  Reading from a byte slice, and writing to a \<open>Cursor<Vec<u8>>\<close> (contents and position).  A
  vector's length always fits 64 bits; the other branch of seeking to its end does not occur.
\<close>

definition slice_reader :: "bytes reader" where
  "slice_reader buffer data =
     (let n = min (length buffer) (length data)
      in (Ok n, take n data @ drop n buffer, drop n data))"

definition overwrite :: "bytes \<Rightarrow> nat \<Rightarrow> bytes \<Rightarrow> bytes" where
  "overwrite content at data =
     take at content @ replicate (at - length content) 0 @ data @ drop (at + length data) content"

definition vec_writer :: "(bytes \<times> nat) writer" where
  "vec_writer = \<lparr>
     w_write_all = (\<lambda>data (content, pos). (Ok (), overwrite content pos data, pos + length data)),
     w_seek_start = (\<lambda>offset (content, pos). (Ok offset, content, unat offset)),
     w_seek_end = (\<lambda>(content, pos).
       (if length content < 2 ^ 64 then Ok (of_nat (length content)) else Err (IoError KOther ''capacity overflow''),
        content, length content)) \<rparr>"

text \<open>
  \<open>read_chunk\<close>: fill the buffer; a read of zero bytes is the end of the input, interrupted
  reads are repeated without bound.  A count larger than the slice passed is not excluded
  by the trait; \<open>filled += read\<close> is checked arithmetic only in debug builds, where it panics.
\<close>

partial_function (option) read_chunk_loop ::
  "env \<Rightarrow> 'r reader \<Rightarrow> bytes \<Rightarrow> nat \<Rightarrow> 'r \<Rightarrow> ((nat, error) res \<times> bytes \<times> 'r) option" where
  "read_chunk_loop E rd buffer filled r =
     (if length buffer \<le> filled then Some (Ok filled, buffer, r)
      else case rd (drop filled buffer) r of (res, part, r') \<Rightarrow>
        (case res of
           Ok n \<Rightarrow>
             if n = 0 then Some (Ok filled, take filled buffer @ part, r')
             else if usize_max E < filled + n then Some (Panic, take filled buffer @ part, r')
             else read_chunk_loop E rd (take filled buffer @ part) (filled + n) r'
         | Err e \<Rightarrow>
             if io_kind_of e = KInterrupted then read_chunk_loop E rd (take filled buffer @ part) filled r'
             else Some (Err (Io e), take filled buffer @ part, r')
         | Panic \<Rightarrow> Some (Panic, take filled buffer @ part, r')))"

definition fill_chunk :: "env \<Rightarrow> 'r reader \<Rightarrow> bytes \<Rightarrow> 'r \<Rightarrow> ((nat, error) res \<times> bytes \<times> 'r) option" where
  "fill_chunk E rd buffer r = read_chunk_loop E rd buffer 0 r"

section \<open>State\<close>

record input_file =
  f_path :: bytes
  f_data :: bytes

record pack_summary =
  ps_archive_len :: u64
  ps_entry_count :: u32
  ps_chunk_count :: u32

text \<open>
  \<open>Packer\<close>; the writer it borrows is a separate part of the state.  \<open>p_nonces\<close> is not a
  field of the code: it counts the requests for nonces, so that every request to the
  operating system may get a different answer.
\<close>

record packer =
  p_key :: bytes
  p_aead_key :: "bytes option"
  p_options :: pack_options
  p_entries :: "toc_entry list"
  p_chunks :: "chunk list"
  p_seen_hashes :: "u64 set"
  p_raw :: bytes
  p_compressed :: bytes
  p_offset :: u64
  p_failed :: bool
  p_nonces :: nat

text \<open>Operations of the writer with their errors converted, and of the packer, on the pair of both.\<close>

definition on_writer :: "('w, 'a, io_error) stm \<Rightarrow> ('w \<times> packer, 'a, error) stm" where
  "on_writer m = (\<lambda>(w, p). case m w of (r, w') \<Rightarrow> (from_io r, w', p))"

definition get_packer :: "('w \<times> packer, packer, error) stm" where
  "get_packer = (\<lambda>(w, p). (Ok p, w, p))"

definition set_packer :: "(packer \<Rightarrow> packer) \<Rightarrow> ('w \<times> packer, unit, error) stm" where
  "set_packer f = (\<lambda>(w, p). (Ok (), w, f p))"

section \<open>Creation\<close>

definition packer_new :: "env \<Rightarrow> 'w writer \<Rightarrow> bytes \<Rightarrow> pack_options \<Rightarrow> ('w, packer, error) stm" where
  "packer_new E W key options =
     bind_st (lift_st (ensure (key \<noteq> []) EmptyXorKey)) (\<lambda>_.
     bind_st (lift_st (pack_options_validate options)) (\<lambda>options.
     let aead_key = (if o_protection options = Aead then Some (derive_key E key) else None) in
     bind_st (\<lambda>w. map_prod from_io id (w_seek_end W w)) (\<lambda>end.
     bind_st (lift_st (ensure (end = 0) NonEmptyDestination)) (\<lambda>_.
     bind_st (\<lambda>w. map_prod from_io id (w_seek_start W 0 w)) (\<lambda>_.
     bind_st (\<lambda>w. map_prod from_io id (w_write_all W (replicate (unat HEADER_SIZE) 0) w)) (\<lambda>_.
     let compressed_len = lz4_max_output_size E (o_chunk_size options) in
     bind_st (lift_st (ensure (alloc_ok E ''compression buffer'' compressed_len) (TooLarge ''compression buffer''))) (\<lambda>_.
     bind_st (lift_st (ensure (alloc_ok E ''raw chunk buffer'' (o_chunk_size options)) (TooLarge ''raw chunk buffer''))) (\<lambda>_.
       lift_st (Ok \<lparr> p_key = key, p_aead_key = aead_key, p_options = options, p_entries = [], p_chunks = [],
         p_seen_hashes = {}, p_raw = replicate (o_chunk_size options) 0, p_compressed = replicate compressed_len 0,
         p_offset = HEADER_SIZE, p_failed = False, p_nonces = 0 \<rparr>)))))))))"

section \<open>Alignment\<close>

text \<open>Padding is written in pieces of at most 4096 zeros.\<close>

function write_zeros :: "env \<Rightarrow> 'w writer \<Rightarrow> u64 \<Rightarrow> 'w \<times> packer \<Rightarrow> (unit, error) res \<times> 'w \<times> packer" where
  "write_zeros E W remaining s =
     (if remaining = 0 then (Ok (), s)
      else
        bind_st (lift_st (u64_to_usize E (min remaining 4096) ''padding'')) (\<lambda>amount.
        bind_st (on_writer (w_write_all W (replicate amount 0))) (\<lambda>_.
        bind_st (lift_st (usize_to_u64 amount ''padding'')) (\<lambda>amount64.
        bind_st (lift_st (ok_or (checked_sub remaining amount64) (TooLarge ''padding''))) (\<lambda>rest.
          write_zeros E W rest)))) s)"
  by pat_completeness auto

termination
  by (relation "measure (\<lambda>(E, W, remaining, s). unat remaining)")
    (auto simp: res_simps arith_simps min_def word_unat_eq_iff split: if_splits)

declare write_zeros.simps [simp del]

definition align :: "env \<Rightarrow> 'w writer \<Rightarrow> ('w \<times> packer, unit, error) stm" where
  "align E W =
     bind_st get_packer (\<lambda>p.
     bind_st (lift_st (align_up (p_offset p) (ucast (o_alignment (p_options p))))) (\<lambda>aligned.
     bind_st (lift_st (sub_or_panic aligned (p_offset p))) (\<lambda>remaining.
     bind_st (write_zeros E W remaining) (\<lambda>_.
       set_packer (\<lambda>p. p\<lparr> p_offset := aligned \<rparr>)))))"

section \<open>Adding a file\<close>

text \<open>\<open>compress_into\<close> on a buffer of the packer, with its error converted.\<close>

definition compress_raw :: "env \<Rightarrow> nat \<Rightarrow> ('w \<times> packer, nat, error) stm" where
  "compress_raw E raw_len = (\<lambda>(w, p).
     case slice_range (p_raw p) 0 raw_len of
       Ok part \<Rightarrow>
         (case lz4_compress_into E part (p_compressed p) of
            (Inl msg, compressed') \<Rightarrow> (Err (Lz4 msg), w, p\<lparr> p_compressed := compressed' \<rparr>)
          | (Inr n, compressed') \<Rightarrow> (Ok n, w, p\<lparr> p_compressed := compressed' \<rparr>))
     | Err e \<Rightarrow> (Err e, w, p)
     | Panic \<Rightarrow> (Panic, w, p))"

text \<open>\<open>encrypt\<close> with the next answer of the operating system.\<close>

definition encrypt_next :: "env \<Rightarrow> bytes \<Rightarrow> bytes \<Rightarrow> bytes \<Rightarrow> ('w \<times> packer, bytes, error) stm" where
  "encrypt_next E plain key aad = (\<lambda>(w, p).
     (encrypt E (getrandom_fill E (p_nonces p)) plain key aad, w, p\<lparr> p_nonces := Suc (p_nonces p) \<rparr>))"

text \<open>
  The body of the loop of \<open>add_reader_inner\<close> for a chunk of \<open>raw_len\<close> bytes in the buffer:
  compress and align; then choose the smaller form, protect, append and account.
\<close>

definition append_chunk ::
  "env \<Rightarrow> 'w writer \<Rightarrow> nat \<Rightarrow> nat \<Rightarrow> u64 \<times> u64 \<Rightarrow> ('w \<times> packer, u64 \<times> u64, error) stm" where
  "append_chunk E W raw_len compressed_len totals =
     bind_st get_packer (\<lambda>p.
     let chunk_offset = p_offset p in
     bind_st (lift_st (if compressed_len < raw_len then slice_range (p_compressed p) 0 compressed_len
                       else slice_range (p_raw p) 0 raw_len)) (\<lambda>plain_stored.
     let is_compressed = (compressed_len < raw_len) in
     bind_st (lift_st (slice_range (p_raw p) 0 raw_len)) (\<lambda>raw_part.
     let chunk_checksum = checksum E raw_part in
     bind_st (lift_st (usize_to_u32 (length (p_chunks p)) ''chunk index'')) (\<lambda>global_chunk.
     bind_st (case p_aead_key p of
                Some key \<Rightarrow> encrypt_next E plain_stored key (chunk_aad global_chunk)
              | None \<Rightarrow> lift_st (Ok plain_stored)) (\<lambda>stored.
     bind_st (on_writer (w_write_all W stored)) (\<lambda>_.
     bind_st (lift_st (usize_to_u64 (length stored) ''stored chunk size'')) (\<lambda>stored_size.
     bind_st (lift_st (ok_or (checked_add (p_offset p) stored_size) (TooLarge ''archive offset''))) (\<lambda>offset.
     bind_st (set_packer (\<lambda>p. p\<lparr> p_offset := offset \<rparr>)) (\<lambda>_.
     bind_st (lift_st (usize_to_u64 raw_len ''original chunk size'')) (\<lambda>original_size.
     bind_st (lift_st (ok_or (checked_add (fst totals) original_size) (TooLarge ''entry original size''))) (\<lambda>original_total.
     bind_st (lift_st (ok_or (checked_add (snd totals) stored_size) (TooLarge ''entry stored size''))) (\<lambda>stored_total.
     let c = \<lparr> c_offset = chunk_offset, c_stored_size = stored_size, c_original_size = original_size,
               c_checksum = chunk_checksum, c_compressed = is_compressed \<rparr> in
     bind_st (set_packer (\<lambda>q. q\<lparr> p_chunks := p_chunks q @ [c] \<rparr>)) (\<lambda>_.
     bind_st (lift_st (usize_to_u32 (Suc (length (p_chunks p))) ''chunk count'')) (\<lambda>_.
       lift_st (Ok (original_total, stored_total))))))))))))))))"

definition pack_chunk ::
  "env \<Rightarrow> 'w writer \<Rightarrow> nat \<Rightarrow> u64 \<times> u64 \<Rightarrow> ('w \<times> packer, u64 \<times> u64, error) stm" where
  "pack_chunk E W raw_len totals =
     bind_st (compress_raw E raw_len) (\<lambda>compressed_len.
     bind_st (align E W) (\<lambda>_.
       append_chunk E W raw_len compressed_len totals))"

text \<open>The loop; the reader's state is carried beside the writer and the packer.\<close>

partial_function (option) pack_chunks ::
  "env \<Rightarrow> 'w writer \<Rightarrow> 'r reader \<Rightarrow> u64 \<times> u64 \<Rightarrow> 'r \<Rightarrow> 'w \<times> packer \<Rightarrow>
     ((u64 \<times> u64, error) res \<times> 'r \<times> 'w \<times> packer) option" where
  "pack_chunks E W rd totals r s =
     (case fill_chunk E rd (p_raw (snd s)) r of
        None \<Rightarrow> None
      | Some (res, raw, r') \<Rightarrow>
          let s = (fst s, (snd s)\<lparr> p_raw := raw \<rparr>) in
          (case res of
             Err e \<Rightarrow> Some (Err e, r', s)
           | Panic \<Rightarrow> Some (Panic, r', s)
           | Ok raw_len \<Rightarrow>
               if raw_len = 0 then Some (Ok totals, r', s)
               else (case pack_chunk E W raw_len totals s of
                       (Ok totals', s') \<Rightarrow> pack_chunks E W rd totals' r' s'
                     | (Err e, s') \<Rightarrow> Some (Err e, r', s')
                     | (Panic, s') \<Rightarrow> Some (Panic, r', s'))))"

text \<open>The checks of path and hash before anything is read.\<close>

definition register_path :: "env \<Rightarrow> bytes \<Rightarrow> ('w \<times> packer, bytes \<times> u64, error) stm" where
  "register_path E path =
     bind_st (lift_st (normalize_path E path)) (\<lambda>normalized_path.
     let path_hash = checksum E normalized_path in
     bind_st get_packer (\<lambda>p.
     bind_st (set_packer (\<lambda>p. p\<lparr> p_seen_hashes := insert path_hash (p_seen_hashes p) \<rparr>)) (\<lambda>_.
     if path_hash \<notin> p_seen_hashes p then lift_st (Ok (normalized_path, path_hash))
     else
       let duplicate = list_ex (\<lambda>entry. e_path_hash entry = path_hash \<and> e_path entry = normalized_path) (p_entries p) in
       bind_st (lift_st (ensure (\<not> duplicate) (DuplicatePath normalized_path))) (\<lambda>_.
       bind_st (lift_st (ensure (\<not> strips_paths (o_mode (p_options p))) (HashCollision path_hash))) (\<lambda>_.
         lift_st (Ok (normalized_path, path_hash)))))))"

text \<open>What follows the loop: the entry is recorded.\<close>

definition record_entry ::
  "env \<Rightarrow> bytes \<Rightarrow> u64 \<Rightarrow> nat \<Rightarrow> u32 \<Rightarrow> u64 \<times> u64 \<Rightarrow> ('w \<times> packer, unit, error) stm" where
  "record_entry E normalized_path path_hash first_chunk_index first_chunk totals =
     bind_st get_packer (\<lambda>p.
     bind_st (lift_st (ok_or (if first_chunk_index \<le> length (p_chunks p)
                              then Some (length (p_chunks p) - first_chunk_index) else None)
                         (TooLarge ''entry chunk count''))) (\<lambda>count.
     bind_st (lift_st (usize_to_u32 count ''entry chunk count'')) (\<lambda>chunk_count.
     let e = \<lparr> e_path = normalized_path, e_path_hash = path_hash, e_original_size = fst totals,
               e_stored_size = snd totals, e_first_chunk = first_chunk, e_chunk_count = chunk_count \<rparr> in
     bind_st (set_packer (\<lambda>p. p\<lparr> p_entries := p_entries p @ [e] \<rparr>)) (\<lambda>_.
     bind_st (lift_st (usize_to_u32 (Suc (length (p_entries p))) ''entry count'')) (\<lambda>_.
       lift_st (Ok ()))))))"

definition add_reader_inner ::
  "env \<Rightarrow> 'w writer \<Rightarrow> 'r reader \<Rightarrow> bytes \<Rightarrow> 'r \<Rightarrow> 'w \<times> packer \<Rightarrow>
     ((unit, error) res \<times> 'r \<times> 'w \<times> packer) option" where
  "add_reader_inner E W rd path r s =
     (case bind_st (register_path E path) (\<lambda>names.
           bind_st get_packer (\<lambda>p.
           bind_st (lift_st (usize_to_u32 (length (p_chunks p)) ''chunk index'')) (\<lambda>first_chunk.
             lift_st (Ok (names, length (p_chunks p), first_chunk))))) s of
        (Err e, s) \<Rightarrow> Some (Err e, r, s)
      | (Panic, s) \<Rightarrow> Some (Panic, r, s)
      | (Ok ((normalized_path, path_hash), first_chunk_index, first_chunk), s) \<Rightarrow>
          (case pack_chunks E W rd (0, 0) r s of
             None \<Rightarrow> None
           | Some (Err e, r, s) \<Rightarrow> Some (Err e, r, s)
           | Some (Panic, r, s) \<Rightarrow> Some (Panic, r, s)
           | Some (Ok totals, r, s) \<Rightarrow>
               (case record_entry E normalized_path path_hash first_chunk_index first_chunk totals s of
                  (res, s) \<Rightarrow> Some (res, r, s))))"

definition add_reader ::
  "env \<Rightarrow> 'w writer \<Rightarrow> 'r reader \<Rightarrow> bytes \<Rightarrow> 'r \<Rightarrow> 'w \<times> packer \<Rightarrow>
     ((unit, error) res \<times> 'r \<times> 'w \<times> packer) option" where
  "add_reader E W rd path r s =
     (if p_failed (snd s) then Some (Err IncompletePack, r, s)
      else case add_reader_inner E W rd path r s of
             None \<Rightarrow> None
           | Some (res, r, w, p) \<Rightarrow> Some (res, r, w, p\<lparr> p_failed := p_failed p \<or> is_err res \<rparr>))"

section \<open>Finishing\<close>

text \<open>The stored form of the table of contents: compressed, then encrypted or obfuscated.\<close>

definition store_toc :: "env \<Rightarrow> bytes \<Rightarrow> ('w \<times> packer, bytes, error) stm" where
  "store_toc E toc_plain =
     (let max_compressed = lz4_max_output_size E (length toc_plain) in
      bind_st (lift_st (ensure (alloc_ok E ''stored TOC allocation'' max_compressed) (TooLarge ''stored TOC allocation''))) (\<lambda>_.
      bind_st (lift_st (case lz4_compress_into E toc_plain (replicate max_compressed 0) of
                          (Inl msg, out) \<Rightarrow> Err (Lz4 msg)
                        | (Inr toc_len, out) \<Rightarrow> Ok (take toc_len out))) (\<lambda>toc_stored.
      bind_st get_packer (\<lambda>p.
        case p_aead_key p of
          Some key \<Rightarrow> encrypt_next E toc_stored key TOC_AAD
        | None \<Rightarrow> lift_st (xor_in_place toc_stored (p_key p))))))"

definition header_flags :: "pack_options \<Rightarrow> u16" where
  "header_flags options = REQUIRED_HEADER_FLAGS
     OR (case o_protection options of Xor \<Rightarrow> HEADER_FLAG_TOC_XOR | Aead \<Rightarrow> HEADER_FLAG_AEAD)
     OR HEADER_FLAG_PATHS_STRIPPED * of_bool (strips_paths (o_mode options))"

text \<open>From the encoding of the table of contents to the summary.\<close>

definition finish_toc :: "env \<Rightarrow> 'w writer \<Rightarrow> ('w \<times> packer, pack_summary, error) stm" where
  "finish_toc E W =
     bind_st get_packer (\<lambda>p.
     let toc_offset = p_offset p in
     bind_st (lift_st (encode_toc E (p_entries p) (p_chunks p))) (\<lambda>toc_plain.
     bind_st (lift_st (usize_to_u64 (length toc_plain) ''raw TOC size'')) (\<lambda>toc_raw_size.
     bind_st (lift_st (ensure (toc_raw_size \<le> MAX_TOC_RAW_SIZE) (TooLarge ''raw TOC''))) (\<lambda>_.
     let toc_hash = checksum E toc_plain in
     bind_st (store_toc E toc_plain) (\<lambda>toc_stored.
     bind_st (lift_st (usize_to_u64 (length toc_stored) ''stored TOC size'')) (\<lambda>toc_size.
     bind_st (lift_st (ensure (toc_size \<le> MAX_TOC_STORED_SIZE) (TooLarge ''stored TOC''))) (\<lambda>_.
     bind_st (on_writer (w_write_all W toc_stored)) (\<lambda>_.
     bind_st (lift_st (ok_or (checked_add toc_offset toc_size) (TooLarge ''archive length''))) (\<lambda>archive_len.
     bind_st (set_packer (\<lambda>p. p\<lparr> p_offset := archive_len \<rparr>)) (\<lambda>_.
     bind_st (lift_st (usize_to_u32 (o_chunk_size (p_options p)) ''chunk size'')) (\<lambda>chunk_size.
     bind_st (lift_st (usize_to_u32 (length (p_entries p)) ''entry count'')) (\<lambda>entry_count.
     bind_st (lift_st (usize_to_u32 (length (p_chunks p)) ''chunk count'')) (\<lambda>chunk_count.
     let h = \<lparr> h_version = VERSION, h_flags = header_flags (p_options p), h_header_size = ucast HEADER_SIZE,
               h_alignment = o_alignment (p_options p), h_chunk_size = chunk_size, h_entry_count = entry_count,
               h_chunk_count = chunk_count, h_toc_offset = toc_offset, h_toc_size = toc_size,
               h_toc_raw_size = toc_raw_size, h_toc_hash = toc_hash \<rparr> in
     bind_st (on_writer (w_seek_start W 0)) (\<lambda>_.
     bind_st (\<lambda>(w, p). case write_header (w_write_all W) h w of (r, w') \<Rightarrow> (r, w', p)) (\<lambda>_.
     bind_st (on_writer (w_seek_start W archive_len)) (\<lambda>_.
       lift_st (Ok \<lparr> ps_archive_len = archive_len, ps_entry_count = entry_count, ps_chunk_count = chunk_count \<rparr>)))))))))))))))))"

definition finish :: "env \<Rightarrow> 'w writer \<Rightarrow> ('w \<times> packer, pack_summary, error) stm" where
  "finish E W =
     bind_st get_packer (\<lambda>p.
     bind_st (lift_st (ensure (\<not> p_failed p) IncompletePack)) (\<lambda>_.
     bind_st (align E W) (\<lambda>_.
     bind_st (set_packer (\<lambda>p. if strips_paths (o_mode (p_options p))
                              then p\<lparr> p_entries := map (\<lambda>entry. entry\<lparr> e_path := [] \<rparr>) (p_entries p) \<rparr> else p)) (\<lambda>_.
       finish_toc E W))))"

section \<open>Packing a list of files\<close>

fun add_files :: "env \<Rightarrow> 'w writer \<Rightarrow> input_file list \<Rightarrow> 'w \<times> packer \<Rightarrow> ((unit, error) res \<times> 'w \<times> packer) option" where
  "add_files E W [] s = Some (Ok (), s)"
| "add_files E W (file # files) s =
     (case add_reader E W slice_reader (f_path file) (f_data file) s of
        None \<Rightarrow> None
      | Some (Ok u, r, s) \<Rightarrow> add_files E W files s
      | Some (Err e, r, s) \<Rightarrow> Some (Err e, s)
      | Some (Panic, r, s) \<Rightarrow> Some (Panic, s))"

definition pack_with_options ::
  "env \<Rightarrow> 'w writer \<Rightarrow> input_file list \<Rightarrow> bytes \<Rightarrow> pack_options \<Rightarrow> 'w \<Rightarrow> ((unit, error) res \<times> 'w) option" where
  "pack_with_options E W files key options w =
     (case packer_new E W key options w of
        (Err e, w) \<Rightarrow> Some (Err e, w)
      | (Panic, w) \<Rightarrow> Some (Panic, w)
      | (Ok p, w) \<Rightarrow>
          (case add_files E W files (w, p) of
             None \<Rightarrow> None
           | Some (Err e, w, p) \<Rightarrow> Some (Err e, w)
           | Some (Panic, w, p) \<Rightarrow> Some (Panic, w)
           | Some (Ok u, w, p) \<Rightarrow>
               (case finish E W (w, p) of (r, w, p) \<Rightarrow> Some (bind_res r (\<lambda>_. Ok ()), w))))"

definition pack :: "env \<Rightarrow> 'w writer \<Rightarrow> input_file list \<Rightarrow> bytes \<Rightarrow> 'w \<Rightarrow> ((unit, error) res \<times> 'w) option" where
  "pack E W files key w = pack_with_options E W files key default_pack_options w"

end
