(* ===== verification/Packer_Correct.thy ===== *)
theory Packer_Correct
  imports Packer Sample_Archive
begin

text \<open>
  Correctness of the packer: what a reader and a writer promise, the invariant that every
  step of the packer keeps, that packing returns and does not panic, and that an archive
  it wrote opens and gives back every file.
\<close>

section \<open>What the packer relies on\<close>

text \<open>
  A reader delivers \<open>rest\<close>, in pieces of its choice, and may be interrupted finitely often
  (\<open>patience\<close>); a count of zero means the end.  Any read may fail otherwise.
\<close>

locale byte_reader =
  fixes rd :: "'r reader" and rest :: "'r \<Rightarrow> bytes" and patience :: "'r \<Rightarrow> nat"
  assumes delivers: "buffer \<noteq> [] \<Longrightarrow> rd buffer r = (Ok n, part, r') \<Longrightarrow>
      n \<le> length buffer \<and> n \<le> length (rest r) \<and> length part = length buffer \<and> take n part = take n (rest r)
      \<and> rest r' = drop n (rest r) \<and> (n = 0 \<longrightarrow> rest r = []) \<and> patience r' \<le> patience r"
    and interrupted: "rd buffer r = (Err e, part, r') \<Longrightarrow> io_kind_of e = KInterrupted \<Longrightarrow>
      length part = length buffer \<and> rest r' = rest r \<and> patience r' < patience r"
    and returns: "fst (rd buffer r) \<noteq> Panic"
begin

text \<open>Filling a buffer returns: as much of the input as fits, or the error of a read that failed.\<close>

lemma read_chunk_loop_total:
  assumes "length buffer \<le> usize_max E" "filled \<le> length buffer"
  shows "\<exists>res buffer' r'. read_chunk_loop E rd buffer filled r = Some (res, buffer', r')
    \<and> res \<noteq> Panic \<and> (\<forall>e. res = Err e \<longrightarrow> (\<exists>b s f. fst (rd b s) = Err f \<and> io_kind_of f \<noteq> KInterrupted))
    \<and> (\<forall>n. res = Ok n \<longrightarrow> n = min (length buffer) (filled + length (rest r)) \<and> length buffer' = length buffer
         \<and> rest r' = drop (length buffer - filled) (rest r)
         \<and> take (filled + length (rest r)) buffer' = take filled buffer @ take (length buffer - filled) (rest r))"
  using assms
proof (induction "length buffer - filled + patience r" arbitrary: buffer filled r rule: less_induct)
  case less
  show ?case
  proof (cases "length buffer \<le> filled")
    case True
    with less.prems show ?thesis by (simp add: read_chunk_loop.simps)
  next
    case False
    then have ne: "drop filled buffer \<noteq> []" by simp
    obtain res part r1 where rd: "rd (drop filled buffer) r = (res, part, r1)" by (metis prod.exhaust)
    let ?b = "take filled buffer @ part"
    show ?thesis
    proof (cases res)
      case Panic
      then show ?thesis using returns [of "drop filled buffer" r] rd by simp
    next
      case (Err e)
      show ?thesis
      proof (cases "io_kind_of e = KInterrupted")
        case True
        then have i: "length part = length buffer - filled" "rest r1 = rest r" "patience r1 < patience r"
          using interrupted [of "drop filled buffer" r e part r1] rd Err by auto
        have step: "read_chunk_loop E rd buffer filled r = read_chunk_loop E rd ?b filled r1"
          using False rd Err True by (simp add: read_chunk_loop.simps [of E rd buffer filled r])
        have b: "length ?b = length buffer" "take filled ?b = take filled buffer" using i(1) False by auto
        have "length ?b - filled + patience r1 < length buffer - filled + patience r"
          "length ?b \<le> usize_max E" "filled \<le> length ?b"
          unfolding b(1) using i(3) less.prems by simp_all
        from less.hyps [OF this] show ?thesis unfolding step b i(2) .
      next
        case failed: False
        then have "read_chunk_loop E rd buffer filled r = Some (Err (Io e), ?b, r1)"
          using False rd Err by (simp add: read_chunk_loop.simps [of E rd buffer filled r])
        moreover have "fst (rd (drop filled buffer) r) = Err e" using rd Err by simp
        ultimately show ?thesis using failed by auto
      qed
    next
      case (Ok n)
      from delivers [OF ne rd [unfolded Ok]] have d: "n \<le> length buffer - filled" "n \<le> length (rest r)"
        "length part = length buffer - filled" "take n part = take n (rest r)" "rest r1 = drop n (rest r)"
        "n = 0 \<Longrightarrow> rest r = []" "patience r1 \<le> patience r" by auto
      show ?thesis
      proof (cases "n = 0")
        case True
        then show ?thesis
          using False rd Ok d less.prems by (simp add: read_chunk_loop.simps [of E rd buffer filled r])
      next
        case pos: False
        have "\<not> usize_max E < filled + n" using d(1) False less.prems by simp
        then have step: "read_chunk_loop E rd buffer filled r = read_chunk_loop E rd ?b (filled + n) r1"
          using False rd Ok pos by (simp add: read_chunk_loop.simps [of E rd buffer filled r])
        have b: "length ?b = length buffer" "filled + n + length (rest r1) = filled + length (rest r)"
          "take (filled + n) ?b = take filled buffer @ take n (rest r)"
          "drop (length buffer - (filled + n)) (rest r1) = drop (length buffer - filled) (rest r)"
          using d less.prems by auto
        have pieces: "take n (rest r) @ take (length buffer - (filled + n)) (rest r1) = take (length buffer - filled) (rest r)"
        proof -
          have "length buffer - filled = n + (length buffer - (filled + n))" using d(1) by simp
          then show ?thesis unfolding d(5) by (metis take_add)
        qed
        have "length ?b - (filled + n) + patience r1 < length buffer - filled + patience r"
          "length ?b \<le> usize_max E" "filled + n \<le> length ?b"
          unfolding b(1) using d(1,7) pos False less.prems by linarith+
        from less.hyps [OF this] show ?thesis
          unfolding step b append_assoc pieces .
      qed
    qed
  qed
qed

lemma fill_chunk_total:
  assumes "length buffer \<le> usize_max E"
  obtains (filled) buffer' r' where
    "fill_chunk E rd buffer r = Some (Ok (min (length buffer) (length (rest r))), buffer', r')"
    "length buffer' = length buffer" "rest r' = drop (length buffer) (rest r)"
    "take (min (length buffer) (length (rest r))) buffer' = take (length buffer) (rest r)"
  | (failed) e buffer' r' b s f where "fill_chunk E rd buffer r = Some (Err e, buffer', r')"
    "fst (rd b s) = Err f" "io_kind_of f \<noteq> KInterrupted"
proof -
  from read_chunk_loop_total [OF assms, of 0 r] obtain res buffer' r' where
    run: "fill_chunk E rd buffer r = Some (res, buffer', r')" "res \<noteq> Panic" and
    err: "\<forall>e. res = Err e \<longrightarrow> (\<exists>b s f. fst (rd b s) = Err f \<and> io_kind_of f \<noteq> KInterrupted)" and
    ok: "\<forall>n. res = Ok n \<longrightarrow> n = min (length buffer) (length (rest r)) \<and> length buffer' = length buffer
       \<and> rest r' = drop (length buffer) (rest r) \<and> take (length (rest r)) buffer' = take (length buffer) (rest r)"
    unfolding fill_chunk_def add_0 diff_zero take_0 append_Nil by blast
  show ?thesis
  proof (cases res)
    case (Ok n)
    with ok have b: "n = min (length buffer) (length (rest r))" "length buffer' = length buffer"
      "rest r' = drop (length buffer) (rest r)" "take (length (rest r)) buffer' = take (length buffer) (rest r)" by simp_all
    from b(2,4) have "take (min (length buffer) (length (rest r))) buffer' = take (length buffer) (rest r)"
      by (metis min_def order_refl take_all take_take)
    with b run Ok show ?thesis by (intro filled [of buffer' r']) simp_all
  next
    case (Err e)
    with err obtain b s f where "fst (rd b s) = Err f" "io_kind_of f \<noteq> KInterrupted" by blast
    with run Err show ?thesis by (intro failed) simp_all
  qed (use run in simp)
qed

end

text \<open>A reader whose reads never fail, but may be interrupted.\<close>

locale steady_reader = byte_reader +
  assumes steady: "rd buffer r = (Err e, part, r') \<Longrightarrow> io_kind_of e = KInterrupted"
begin

lemma fill_chunk_steady:
  assumes "length buffer \<le> usize_max E"
  obtains buffer' r' where
    "fill_chunk E rd buffer r = Some (Ok (min (length buffer) (length (rest r))), buffer', r')"
    "length buffer' = length buffer" "rest r' = drop (length buffer) (rest r)"
    "take (min (length buffer) (length (rest r))) buffer' = take (length buffer) (rest r)"
proof (rule fill_chunk_total [OF assms, of r], goal_cases)
  case (2 e buffer' r' b s f)
  then show ?case using steady [of b s f "fst (snd (rd b s))" "snd (snd (rd b s))"] by (metis prod.collapse)
qed (rule that)

end

interpretation slice_reader: steady_reader slice_reader "\<lambda>data. data" "\<lambda>_. 0"
  by unfold_locales (auto simp: slice_reader_def Let_def min_def split: if_splits)

text \<open>
  A writer has contents and a position; a successful write at a position inside the contents
  or at their end replaces the bytes there, and a successful seek moves the position.
\<close>

locale seek_writer =
  fixes W :: "'w writer" and content :: "'w \<Rightarrow> bytes" and pos :: "'w \<Rightarrow> nat"
  assumes written: "w_write_all W data w = (Ok (), w') \<Longrightarrow> pos w \<le> length (content w) \<Longrightarrow>
      content w' = overwrite (content w) (pos w) data \<and> pos w' = pos w + length data"
    and seek_start: "w_seek_start W offset w = (Ok m, w') \<Longrightarrow> content w' = content w \<and> pos w' = unat offset"
    and seek_end: "w_seek_end W w = (Ok m, w') \<Longrightarrow> content w' = content w \<and> unat m = length (content w)"
    and returns: "fst (w_write_all W data w) \<noteq> Panic" "fst (w_seek_start W offset w) \<noteq> Panic"
      "fst (w_seek_end W w) \<noteq> Panic"

interpretation vec_writer: seek_writer vec_writer fst snd
  by unfold_locales (auto simp: vec_writer_def unat_of_nat_u64 split: if_splits)

lemma overwrite_end: "overwrite content (length content) data = content @ data"
  by (simp add: overwrite_def)

section \<open>Steps of the packer\<close>

text \<open>Steps leave the fields that identify the archive and its entries alone.\<close>

definition frame :: "packer \<Rightarrow> packer \<Rightarrow> bool" where
  "frame p p' \<longleftrightarrow> p_key p' = p_key p \<and> p_aead_key p' = p_aead_key p \<and> p_options p' = p_options p
     \<and> p_entries p' = p_entries p \<and> p_seen_hashes p' = p_seen_hashes p \<and> p_failed p' = p_failed p
     \<and> length (p_raw p') = length (p_raw p) \<and> length (p_compressed p') = length (p_compressed p)"

lemma frame_refl [simp]: "frame p p"
  by (simp add: frame_def)

lemma frame_trans: "frame p q \<Longrightarrow> frame q r \<Longrightarrow> frame p r"
  by (simp add: frame_def)

lemma wp_get_packer [wp_intros]: "Q p (w, p) \<Longrightarrow> wp_st get_packer Q R (w, p)"
  by (simp add: get_packer_def wp_prod)

lemma wp_set_packer [wp_intros]: "Q () (w, f p) \<Longrightarrow> wp_st (set_packer f) Q R (w, p)"
  by (simp add: set_packer_def wp_prod)

text \<open>The writer stands at the end of what it has written, which is the packer's offset.\<close>

definition at_end :: "('w \<Rightarrow> bytes) \<Rightarrow> ('w \<Rightarrow> nat) \<Rightarrow> 'w \<Rightarrow> bool" where
  "at_end content pos w \<longleftrightarrow> pos w = length (content w)"

context seek_writer
begin

lemma wp_append [wp_intros]:
  assumes "at_end content pos w"
    and "\<And>w'. content w' = content w @ data \<Longrightarrow> at_end content pos w' \<Longrightarrow> Q () (w', p)"
  shows "wp_st (on_writer (w_write_all W data)) Q (\<lambda>_. True) (w, p)"
proof (cases "w_write_all W data w")
  case (Pair r w')
  show ?thesis
  proof (cases r)
    case (Ok u)
    then have "content w' = content w @ data" "at_end content pos w'"
      using written [of data w w'] Pair assms(1) by (auto simp: overwrite_end at_end_def)
    then show ?thesis using Pair Ok assms(2) by (simp add: on_writer_def wp_prod)
  next
    case Panic
    then show ?thesis using returns(1) [of data w] Pair by simp
  qed (use Pair in \<open>simp add: on_writer_def wp_prod\<close>)
qed

lemma wp_write_zeros:
  assumes "65535 \<le> usize_max E"
  shows "at_end content pos w \<Longrightarrow>
    (\<And>w'. content w' = content w @ replicate (unat n) 0 \<Longrightarrow> at_end content pos w' \<Longrightarrow> Q () (w', p)) \<Longrightarrow>
    wp_st (write_zeros E W n) Q (\<lambda>_. True) (w, p)"
proof (induction "unat n" arbitrary: n w rule: less_induct)
  case less
  show ?case
  proof (cases "n = 0")
    case True
    then show ?thesis using less.prems by (simp add: wp_st_def write_zeros.simps)
  next
    case False
    let ?a = "unat (min n 4096)"
    have le: "?a \<le> unat n" "0 < ?a" "?a < 2 ^ 64" "?a \<le> usize_max E"
      using False assms by (auto simp: min_def word_le_nat_alt word_unat_eq_iff)
    have "wp_st (bind_st (lift_st (u64_to_usize E (min n 4096) ''padding'')) (\<lambda>amount.
        bind_st (on_writer (w_write_all W (replicate amount 0))) (\<lambda>_.
        bind_st (lift_st (usize_to_u64 amount ''padding'')) (\<lambda>amount64.
        bind_st (lift_st (ok_or (checked_sub n amount64) (TooLarge ''padding''))) (\<lambda>rest.
          write_zeros E W rest))))) Q (\<lambda>_. True) (w, p)"
    proof (intro wp_intros no_panic less.prems(1); (clarsimp simp: res_simps arith_simps)?)
      fix w' and a64 rest :: u64
      assume w': "content w' = content w @ replicate ?a 0" "at_end content pos w'"
        and a64: "unat a64 = ?a" "?a \<le> unat n" "unat rest = unat n - ?a"
      show "wp_st (write_zeros E W rest) Q (\<lambda>_. True) (w', p)"
      proof (rule less.hyps)
        show "unat rest < unat n" using a64 le by linarith
        fix w'' assume w'': "content w'' = content w' @ replicate (unat rest) 0" "at_end content pos w''"
        have "replicate ?a 0 @ replicate (unat rest) 0 = (replicate (unat n) 0 :: bytes)"
          using a64 by (simp flip: replicate_add)
        then show "Q () (w'', p)" using w' w'' by (intro less.prems(2)) simp_all
      qed (rule w'(2))
    qed
    then show ?thesis using False by (simp add: wp_st_def write_zeros.simps [of E W n])
  qed
qed

lemma wp_align:
  assumes "65535 \<le> usize_max E" "k \<le> 20" "unat (o_alignment (p_options p)) = 2 ^ k"
    and "at_end content pos w" "length (content w) = unat (p_offset p)"
    and "\<And>w' offset. content w' = content w @ replicate (unat offset - unat (p_offset p)) 0 \<Longrightarrow>
      at_end content pos w' \<Longrightarrow> length (content w') = unat offset \<Longrightarrow> unat (p_offset p) \<le> unat offset \<Longrightarrow>
      2 ^ k dvd unat offset \<Longrightarrow> Q () (w', p\<lparr> p_offset := offset \<rparr>)"
  shows "wp_st (align E W) Q (\<lambda>_. True) (w, p)"
proof -
  let ?al = "ucast (o_alignment (p_options p)) :: u64"
  let ?up = "(unat (p_offset p) + (2 ^ k - 1)) div 2 ^ k * 2 ^ k"
  have al: "align_up (p_offset p) ?al = (if unat (p_offset p) + (2 ^ k - 1) < 2 ^ 64 then Ok (of_nat ?up)
           else Err (TooLarge ''aligned offset''))"
    using assms(2,3) by (intro align_up_pow2) simp_all
  have ge: "unat (p_offset p) \<le> ?up"
  proof -
    have "unat (p_offset p) + (2 ^ k - 1) = ?up + (unat (p_offset p) + (2 ^ k - 1)) mod 2 ^ k"
      by (rule div_mult_mod_eq [symmetric])
    moreover have "(unat (p_offset p) + (2 ^ k - 1)) mod 2 ^ k < 2 ^ k" by simp
    ultimately show ?thesis by linarith
  qed
  show ?thesis
  proof (cases "unat (p_offset p) + (2 ^ k - 1) < 2 ^ 64")
    case False
    then show ?thesis by (simp add: align_def al bind_st_def get_packer_def lift_st_def wp_st_def)
  next
    case True
    define up :: u64 where "up = of_nat ?up"
    have "?up \<le> unat (p_offset p) + (2 ^ k - 1)" by (rule div_times_less_eq_dividend)
    then have up: "unat up = ?up" unfolding up_def using True by (intro unat_of_nat_u64) linarith
    have alr: "align_up (p_offset p) ?al = Ok up" using al True by (simp add: up_def)
    have sub: "sub_or_panic up (p_offset p) = Ok (up - p_offset p)" "unat (up - p_offset p) = ?up - unat (p_offset p)"
      using ge up by (simp_all add: sub_or_panic_def word_le_nat_alt unat_sub)
    show ?thesis
      unfolding align_def
      by (intro wp_intros wp_write_zeros [OF assms(1,4)]; (simp add: alr sub)?)
        (use assms(4,5) up ge in \<open>auto simp: alr sub intro!: wp_intros assms(6)\<close>)
  qed
qed

end

section \<open>The invariant\<close>

text \<open>The bytes of an archive at a chunk's place are the protected, perhaps compressed form of its data.\<close>

definition stored_chunk :: "env \<Rightarrow> bytes option \<Rightarrow> bytes \<Rightarrow> nat \<Rightarrow> chunk \<Rightarrow> bytes \<Rightarrow> bool" where
  "stored_chunk E key arch i c d \<longleftrightarrow>
     length d = unat (c_original_size c) \<and> checksum E d = c_checksum c \<and> chunk_end c \<le> length arch
   \<and> (\<exists>plain. (let stored = take (unat (c_stored_size c)) (drop (unat (c_offset c)) arch) in
          case key of None \<Rightarrow> plain = stored | Some k \<Rightarrow> decrypt E stored k (chunk_aad (of_nat i)) = Ok plain)
        \<and> (if c_compressed c
           then \<forall>buf. length buf = length d \<longrightarrow> lz4_decompress_into E plain buf = (Inr (length d), d)
           else plain = d))"

lemma stored_chunk_append: "stored_chunk E key arch i c d \<Longrightarrow> stored_chunk E key (arch @ tail) i c d"
  by (simp add: stored_chunk_def chunk_end_def)

definition packer_config :: "env \<Rightarrow> packer \<Rightarrow> bool" where
  "packer_config E p \<longleftrightarrow> p_key p \<noteq> []
     \<and> p_aead_key p = (if o_protection (p_options p) = Aead then Some (derive_key E (p_key p)) else None)
     \<and> 0 < o_chunk_size (p_options p) \<and> o_chunk_size (p_options p) \<le> MAX_CHUNK_SIZE
     \<and> o_chunk_size (p_options p) \<le> usize_max E
     \<and> (\<exists>k \<le> 20. unat (o_alignment (p_options p)) = 2 ^ k)
     \<and> length (p_raw p) = o_chunk_size (p_options p)
     \<and> length (p_compressed p) = lz4_max_output_size E (o_chunk_size (p_options p))"

definition chunks_inv :: "env \<Rightarrow> bytes \<Rightarrow> packer \<Rightarrow> bytes list \<Rightarrow> bool" where
  "chunks_inv E arch p ds \<longleftrightarrow>
     length arch = unat (p_offset p) \<and> 60 \<le> length arch
   \<and> length ds = length (p_chunks p) \<and> length ds < 2 ^ 32
   \<and> (\<forall>i < length ds. stored_chunk E (p_aead_key p) arch i (p_chunks p ! i) (ds ! i))
   \<and> (\<forall>c \<in> set (p_chunks p). chunk_ok (length arch) (o_chunk_size (p_options p)) (unat (o_alignment (p_options p)))
        (o_protection (p_options p) = Aead) c)
   \<and> sorted_wrt (\<lambda>a b. chunk_end a \<le> unat (c_offset b)) (p_chunks p)"

lemma chunks_inv_cong:
  assumes "p_offset p' = p_offset p" "p_chunks p' = p_chunks p" "p_aead_key p' = p_aead_key p" "p_options p' = p_options p"
  shows "chunks_inv E arch p' ds \<longleftrightarrow> chunks_inv E arch p ds"
  by (simp only: chunks_inv_def assms)

lemma packer_config_frame: "packer_config E p \<Longrightarrow> frame p p' \<Longrightarrow> packer_config E p'"
  by (simp add: packer_config_def frame_def)

text \<open>Appending a chunk behind everything stored so far.\<close>

lemma chunk_ok_mono: "chunk_ok a n al aead c \<Longrightarrow> a \<le> b \<Longrightarrow> chunk_ok b n al aead c"
  by (simp add: chunk_ok_def)

lemma chunks_inv_snoc:
  assumes "chunks_inv E arch p ds" "arch' = arch @ pad @ stored" "length arch' = unat (p_offset p')"
    and "p_chunks p' = p_chunks p @ [c]" "p_aead_key p' = p_aead_key p" "p_options p' = p_options p"
    and "unat (c_offset c) = length arch + length pad" "length (p_chunks p') < 2 ^ 32"
    and "stored_chunk E (p_aead_key p) arch' (length ds) c d"
    and "chunk_ok (length arch') (o_chunk_size (p_options p)) (unat (o_alignment (p_options p)))
        (o_protection (p_options p) = Aead) c"
  shows "chunks_inv E arch' p' (ds @ [d])"
proof -
  let ?ok = "\<lambda>n. chunk_ok n (o_chunk_size (p_options p)) (unat (o_alignment (p_options p))) (o_protection (p_options p) = Aead)"
  have inv: "length ds = length (p_chunks p)" "\<forall>i < length ds. stored_chunk E (p_aead_key p) arch i (p_chunks p ! i) (ds ! i)"
    "\<forall>c \<in> set (p_chunks p). ?ok (length arch) c" "sorted_wrt (\<lambda>a b. chunk_end a \<le> unat (c_offset b)) (p_chunks p)"
    "60 \<le> length arch"
    using assms(1) by (auto simp: chunks_inv_def)
  have "stored_chunk E (p_aead_key p) arch' i ((p_chunks p @ [c]) ! i) ((ds @ [d]) ! i)" if "i < Suc (length ds)" for i
    using that inv(1,2) assms(9) stored_chunk_append [of E "p_aead_key p" arch i] unfolding assms(2)
    by (cases "i = length ds") (auto simp: nth_append)
  moreover have "?ok (length arch') b" if "b \<in> set (p_chunks p)" for b
    using that inv(3) assms(2) by (auto intro: chunk_ok_mono)
  moreover have "chunk_end b \<le> unat (c_offset c)" if "b \<in> set (p_chunks p)" for b
    using that inv(3) assms(7) by (auto simp: chunk_ok_def)
  ultimately show ?thesis
    using inv assms(2-6,8,10) by (auto simp: chunks_inv_def sorted_wrt_append)
qed

section \<open>Storing one chunk\<close>

definition packer_laws :: "env \<Rightarrow> bool" where
  "packer_laws E \<longleftrightarrow> env_safe E \<and> lz4_lawful E \<and> lz4_bound_mono E \<and> aead_lawful E \<and> alloc_total E"

lemma wp_compress_raw:
  assumes "packer_laws E" "packer_config E p" "0 < n" "n \<le> length (p_raw p)"
    and "\<And>m out. length out = length (p_compressed p) \<Longrightarrow> 0 < m \<Longrightarrow> m \<le> length out \<Longrightarrow>
      (\<forall>buf. length buf = n \<longrightarrow> lz4_decompress_into E (take m out) buf = (Inr n, take n (p_raw p))) \<Longrightarrow>
      Q m (w, p\<lparr> p_compressed := out \<rparr>)"
  shows "wp_st (compress_raw E n) Q R (w, p)"
proof -
  let ?d = "take n (p_raw p)"
  have d: "length ?d = n" "?d \<noteq> []" using assms(3,4) by auto
  have "lz4_max_output_size E (length ?d) \<le> length (p_compressed p)"
    using assms(1,2,4) d(1) by (simp add: packer_laws_def packer_config_def lz4_bound_mono_def)
  then obtain m out where c: "lz4_compress_into E ?d (p_compressed p) = (Inr m, out)" "0 < m"
    "\<And>buf. length buf = length ?d \<Longrightarrow> lz4_decompress_into E (take m out) buf = (Inr (length ?d), ?d)"
    using lz4_roundtrip [of E ?d "p_compressed p"] assms(1) d(2) unfolding packer_laws_def by metis
  have "env_safe E" using assms(1) by (simp add: packer_laws_def)
  note safe = env_safe_compress [OF this c(1)]
  have "slice_range (p_raw p) 0 n = (Ok ?d :: (bytes, error) res)" using assms(4) by (simp add: slice_range_Ok)
  then show ?thesis
    using c d safe assms(5) [of out m] by (simp add: compress_raw_def wp_prod)
qed

text \<open>What protection does to a block.\<close>

definition protects :: "env \<Rightarrow> bytes option \<Rightarrow> bytes \<Rightarrow> bytes \<Rightarrow> bytes \<Rightarrow> bool" where
  "protects E key aad plain stored \<longleftrightarrow>
     (case key of None \<Rightarrow> stored = plain
      | Some k \<Rightarrow> decrypt E stored k aad = Ok plain \<and> length stored = length plain + 40)"

lemma wp_protect:
  assumes "aead_lawful E" "\<And>stored nn. protects E (p_aead_key p) aad plain stored \<Longrightarrow> Q stored (w, p\<lparr> p_nonces := nn \<rparr>)"
  shows "wp_st (case p_aead_key p of Some key \<Rightarrow> encrypt_next E plain key aad | None \<Rightarrow> lift_st (Ok plain)) Q
           (\<lambda>_. True) (w, p)"
proof (cases "p_aead_key p")
  case None
  then show ?thesis using assms(2) [of plain "p_nonces p"] by (simp add: wp_st_def lift_st_def protects_def)
next
  case (Some k)
  have np: "encrypt E (getrandom_fill E (p_nonces p)) plain k aad \<noteq> Panic" by (intro no_panic)
  show ?thesis
    using Some np assms(2) encrypt_Ok [OF assms(1), of "p_nonces p" plain k aad]
    by (auto simp: encrypt_next_def wp_prod protects_def split: res.splits)
qed

text \<open>The block that was stored last, read back from the end of the archive.\<close>

lemma stored_chunk_last:
  assumes "protects E key (chunk_aad (of_nat i)) plain stored" "arch' = arch @ pad @ stored"
    and "unat (c_offset c) = length arch + length pad" "unat (c_stored_size c) = length stored"
    and "unat (c_original_size c) = length d" "c_checksum c = checksum E d"
    and "if c_compressed c
         then \<forall>buf. length buf = length d \<longrightarrow> lz4_decompress_into E plain buf = (Inr (length d), d)
         else plain = d"
  shows "stored_chunk E key arch' i c d"
proof -
  have "take (unat (c_stored_size c)) (drop (unat (c_offset c)) arch') = stored"
    using assms(2-4) by simp
  then show ?thesis
    using assms unfolding stored_chunk_def Let_def
    by (intro conjI exI [of _ plain]) (auto simp: chunk_end_def protects_def split: option.splits)
qed

lemma stored_chunk_ok:
  assumes "protects E key aad plain stored" "key \<noteq> None \<longleftrightarrow> aead"
    and "0 < length d" "length d \<le> n" "unat (c_original_size c) = length d" "unat (c_stored_size c) = length stored"
    and "if c_compressed c then 0 < length plain \<and> length plain < length d else plain = d"
    and "60 \<le> unat (c_offset c)" "al dvd unat (c_offset c)" "chunk_end c \<le> toc_offset"
  shows "chunk_ok toc_offset n al aead c"
proof -
  have "chunk_payload aead c = length plain"
    using assms(1,2,6) by (auto simp: chunk_payload_def protects_def split: option.splits)
  then show ?thesis using assms(3-5,7-10) by (auto simp: chunk_ok_def split: if_splits)
qed

lemma wp_lift_total: "r \<noteq> Panic \<Longrightarrow> (\<And>x. r = Ok x \<Longrightarrow> Q x s) \<Longrightarrow> wp_st (lift_st r) Q (\<lambda>_. True) s"
  by (rule wp_lift) simp_all

lemma wp_lift_Ok: "r = Ok x \<Longrightarrow> Q x s \<Longrightarrow> wp_st (lift_st r) Q R s"
  by (simp add: wp_st_def lift_st_def)

context seek_writer
begin

lemma wp_append_chunk:
  assumes laws: "packer_laws E" and cfg: "packer_config E p" and inv: "chunks_inv E arch p0 ds"
    and same: "p_chunks p = p_chunks p0" "p_aead_key p = p_aead_key p0" "p_options p = p_options p0"
    and arch: "content w = arch @ pad" "at_end content pos w" "length (content w) = unat (p_offset p)"
    and al: "unat (o_alignment (p_options p)) dvd unat (p_offset p)"
    and n: "0 < n" "n \<le> length (p_raw p)" and d: "d = take n (p_raw p)"
    and m: "0 < m" "m \<le> length (p_compressed p)"
      "\<forall>buf. length buf = n \<longrightarrow> lz4_decompress_into E (take m (p_compressed p)) buf = (Inr n, d)"
  shows "wp_st (append_chunk E W n m totals)
    (\<lambda>totals' (w', p'). at_end content pos w' \<and> chunks_inv E (content w') p' (ds @ [d]) \<and> frame p p'
        \<and> (\<exists>c. p_chunks p' = p_chunks p @ [c] \<and> unat (c_original_size c) = n
             \<and> unat (fst totals') = unat (fst totals) + unat (c_original_size c)
             \<and> unat (snd totals') = unat (snd totals) + unat (c_stored_size c)))
    (\<lambda>_. True) (w, p)"
proof -
  define plain where "plain = (if m < n then take m (p_compressed p) else d)"
  have pl: "(if m < n then slice_range (p_compressed p) 0 m else slice_range (p_raw p) 0 n) = (Ok plain :: (bytes, error) res)"
    using n m by (auto simp: plain_def slice_range_Ok d)
  have sl: "slice_range (p_raw p) 0 n = (Ok d :: (bytes, error) res)" using n d by (simp add: slice_range_Ok)
  have dl: "length d = n" using d n by simp
  have comp: "if m < n then \<forall>buf. length buf = length d \<longrightarrow> lz4_decompress_into E plain buf = (Inr (length d), d)
       else plain = d" and plen: "if m < n then 0 < length plain \<and> length plain < length d else plain = d"
    using m dl by (simp_all add: plain_def)
  have aead: "aead_lawful E" using laws by (simp add: packer_laws_def)
  have key: "p_aead_key p \<noteq> None \<longleftrightarrow> o_protection (p_options p) = Aead" and small: "n \<le> o_chunk_size (p_options p)"
    using cfg n(2) by (auto simp: packer_config_def)
  have len: "60 \<le> length arch" "length ds = length (p_chunks p)" using inv same by (simp_all add: chunks_inv_def)
  show ?thesis
    unfolding append_chunk_def Let_def
  proof (rule wp_bind, rule wp_get_packer, rule wp_bind, rule wp_lift_Ok [OF pl], rule wp_bind, rule wp_lift_Ok [OF sl],
      rule wp_bind, rule wp_lift_total, rule conversions_no_panic, rule wp_bind, rule wp_protect [OF aead],
      rule wp_bind, rule wp_append, rule arch(2), rule wp_bind, rule wp_lift_total, rule conversions_no_panic,
      rule wp_bind, rule wp_lift_total, rule ok_or_no_panic, rule wp_bind, rule wp_set_packer,
      rule wp_bind, rule wp_lift_total, rule conversions_no_panic, rule wp_bind, rule wp_lift_total, rule ok_or_no_panic,
      rule wp_bind, rule wp_lift_total, rule ok_or_no_panic, rule wp_bind, rule wp_set_packer,
      rule wp_bind, rule wp_lift_total, rule conversions_no_panic, rule wp_lift_Ok [OF refl], goal_cases)
    case (1 g stored nn w' ss off os ot st u)
    let ?c = "\<lparr> c_offset = p_offset p, c_stored_size = ss, c_original_size = os, c_checksum = checksum E d,
        c_compressed = m < n \<rparr>"
    have sz: "unat ss = length stored" "unat os = n" "unat off = unat (p_offset p) + length stored"
      "unat ot = unat (fst totals) + n" "unat st = unat (snd totals) + length stored" "Suc (length (p_chunks p)) < 2 ^ 32"
      using 1 by (auto simp: res_simps arith_simps)
    have g: "of_nat (length ds) = g"
      using 1(1) len(2) by (auto simp: arith_simps word_unat_eq_iff unat_of_nat_u32)
    have w': "content w' = arch @ pad @ stored" "length (content w') = unat off"
      using 1(3) arch(1,3) sz(3) by simp_all
    have cend: "chunk_end ?c \<le> length (content w')" using w'(2) sz by (simp add: chunk_end_def)
    have st: "stored_chunk E (p_aead_key p0) (content w') (length ds) ?c d"
    proof (rule stored_chunk_last [OF _ w'(1)])
      show "protects E (p_aead_key p0) (chunk_aad (of_nat (length ds))) plain stored"
        using 1(2) by (simp only: g same)
    qed (use arch(1,3) comp sz dl in \<open>auto split: if_splits\<close>)
    have ok: "chunk_ok (length (content w')) (o_chunk_size (p_options p0)) (unat (o_alignment (p_options p0)))
        (o_protection (p_options p0) = Aead) ?c"
    proof (rule stored_chunk_ok [OF 1(2)])
      show "60 \<le> unat (c_offset ?c)" using arch(1,3) len(1) by (simp flip: arch(3))
    qed (use key small n plen sz dl al cend in \<open>auto simp: same split: if_splits\<close>)
    have "chunks_inv E (content w') (p\<lparr> p_nonces := nn, p_offset := off, p_chunks := p_chunks p @ [?c] \<rparr>) (ds @ [d])"
      by (rule chunks_inv_snoc [OF inv w'(1) _ _ _ _ _ _ st ok])
        (use w'(2) sz same arch in \<open>simp_all flip: arch(3)\<close>)
    then show ?case
      using 1(4) sz by (auto simp: frame_def)
  qed
qed

lemma wp_pack_chunk:
  assumes laws: "packer_laws E" and cfg: "packer_config E p" and inv: "chunks_inv E (content w) p ds"
    and fin: "at_end content pos w" and n: "0 < n" "n \<le> length (p_raw p)" and d: "d = take n (p_raw p)"
  shows "wp_st (pack_chunk E W n totals)
    (\<lambda>totals' (w', p'). at_end content pos w' \<and> chunks_inv E (content w') p' (ds @ [d]) \<and> frame p p'
        \<and> (\<exists>c. p_chunks p' = p_chunks p @ [c] \<and> unat (c_original_size c) = n
             \<and> unat (fst totals') = unat (fst totals) + unat (c_original_size c)
             \<and> unat (snd totals') = unat (snd totals) + unat (c_stored_size c)))
    (\<lambda>_. True) (w, p)"
proof -
  from cfg obtain k where k: "k \<le> 20" "unat (o_alignment (p_options p)) = 2 ^ k" by (auto simp: packer_config_def)
  have um: "65535 \<le> usize_max E" using laws by (simp add: packer_laws_def env_safe_usize)
  have len: "length (content w) = unat (p_offset p)" using inv by (simp add: chunks_inv_def)
  show ?thesis
    unfolding pack_chunk_def
  proof (rule wp_bind, rule wp_compress_raw [OF laws cfg n], rule wp_bind, rule wp_align [OF um k(1)], goal_cases)
    case (4 m out w' off)
    let ?p = "p\<lparr> p_compressed := out, p_offset := off \<rparr>"
    have fr: "frame p ?p" using 4(1) by (simp add: frame_def)
    show ?case
      by (rule wp_conseq [OF wp_append_chunk [OF laws packer_config_frame [OF cfg fr] inv _ _ _ 4(5,6)]])
        (use 4 n d k fr in \<open>auto intro: frame_trans\<close>)
  qed (use k fin len in simp_all)
qed

end

section \<open>Storing a file\<close>

text \<open>The pieces a file is cut into: full ones, and a last one that may be shorter.\<close>

definition chunked :: "nat \<Rightarrow> bytes list \<Rightarrow> bool" where
  "chunked n ds \<longleftrightarrow> (\<forall>i. Suc i < length ds \<longrightarrow> length (ds ! i) = n) \<and> (\<forall>d \<in> set ds. 0 < length d \<and> length d \<le> n)"

lemma chunked_Nil [simp]: "chunked n []"
  by (simp add: chunked_def)

lemma chunked_Cons: "chunked n ds \<Longrightarrow> 0 < length d \<Longrightarrow> length d \<le> n \<Longrightarrow> (ds \<noteq> [] \<Longrightarrow> length d = n) \<Longrightarrow> chunked n (d # ds)"
  by (auto simp: chunked_def nth_Cons split: nat.splits)

locale packing = reader: byte_reader rd rest patience + writer: seek_writer W content pos
  for rd :: "'r reader" and rest :: "'r \<Rightarrow> bytes" and patience :: "'r \<Rightarrow> nat"
    and W :: "'w writer" and content :: "'w \<Rightarrow> bytes" and pos :: "'w \<Rightarrow> nat"
begin

text \<open>
  The loop returns, does not panic, and if it succeeds has stored the whole input.
\<close>

lemma pack_chunks_total:
  assumes "packer_laws E"
  shows "packer_config E p \<Longrightarrow> chunks_inv E (content w) p ds \<Longrightarrow> at_end content pos w \<Longrightarrow>
    \<exists>res r' w' p'. pack_chunks E W rd totals r (w, p) = Some (res, r', w', p') \<and> res \<noteq> Panic
      \<and> (\<forall>t. res = Ok t \<longrightarrow> frame p p' \<and> at_end content pos w' \<and> rest r' = []
           \<and> (\<exists>new cs. chunks_inv E (content w') p' (ds @ new) \<and> concat new = rest r
                \<and> chunked (o_chunk_size (p_options p)) new \<and> p_chunks p' = p_chunks p @ cs
                \<and> unat (fst t) = unat (fst totals) + (\<Sum>c\<leftarrow>cs. unat (c_original_size c))
                \<and> unat (snd t) = unat (snd totals) + (\<Sum>c\<leftarrow>cs. unat (c_stored_size c))))"
proof (induction "length (rest r)" arbitrary: r w p ds totals rule: less_induct)
  case less
  note cfg = less.prems(1) and inv = less.prems(2) and fin = less.prems(3)
  let ?n = "o_chunk_size (p_options p)" and ?m = "min (length (p_raw p)) (length (rest r))"
  have raw: "length (p_raw p) = ?n" "0 < ?n" "length (p_raw p) \<le> usize_max E" using cfg by (auto simp: packer_config_def)
  consider (filled) raw' r' where "fill_chunk E rd (p_raw p) r = Some (Ok ?m, raw', r')"
      "length raw' = length (p_raw p)" "rest r' = drop (length (p_raw p)) (rest r)"
      "take ?m raw' = take (length (p_raw p)) (rest r)"
    | (failed) e raw' r' where "fill_chunk E rd (p_raw p) r = Some (Err e, raw', r')"
    by (rule reader.fill_chunk_total [OF raw(3), of r])
  then show ?case
  proof cases
    case failed
    then show ?thesis by (simp add: pack_chunks.simps)
  next
    case fill: (filled raw' r')
    let ?p = "p\<lparr> p_raw := raw' \<rparr>"
    have fr: "frame p ?p" using fill(2) by (simp add: frame_def)
    have inv': "chunks_inv E (content w) ?p ds" using inv chunks_inv_cong [of ?p p] by simp
    show ?thesis
    proof (cases "rest r = []")
      case True
      then have "pack_chunks E W rd totals r (w, p) = Some (Ok totals, r', w, ?p)"
        using fill(1) by (simp add: pack_chunks.simps)
      then show ?thesis
        using fr inv' fin fill(3) True by (auto intro!: exI [of _ "[]"])
    next
      case False
      then have m: "0 < ?m" "?m \<noteq> 0" using raw by auto
      let ?d = "take (length (p_raw p)) (rest r)"
      have wp: "wp_st (pack_chunk E W ?m totals)
        (\<lambda>totals' (w', p'). at_end content pos w' \<and> chunks_inv E (content w') p' (ds @ [?d]) \<and> frame ?p p'
          \<and> (\<exists>c. p_chunks p' = p_chunks ?p @ [c] \<and> unat (c_original_size c) = ?m
               \<and> unat (fst totals') = unat (fst totals) + unat (c_original_size c)
               \<and> unat (snd totals') = unat (snd totals) + unat (c_stored_size c)))
        (\<lambda>_. True) (w, ?p)"
        by (rule writer.wp_pack_chunk [OF assms packer_config_frame [OF cfg fr] inv' fin m(1)]) (use fill in simp_all)
      obtain res w1 p1 where step: "pack_chunk E W ?m totals (w, ?p) = (res, w1, p1)" by (rule prod_cases3)
      have eq: "pack_chunks E W rd totals r (w, p) =
          (case res of Ok t \<Rightarrow> pack_chunks E W rd t r' (w1, p1) | Err e \<Rightarrow> Some (Err e, r', w1, p1) | Panic \<Rightarrow> Some (Panic, r', w1, p1))"
        using fill(1) m(2) step
        by (simp only: pack_chunks.simps [of E W rd totals r "(w, p)"] fst_conv snd_conv Let_def if_False
            option.case prod.case res.case)
      show ?thesis
      proof (cases res)
        case Panic
        with wp step show ?thesis by (simp add: wp_st_def)
      next
        case (Err e)
        with eq show ?thesis by auto
      next
        case (Ok t1)
        with wp step obtain c where s1: "at_end content pos w1" "chunks_inv E (content w1) p1 (ds @ [?d])" "frame ?p p1"
          "p_chunks p1 = p_chunks p @ [c]" "unat (fst t1) = unat (fst totals) + unat (c_original_size c)"
          "unat (snd t1) = unat (snd totals) + unat (c_stored_size c)"
          by (auto simp: wp_st_def)
        have fr1: "frame p p1" using frame_trans [OF fr s1(3)] .
        have dec: "length (rest r') < length (rest r)" using fill(3) raw False by (cases "rest r") auto
        from less.hyps [OF dec packer_config_frame [OF cfg fr1] s1(2,1), of t1] obtain res' r'' w2 p2 where
          rec: "pack_chunks E W rd t1 r' (w1, p1) = Some (res', r'', w2, p2)" "res' \<noteq> Panic"
          and fin2: "\<And>t. res' = Ok t \<Longrightarrow> frame p1 p2 \<and> at_end content pos w2 \<and> rest r'' = []
             \<and> (\<exists>new cs. chunks_inv E (content w2) p2 ((ds @ [?d]) @ new) \<and> concat new = rest r'
                  \<and> chunked (o_chunk_size (p_options p1)) new \<and> p_chunks p2 = p_chunks p1 @ cs
                  \<and> unat (fst t) = unat (fst t1) + (\<Sum>c\<leftarrow>cs. unat (c_original_size c))
                  \<and> unat (snd t) = unat (snd t1) + (\<Sum>c\<leftarrow>cs. unat (c_stored_size c)))" by blast
        have whole: "frame p p2 \<and> at_end content pos w2 \<and> rest r'' = []
             \<and> (\<exists>new cs. chunks_inv E (content w2) p2 (ds @ new) \<and> concat new = rest r
                  \<and> chunked ?n new \<and> p_chunks p2 = p_chunks p @ cs
                  \<and> unat (fst t) = unat (fst totals) + (\<Sum>c\<leftarrow>cs. unat (c_original_size c))
                  \<and> unat (snd t) = unat (snd totals) + (\<Sum>c\<leftarrow>cs. unat (c_stored_size c)))" if "res' = Ok t" for t
        proof -
          from fin2 [OF that] obtain new cs where n: "frame p1 p2" "at_end content pos w2" "rest r'' = []"
            "chunks_inv E (content w2) p2 ((ds @ [?d]) @ new)" "concat new = rest r'"
            "chunked (o_chunk_size (p_options p1)) new" "p_chunks p2 = p_chunks p1 @ cs"
            "unat (fst t) = unat (fst t1) + (\<Sum>c\<leftarrow>cs. unat (c_original_size c))"
            "unat (snd t) = unat (snd t1) + (\<Sum>c\<leftarrow>cs. unat (c_stored_size c))" by blast
          have "chunked ?n (?d # new)"
          proof (rule chunked_Cons)
            show "chunked ?n new" using n(6) fr1 by (simp add: frame_def)
            assume "new \<noteq> []"
            then have "rest r' \<noteq> []" using n(5,6) unfolding chunked_def
              by (metis concat_eq_Nil_conv length_0_conv list.set_sel(1) less_irrefl)
            then show "length ?d = ?n" using fill(3) raw(1) by simp
          qed (use False raw in auto)
          moreover have "concat (?d # new) = rest r" using n(5) fill(3) by simp
          ultimately show ?thesis
            using n frame_trans [OF fr1 n(1)] s1(4-6)
            by (intro conjI exI [of _ "?d # new"] exI [of _ "c # cs"]) simp_all
        qed
        have "pack_chunks E W rd totals r (w, p) = Some (res', r'', w2, p2)" using eq Ok rec(1) by simp
        with rec(2) whole show ?thesis by blast
      qed
    qed
  qed
qed

end

interpretation slice_to_vec: packing slice_reader "\<lambda>data. data" "\<lambda>_. 0" vec_writer fst snd
  by unfold_locales

section \<open>The entries\<close>

text \<open>
  The ghost value of a packer is the list of files stored so far: normalised paths with the
  pieces of their contents.
\<close>

type_synonym stored_files = "(bytes \<times> bytes list) list"

definition first_of :: "stored_files \<Rightarrow> nat \<Rightarrow> nat" where
  "first_of fs i = length (concat (map snd (take i fs)))"

definition entry_for :: "env \<Rightarrow> nat \<Rightarrow> chunk list \<Rightarrow> nat \<Rightarrow> bytes \<times> bytes list \<Rightarrow> toc_entry \<Rightarrow> bool" where
  "entry_for E n chunks first f e \<longleftrightarrow>
     e_path e = fst f \<and> e_path_hash e = checksum E (fst f)
   \<and> unat (e_first_chunk e) = first \<and> unat (e_chunk_count e) = length (snd f)
   \<and> unat (e_original_size e) = (\<Sum>c\<leftarrow>take (length (snd f)) (drop first chunks). unat (c_original_size c))
   \<and> unat (e_stored_size e) = (\<Sum>c\<leftarrow>take (length (snd f)) (drop first chunks). unat (c_stored_size c))
   \<and> chunked n (snd f) \<and> normalize_path E (fst f) = Ok (fst f) \<and> utf8_valid (fst f)"

definition entries_inv :: "env \<Rightarrow> packer \<Rightarrow> stored_files \<Rightarrow> bool" where
  "entries_inv E p fs \<longleftrightarrow>
     list_all2 (\<lambda>i e. entry_for E (o_chunk_size (p_options p)) (p_chunks p) (first_of fs i) (fs ! i) e)
       [0..<length fs] (p_entries p)
   \<and> distinct (map fst fs)
   \<and> (strips_paths (o_mode (p_options p)) \<longrightarrow> distinct (map (\<lambda>f. checksum E (fst f)) fs))
   \<and> p_seen_hashes p = (\<lambda>f. checksum E (fst f)) ` set fs"

definition packer_state :: "env \<Rightarrow> ('w \<Rightarrow> bytes) \<Rightarrow> ('w \<Rightarrow> nat) \<Rightarrow> 'w \<Rightarrow> packer \<Rightarrow> stored_files \<Rightarrow> bool" where
  "packer_state E content pos w p fs \<longleftrightarrow> packer_config E p \<and> \<not> p_failed p \<and> at_end content pos w
     \<and> chunks_inv E (content w) p (concat (map snd fs)) \<and> entries_inv E p fs"

lemma entries_inv_nth:
  "entries_inv E p fs \<Longrightarrow> length (p_entries p) = length fs \<and> (\<forall>i < length fs.
     entry_for E (o_chunk_size (p_options p)) (p_chunks p) (first_of fs i) (fs ! i) (p_entries p ! i))"
  by (auto simp: entries_inv_def list_all2_conv_all_nth)

lemma first_of_le: "i < length fs \<Longrightarrow> first_of fs i + length (snd (fs ! i)) \<le> length (concat (map snd fs))"
proof -
  assume "i < length fs"
  from arg_cong [OF id_take_nth_drop [OF this], of "\<lambda>x. length (concat (map snd x))"]
  show ?thesis by (simp only: first_of_def map_append concat_append length_append list.map concat.simps)
qed

lemma entries_inv_snoc:
  assumes inv: "entries_inv E p fs" and len: "length (p_chunks p) = length (concat (map snd fs))"
    and p': "p_chunks p' = p_chunks p @ cs" "p_entries p' = p_entries p @ [e]" "p_options p' = p_options p"
      "p_seen_hashes p' = insert (checksum E (fst f)) (p_seen_hashes p)"
    and e: "entry_for E (o_chunk_size (p_options p)) (p_chunks p @ cs) (length (p_chunks p)) f e"
    and new: "fst f \<notin> fst ` set fs" "strips_paths (o_mode (p_options p)) \<longrightarrow> checksum E (fst f) \<notin> (\<lambda>f. checksum E (fst f)) ` set fs"
  shows "entries_inv E p' (fs @ [f])"
proof -
  note old = entries_inv_nth [OF inv]
  have "entry_for E (o_chunk_size (p_options p)) (p_chunks p @ cs) (first_of (fs @ [f]) i) ((fs @ [f]) ! i) ((p_entries p @ [e]) ! i)"
    if "i < Suc (length fs)" for i
  proof (cases "i = length fs")
    case True
    then show ?thesis using e old len by (simp add: first_of_def nth_append)
  next
    case False
    then have i: "i < length fs" using that by simp
    have "first_of fs i + length (snd (fs ! i)) \<le> length (p_chunks p)" using first_of_le [OF i] len by simp
    then show ?thesis using i old by (auto simp: entry_for_def first_of_def nth_append)
  qed
  then show ?thesis
    using inv old p' new by (auto simp: entries_inv_def list_all2_conv_all_nth simp del: upt_Suc)
qed

lemma wp_register_path:
  assumes "entries_inv E p fs"
  shows "wp_st (register_path E path)
    (\<lambda>(n, h) (w', p'). w' = w \<and> p' = p\<lparr> p_seen_hashes := insert h (p_seen_hashes p) \<rparr>
        \<and> normalize_path E path = Ok n \<and> h = checksum E n \<and> n \<notin> fst ` set fs
        \<and> (strips_paths (o_mode (p_options p)) \<longrightarrow> h \<notin> (\<lambda>f. checksum E (fst f)) ` set fs))
    (\<lambda>_. True) (w, p)"
proof -
  have seen: "p_seen_hashes p = (\<lambda>f. checksum E (fst f)) ` set fs" using assms by (simp add: entries_inv_def)
  have dup: "list_ex (\<lambda>entry. e_path_hash entry = checksum E n \<and> e_path entry = n) (p_entries p)" if "n \<in> fst ` set fs" for n
  proof -
    from that obtain i where i: "i < length fs" "fst (fs ! i) = n" by (auto simp: in_set_conv_nth)
    with entries_inv_nth [OF assms] have "p_entries p ! i \<in> set (p_entries p)"
      "e_path_hash (p_entries p ! i) = checksum E n \<and> e_path (p_entries p ! i) = n"
      by (simp_all add: entry_for_def)
    then show ?thesis unfolding list_ex_iff by blast
  qed
  show ?thesis
  proof (cases "normalize_path E path")
    case (Ok n)
    show ?thesis
    proof (cases "checksum E n \<in> p_seen_hashes p")
      case True
      then show ?thesis using Ok dup
        by (auto simp: register_path_def Let_def bind_st_def get_packer_def set_packer_def lift_st_def ensure_def seen wp_st_def)
    next
      case False
      then have "n \<notin> fst ` set fs" by (auto simp: seen)
      then show ?thesis using Ok False
        by (auto simp: register_path_def Let_def bind_st_def get_packer_def set_packer_def lift_st_def seen wp_st_def)
    qed
  next
    case Panic
    then show ?thesis using normalize_path_no_panic [of E path] by simp
  qed (simp add: register_path_def wp_st_def bind_st_def lift_st_def)
qed

lemma wp_record_entry:
  assumes "first \<le> length (p_chunks p)"
  shows "wp_st (record_entry E n h first fc totals)
    (\<lambda>_ (w', p'). w' = w \<and> (\<exists>count. unat count = length (p_chunks p) - first
        \<and> p' = p\<lparr> p_entries := p_entries p @ [\<lparr> e_path = n, e_path_hash = h, e_original_size = fst totals,
            e_stored_size = snd totals, e_first_chunk = fc, e_chunk_count = count \<rparr>] \<rparr>))
    (\<lambda>_. True) (w, p)"
  unfolding record_entry_def Let_def
proof (rule wp_bind, rule wp_get_packer, rule wp_bind, rule wp_lift_total, rule ok_or_no_panic, rule wp_bind,
    rule wp_lift_total, rule conversions_no_panic, rule wp_bind, rule wp_set_packer, rule wp_bind, rule wp_lift_total,
    rule conversions_no_panic, rule wp_lift_Ok [OF refl], goal_cases)
  case (1 count cc u)
  then show ?case using assms by (auto simp: res_simps arith_simps)
qed

lemma stored_sizes:
  assumes "chunks_inv E arch p (old @ new)" "p_chunks p = cs0 @ cs" "length cs0 = length old"
  shows "length cs = length new" "(\<Sum>c\<leftarrow>cs. unat (c_original_size c)) = length (concat new)"
proof -
  show len: "length cs = length new" using assms by (simp add: chunks_inv_def)
  have "unat (c_original_size (cs ! i)) = length (new ! i)" if "i < length new" for i
  proof -
    have all: "\<forall>i < length (old @ new). stored_chunk E (p_aead_key p) arch i (p_chunks p ! i) ((old @ new) ! i)"
      using assms(1) unfolding chunks_inv_def by blast
    from all [rule_format, of "length old + i"] that
    have "stored_chunk E (p_aead_key p) arch (length old + i) (p_chunks p ! (length old + i)) (new ! i)" by simp
    then show ?thesis using assms(2,3) by (simp add: stored_chunk_def nth_append)
  qed
  then have "map (\<lambda>c. unat (c_original_size c)) cs = map length new"
    using len by (intro nth_equalityI) simp_all
  then show "(\<Sum>c\<leftarrow>cs. unat (c_original_size c)) = length (concat new)" by (simp add: length_concat)
qed

context packing
begin

text \<open>
  Adding a file returns and does not panic; if it succeeds, the file is stored in full
  behind the others, and if it fails the packer is marked as failed.
\<close>

lemma add_reader_total:
  assumes laws: "packer_laws E" and st: "packer_state E content pos w p fs" and utf8: "utf8_valid path"
  shows "\<exists>res r' w' p'. add_reader E W rd path r (w, p) = Some (res, r', w', p') \<and> res \<noteq> Panic
    \<and> (res = Ok () \<longrightarrow> p_options p' = p_options p \<and> p_key p' = p_key p
         \<and> (\<exists>n new. normalize_path E path = Ok n \<and> concat new = rest r
              \<and> packer_state E content pos w' p' (fs @ [(n, new)])))
    \<and> (res \<noteq> Ok () \<longrightarrow> p_failed p')"
proof -
  have cfg: "packer_config E p" and nf: "\<not> p_failed p" and fin: "at_end content pos w"
    and ci: "chunks_inv E (content w) p (concat (map snd fs))" and ei: "entries_inv E p fs"
    using st by (auto simp: packer_state_def)
  let ?m = "bind_st (register_path E path) (\<lambda>names.
      bind_st get_packer (\<lambda>p.
      bind_st (lift_st (usize_to_u32 (length (p_chunks p)) ''chunk index'')) (\<lambda>first_chunk.
        lift_st (Ok (names, length (p_chunks p), first_chunk)))))"
  have wp1: "wp_st ?m (\<lambda>((n, h), first, fc) (w', p'). w' = w \<and> p' = p\<lparr> p_seen_hashes := insert h (p_seen_hashes p) \<rparr>
        \<and> normalize_path E path = Ok n \<and> h = checksum E n \<and> n \<notin> fst ` set fs
        \<and> (strips_paths (o_mode (p_options p)) \<longrightarrow> h \<notin> (\<lambda>f. checksum E (fst f)) ` set fs)
        \<and> first = length (p_chunks p) \<and> unat fc = first) (\<lambda>_. True) (w, p)"
  proof (rule wp_bind, rule wp_conseq [OF wp_register_path [OF ei]], goal_cases)
    case (1 x t)
    obtain n h w' p' where x: "x = (n, h)" "t = (w', p')" by (metis prod.exhaust)
    show ?case
      unfolding x(2)
      by (rule wp_bind, rule wp_get_packer, rule wp_bind, rule wp_lift_total, rule conversions_no_panic,
          rule wp_lift_Ok [OF refl]) (use 1 x in \<open>auto simp: arith_simps\<close>)
  qed simp
  obtain res1 w1 p1 where m: "?m (w, p) = (res1, w1, p1)" by (rule prod_cases3)
  have panic: "res1 \<noteq> Panic" using wp_no_panic [OF wp1] unfolding m fst_conv .
  show ?thesis
  proof (cases res1)
    case (Err e)
    then show ?thesis using nf m by (simp add: add_reader_def add_reader_inner_def)
  next
    case (Ok v)
    obtain n h first fc where v: "v = ((n, h), first, fc)" by (metis prod.exhaust)
    from wp_Ok [OF wp1 m [unfolded Ok v]] have s1: "w1 = w" "p1 = p\<lparr> p_seen_hashes := insert h (p_seen_hashes p) \<rparr>"
      "normalize_path E path = Ok n" "h = checksum E n" "n \<notin> fst ` set fs"
      "strips_paths (o_mode (p_options p)) \<longrightarrow> h \<notin> (\<lambda>f. checksum E (fst f)) ` set fs"
      "first = length (p_chunks p)" "unat fc = first" by auto
    have "packer_config E p1" using cfg by (simp add: s1(2) packer_config_def)
    moreover have "chunks_inv E (content w) p1 (concat (map snd fs))"
      using ci chunks_inv_cong [of p1 p] by (simp add: s1(2))
    ultimately obtain res2 r2 w2 p2 where pc: "pack_chunks E W rd (0, 0) r (w, p1) = Some (res2, r2, w2, p2)" "res2 \<noteq> Panic"
      and ok2: "\<And>t. res2 = Ok t \<Longrightarrow> frame p1 p2 \<and> at_end content pos w2 \<and> rest r2 = []
           \<and> (\<exists>new cs. chunks_inv E (content w2) p2 (concat (map snd fs) @ new) \<and> concat new = rest r
                \<and> chunked (o_chunk_size (p_options p1)) new \<and> p_chunks p2 = p_chunks p1 @ cs
                \<and> unat (fst t) = unat (fst ((0, 0) :: u64 \<times> u64)) + (\<Sum>c\<leftarrow>cs. unat (c_original_size c))
                \<and> unat (snd t) = unat (snd ((0, 0) :: u64 \<times> u64)) + (\<Sum>c\<leftarrow>cs. unat (c_stored_size c)))"
      using pack_chunks_total [OF laws _ _ fin, of p1 "concat (map snd fs)" "(0, 0)" r] by blast
    show ?thesis
    proof (cases res2)
      case (Err e)
      then show ?thesis using nf m Ok v pc s1(1) by (simp add: add_reader_def add_reader_inner_def)
    next
      case ok: (Ok t)
      from ok2 [OF ok] obtain new cs where s2: "frame p1 p2" "at_end content pos w2"
        "chunks_inv E (content w2) p2 (concat (map snd fs) @ new)" "concat new = rest r"
        "chunked (o_chunk_size (p_options p)) new" "p_chunks p2 = p_chunks p @ cs"
        "unat (fst t) = (\<Sum>c\<leftarrow>cs. unat (c_original_size c))" "unat (snd t) = (\<Sum>c\<leftarrow>cs. unat (c_stored_size c))"
        by (auto simp: s1(2))
      have len: "length (p_chunks p) = length (concat (map snd fs))" using ci by (simp add: chunks_inv_def)
      note sizes = stored_sizes [OF s2(3,6) len]
      have first: "first \<le> length (p_chunks p2)" using s1(7) s2(6) by simp
      obtain res3 w3 p3 where re: "record_entry E n h first fc t (w2, p2) = (res3, w3, p3)" by (rule prod_cases3)
      note wp3 = wp_record_entry [OF first, of E n h fc t w2]
      have np: "res3 \<noteq> Panic" using wp_no_panic [OF wp3] unfolding re fst_conv .
      have eq: "add_reader E W rd path r (w, p) = Some (res3, r2, w3, p3\<lparr> p_failed := p_failed p3 \<or> is_err res3 \<rparr>)"
        using nf m Ok v pc s1(1) ok re by (simp add: add_reader_def add_reader_inner_def)
      show ?thesis
      proof (cases res3)
        case (Err e)
        with eq show ?thesis by simp
      next
        case ok3: (Ok u)
        from wp3 re ok3 obtain count where s3: "w3 = w2" "unat count = length (p_chunks p2) - first"
          "p3 = p2\<lparr> p_entries := p_entries p2 @ [\<lparr> e_path = n, e_path_hash = h, e_original_size = fst t,
            e_stored_size = snd t, e_first_chunk = fc, e_chunk_count = count \<rparr>] \<rparr>"
          by (auto simp: wp_st_def)
        have fr: "p_options p2 = p_options p" "p_key p2 = p_key p" "p_entries p2 = p_entries p" "\<not> p_failed p2"
          "p_seen_hashes p2 = insert h (p_seen_hashes p)"
          using s2(1) nf by (simp_all add: frame_def s1(2))
        have "normalize_path E n = Ok n" "utf8_valid n"
          using normalize_path_idempotent [OF s1(3)] normalize_path_utf8 [OF utf8 s1(3)] laws by (auto simp: packer_laws_def)
        then have ef: "entry_for E (o_chunk_size (p_options p)) (p_chunks p @ cs) (length (p_chunks p)) (n, new)
            \<lparr> e_path = n, e_path_hash = h, e_original_size = fst t, e_stored_size = snd t, e_first_chunk = fc, e_chunk_count = count \<rparr>"
          using s1(4,7,8) s2(5-8) s3(2) sizes(1) by (simp add: entry_for_def)
        have "entries_inv E p3 (fs @ [(n, new)])"
          by (rule entries_inv_snoc [OF ei len _ _ _ _ ef]) (use s1 s2(6) s3(3) fr in simp_all)
        moreover have "chunks_inv E (content w3) p3 (concat (map snd (fs @ [(n, new)])))"
          using s2(3) chunks_inv_cong [of p3 p2] by (simp add: s3)
        moreover have "packer_config E p3"
          using packer_config_frame [OF \<open>packer_config E p1\<close> s2(1)] by (simp add: s3(3) packer_config_def)
        ultimately have stored: "packer_state E content pos w3 p3 (fs @ [(n, new)])"
          using s2(2) fr(4) by (simp add: packer_state_def s3(1)) (simp add: s3(3))
        have same: "p3\<lparr> p_failed := p_failed p3 \<or> is_err res3 \<rparr> = p3" using ok3 fr(4) by (simp add: s3(3))
        have "add_reader E W rd path r (w, p) = Some (Ok (), r2, w3, p3)" using eq unfolding same ok3 by simp
        moreover have "p_options p3 = p_options p" "p_key p3 = p_key p" using fr by (simp_all add: s3(3))
        ultimately show ?thesis
          using stored s1(3) s2(4) by (intro exI [of _ "Ok ()"] exI [of _ r2] exI [of _ w3] exI [of _ p3]) blast
      qed (use np in simp)
    qed (use pc(2) in simp)
  qed (use panic in simp)
qed

end

end
