(* ===== verification/Pack_Finish.thy ===== *)
theory Pack_Finish
  imports Packer_Correct
begin

text \<open>
  Packing whole archives: creating the packer, adding a list of files, and finishing, with
  what each leaves in the writer.
\<close>

section \<open>Creating a packer and adding files\<close>

lemma wp_io:
  assumes "fst (m w) \<noteq> Panic" "\<And>x w'. m w = (Ok x, w') \<Longrightarrow> Q x w'"
  shows "wp_st (\<lambda>w. map_prod from_io id (m w)) Q (\<lambda>_. True) w"
proof (cases "m w")
  case (Pair r w')
  then show ?thesis using assms by (cases r) (auto simp: wp_st_def)
qed

sublocale seek_writer \<subseteq> from_slices: packing slice_reader "\<lambda>data. data" "\<lambda>_. 0" W content pos
  by unfold_locales

context seek_writer
begin

lemma wp_packer_new:
  assumes laws: "packer_laws E" and fits: "o_chunk_size options \<le> usize_max E"
  shows "wp_st (packer_new E W key options)
    (\<lambda>p w'. content w = [] \<and> p_options p = options \<and> p_key p = key \<and> packer_state E content pos w' p [])
    (\<lambda>_. True) w"
  unfolding packer_new_def Let_def
proof (rule wp_bind, rule wp_lift_total, rule ensure_no_panic, rule wp_bind, rule wp_lift_total, rule limits_no_panic,
    rule wp_bind, rule wp_io, rule returns, rule wp_bind, rule wp_lift_total, rule ensure_no_panic,
    rule wp_bind, rule wp_io, rule returns, rule wp_bind, rule wp_io, rule returns,
    rule wp_bind, rule wp_lift_total, rule ensure_no_panic, rule wp_bind, rule wp_lift_total, rule ensure_no_panic,
    rule wp_lift_Ok [OF refl], goal_cases)
  case (1 _ opts m w1 _ m0 w2 _ w3)
  have opts: "opts = options" "0 < o_chunk_size options" "o_chunk_size options \<le> MAX_CHUNK_SIZE"
    "\<exists>k \<le> 20. unat (o_alignment options) = 2 ^ k"
    using 1(2) by (auto simp: pack_options_validate_def res_simps)
  have empty: "content w = []" "content w1 = []"
    using seek_end [OF 1(3)] 1(4) by (auto simp: res_simps)
  have w2: "content w2 = []" "pos w2 = 0" using seek_start [OF 1(5)] empty by auto
  have w3: "content w3 = replicate 60 0" "pos w3 = 60"
    using written [of _ w2 w3] 1(6) w2 by (simp_all add: overwrite_def HEADER_SIZE_def)
  show ?case
    using 1(1) opts fits empty w3
    by (auto simp: packer_state_def packer_config_def at_end_def chunks_inv_def entries_inv_def HEADER_SIZE_def res_simps)
qed

lemma add_files_total:
  assumes "packer_laws E"
  shows "packer_state E content pos w p fs \<Longrightarrow> \<forall>f \<in> set files. utf8_valid (f_path f) \<Longrightarrow>
    \<exists>res w' p'. add_files E W files (w, p) = Some (res, w', p') \<and> res \<noteq> Panic
      \<and> (res = Ok () \<longrightarrow> p_options p' = p_options p \<and> p_key p' = p_key p
           \<and> (\<exists>gs. packer_state E content pos w' p' (fs @ gs)
                \<and> list_all2 (\<lambda>f g. normalize_path E (f_path f) = Ok (fst g) \<and> concat (snd g) = f_data f) files gs))"
proof (induction files arbitrary: w p fs)
  case Nil
  then show ?case by (auto intro!: exI [of _ "[]"])
next
  case (Cons f files)
  then obtain res r1 w1 p1 where add: "add_reader E W slice_reader (f_path f) (f_data f) (w, p) = Some (res, r1, w1, p1)"
    "res \<noteq> Panic" and ok: "res = Ok () \<Longrightarrow> p_options p1 = p_options p \<and> p_key p1 = p_key p
         \<and> (\<exists>n new. normalize_path E (f_path f) = Ok n \<and> concat new = f_data f
              \<and> packer_state E content pos w1 p1 (fs @ [(n, new)]))"
    using from_slices.add_reader_total [OF assms Cons.prems(1), of "f_path f" "f_data f"] by fastforce
  show ?case
  proof (cases res)
    case (Err e)
    then show ?thesis using add by simp
  next
    case (Ok u)
    then obtain n new where n: "p_options p1 = p_options p" "p_key p1 = p_key p" "normalize_path E (f_path f) = Ok n"
      "concat new = f_data f" "packer_state E content pos w1 p1 (fs @ [(n, new)])"
      using ok by auto
    from Cons.IH [OF n(5)] Cons.prems(2) obtain res2 w2 p2 where rec: "add_files E W files (w1, p1) = Some (res2, w2, p2)"
      "res2 \<noteq> Panic" and ok2: "res2 = Ok () \<Longrightarrow> p_options p2 = p_options p1 \<and> p_key p2 = p_key p1
           \<and> (\<exists>gs. packer_state E content pos w2 p2 ((fs @ [(n, new)]) @ gs)
                \<and> list_all2 (\<lambda>f g. normalize_path E (f_path f) = Ok (fst g) \<and> concat (snd g) = f_data f) files gs)"
      by auto
    have "\<exists>gs. packer_state E content pos w2 p2 (fs @ gs)
        \<and> list_all2 (\<lambda>f g. normalize_path E (f_path f) = Ok (fst g) \<and> concat (snd g) = f_data f) (f # files) gs"
      if "res2 = Ok ()"
    proof -
      from ok2 [OF that] obtain gs where "packer_state E content pos w2 p2 ((fs @ [(n, new)]) @ gs)"
        "list_all2 (\<lambda>f g. normalize_path E (f_path f) = Ok (fst g) \<and> concat (snd g) = f_data f) files gs" by blast
      then show ?thesis using n(3,4) by (intro exI [of _ "(n, new) # gs"]) simp
    qed
    then show ?thesis using add Ok rec ok2 n(1,2) by auto
  qed (use add in simp)
qed

end

section \<open>Finishing\<close>

lemma overwrite_twice:
  "i \<le> length c \<Longrightarrow> overwrite (overwrite c i a) (i + length a) b = overwrite c i (a @ b)"
  by (simp add: overwrite_def ac_simps)

lemma overwrite_nothing: "i \<le> length c \<Longrightarrow> overwrite c i [] = c"
  by (simp add: overwrite_def)

lemma overwrite_start: "overwrite c 0 a = a @ drop (length a) c"
  by (simp add: overwrite_def)

lemma length_overwrite: "i \<le> length c \<Longrightarrow> i + length a \<le> length (overwrite c i a)"
  by (simp add: overwrite_def)

context seek_writer
begin

lemma write_pieces_overwrite:
  "pos w \<le> length (content w) \<Longrightarrow>
   case write_pieces (w_write_all W) ps w of (r, w') \<Rightarrow> r \<noteq> Panic
     \<and> (r = Ok () \<longrightarrow> content w' = overwrite (content w) (pos w) (concat ps) \<and> pos w' = pos w + length (concat ps))"
proof (induction ps arbitrary: w)
  case Nil
  then show ?case by (simp add: overwrite_nothing)
next
  case (Cons d ps)
  obtain r w1 where w1: "w_write_all W d w = (r, w1)" by fastforce
  show ?case
  proof (cases r)
    case (Ok u)
    have c: "content w1 = overwrite (content w) (pos w) d" "pos w1 = pos w + length d"
      using written [of d w w1] w1 Ok Cons.prems by auto
    then have "pos w1 \<le> length (content w1)" using length_overwrite [OF Cons.prems] by simp
    from Cons.IH [OF this] show ?thesis
      using w1 Ok c overwrite_twice [OF Cons.prems] by (auto simp: bind_st_def split: prod.splits)
  next
    case Panic
    then show ?thesis using returns(1) [of d w] w1 by simp
  qed (use w1 in \<open>simp add: bind_st_def\<close>)
qed

lemma wp_seek:
  assumes "\<And>w' m. content w' = content w \<Longrightarrow> pos w' = unat offset \<Longrightarrow> Q m (w', p)"
  shows "wp_st (on_writer (w_seek_start W offset)) Q (\<lambda>_. True) (w, p)"
proof (cases "w_seek_start W offset w")
  case (Pair r w')
  then show ?thesis
    using assms seek_start [of offset w _ w'] returns(2) [of offset w] by (cases r) (auto simp: on_writer_def wp_prod)
qed

lemma wp_write_header:
  assumes "pos w = 0" "\<And>w'. content w' = header_bytes h @ drop 60 (content w) \<Longrightarrow> Q () (w', p)"
  shows "wp_st (\<lambda>(w, p). case write_header (w_write_all W) h w of (r, w') \<Rightarrow> (r, w', p)) Q (\<lambda>_. True) (w, p)"
proof -
  obtain r w' where r: "write_header (w_write_all W) h w = (r, w')" by fastforce
  have "overwrite (content w) 0 (concat (header_fields h)) = header_bytes h @ drop 60 (content w)"
    by (simp add: overwrite_start header_bytes_def [symmetric] length_header_bytes)
  then have "r \<noteq> Panic" "r = Ok () \<Longrightarrow> content w' = header_bytes h @ drop 60 (content w)"
    using write_pieces_overwrite [of w "header_fields h"] assms(1) r by (simp_all add: write_header_def)
  then show ?thesis using r assms(2) by (cases r) (auto simp: wp_prod)
qed

end

lemma encode_toc_no_panic: "encode_toc E entries chunks \<noteq> Panic"
proof -
  have sz: "toc_entries_size E es n \<noteq> Panic" for es n
    by (induction es arbitrary: n) (simp, simp only: toc_entries_size.simps, intro no_panic)
  have "encode_entry e \<noteq> Panic" for e
    unfolding encode_entry_def by (intro no_panic)
  note e = this
  have "encode_entries es out \<noteq> Panic" for es out
    by (induction es arbitrary: out) (simp, simp only: encode_entries.simps, intro no_panic e)
  then show ?thesis unfolding encode_toc_def by (intro no_panic sz)
qed

text \<open>The stored table of contents can be recovered.\<close>

lemma wp_store_toc:
  assumes laws: "packer_laws E" and key: "p_key p \<noteq> []"
    and "\<And>stored nn comp. (case p_aead_key p of None \<Rightarrow> xor_in_place stored (p_key p) = Ok comp
          | Some k \<Rightarrow> decrypt E stored k TOC_AAD = Ok comp) \<Longrightarrow>
        (\<forall>buf. length buf = length plain \<longrightarrow> lz4_decompress_into E comp buf = (Inr (length plain), plain)) \<Longrightarrow>
        Q stored (w, p\<lparr> p_nonces := nn \<rparr>)"
  shows "wp_st (store_toc E plain) Q (\<lambda>_. True) (w, p)"
proof -
  let ?n = "lz4_max_output_size E (length plain)"
  obtain m out where c: "lz4_compress_into E plain (replicate ?n 0) = (Inr m, out)"
    "\<And>buf. length buf = length plain \<Longrightarrow> lz4_decompress_into E (take m out) buf = (Inr (length plain), plain)"
    using lz4_roundtrip [of E plain "replicate ?n 0"] laws unfolding packer_laws_def by (metis length_replicate order_refl)
  have al: "aead_lawful E" "alloc_total E" using laws by (simp_all add: packer_laws_def)
  have prot: "wp_st (case p_aead_key p of Some key \<Rightarrow> encrypt_next E (take m out) key TOC_AAD
      | None \<Rightarrow> lift_st (xor_in_place (take m out) (p_key p))) Q (\<lambda>_. True) (w, p)"
  proof (cases "p_aead_key p")
    case None
    obtain stored where x: "xor_in_place (take m out) (p_key p) = Ok stored" using xor_in_place_eq [OF key] by metis
    have "Q stored (w, p\<lparr> p_nonces := p_nonces p \<rparr>)"
      using None xor_in_place_involution [OF x] c(2) by (intro assms(3)) auto
    then show ?thesis using None x by (simp add: wp_st_def lift_st_def)
  next
    case (Some k)
    have np: "encrypt E (getrandom_fill E (p_nonces p)) (take m out) k TOC_AAD \<noteq> Panic" by (intro no_panic)
    have "Q stored (w, p\<lparr> p_nonces := Suc (p_nonces p) \<rparr>)"
      if "encrypt E (getrandom_fill E (p_nonces p)) (take m out) k TOC_AAD = Ok stored" for stored
      using Some encrypt_Ok(1) [OF al(1) that] c(2) by (intro assms(3)) auto
    then show ?thesis using Some np by (auto simp: encrypt_next_def wp_prod split: res.splits)
  qed
  show ?thesis
    unfolding store_toc_def Let_def
    by (rule wp_bind, rule wp_lift_total, rule ensure_no_panic, rule wp_bind, rule wp_lift_Ok [where x = "take m out"])
      (simp_all add: c(1) wp_bind wp_get_packer prot)
qed

text \<open>
  What \<open>finish\<close> leaves behind the aligned chunks \<open>arch\<close>: the header, the chunks as they were,
  and the stored form of the table of contents \<open>plain\<close>.
\<close>

definition toc_header :: "env \<Rightarrow> pack_options \<Rightarrow> nat \<Rightarrow> nat \<Rightarrow> nat \<Rightarrow> nat \<Rightarrow> bytes \<Rightarrow> header" where
  "toc_header E opts entries chunks toc_offset toc_size plain =
     \<lparr> h_version = 1, h_flags = header_flags opts, h_header_size = 60, h_alignment = o_alignment opts,
       h_chunk_size = of_nat (o_chunk_size opts), h_entry_count = of_nat entries, h_chunk_count = of_nat chunks,
       h_toc_offset = of_nat toc_offset, h_toc_size = of_nat toc_size, h_toc_raw_size = of_nat (length plain),
       h_toc_hash = checksum E plain \<rparr>"

definition finished :: "env \<Rightarrow> packer \<Rightarrow> bytes \<Rightarrow> bytes \<Rightarrow> bytes \<Rightarrow> header \<Rightarrow> bytes \<Rightarrow> bool" where
  "finished E p arch plain stored h out \<longleftrightarrow>
     encode_toc E (p_entries p) (p_chunks p) = Ok plain \<and> out = header_bytes h @ drop 60 (arch @ stored)
   \<and> h = toc_header E (p_options p) (length (p_entries p)) (length (p_chunks p)) (length arch) (length stored) plain
   \<and> length (p_entries p) < 2 ^ 32 \<and> length (p_chunks p) < 2 ^ 32 \<and> o_chunk_size (p_options p) < 2 ^ 32
   \<and> length arch + length stored < 2 ^ 64 \<and> length stored \<le> 2 ^ 28 \<and> length plain \<le> 2 ^ 29
   \<and> (\<exists>comp. (case p_aead_key p of None \<Rightarrow> xor_in_place stored (p_key p) = Ok comp
                | Some k \<Rightarrow> decrypt E stored k TOC_AAD = Ok comp)
        \<and> (\<forall>buf. length buf = length plain \<longrightarrow> lz4_decompress_into E comp buf = (Inr (length plain), plain)))"

lemma word_of_nat_eq: "unat (x :: 'a::len word) = n \<Longrightarrow> x = of_nat n"
  by (rule unat_imp_of_nat)

text \<open>Padding behind the chunks keeps the invariant.\<close>

lemma chunks_inv_pad:
  assumes "chunks_inv E arch p ds" "length (arch @ pad) = unat off"
  shows "chunks_inv E (arch @ pad) (p\<lparr> p_offset := off \<rparr>) ds"
  using assms stored_chunk_append [of E "p_aead_key p" arch] chunk_ok_mono [of "length arch" _ _ _ _ "length (arch @ pad)"]
  unfolding chunks_inv_def by auto

definition final_entries :: "packer \<Rightarrow> toc_entry list" where
  "final_entries p = (if strips_paths (o_mode (p_options p))
     then map (\<lambda>entry. entry\<lparr> e_path := [] \<rparr>) (p_entries p) else p_entries p)"

context seek_writer
begin

lemma wp_finish_toc:
  assumes laws: "packer_laws E" and key: "p_key p \<noteq> []" and fin: "at_end content pos w"
    and len: "length (content w) = unat (p_offset p)" "60 \<le> length (content w)"
  shows "wp_st (finish_toc E W)
    (\<lambda>summary (w', p'). \<exists>plain stored h. finished E p (content w) plain stored h (content w')
        \<and> ps_entry_count summary = h_entry_count h \<and> ps_chunk_count summary = h_chunk_count h
        \<and> unat (ps_archive_len summary) = length (content w'))
    (\<lambda>_. True) (w, p)"
  unfolding finish_toc_def Let_def
proof (rule wp_bind, rule wp_get_packer, rule wp_bind, rule wp_lift_total,
    rule encode_toc_no_panic, rule wp_bind, rule wp_lift_total, rule conversions_no_panic,
    rule wp_bind, rule wp_lift_total, rule ensure_no_panic, rule wp_bind, rule wp_store_toc [OF laws key],
    rule wp_bind, rule wp_lift_total, rule conversions_no_panic, rule wp_bind, rule wp_lift_total, rule ensure_no_panic,
    rule wp_bind, rule wp_append, rule fin, rule wp_bind, rule wp_lift_total, rule ok_or_no_panic,
    rule wp_bind, rule wp_set_packer, rule wp_bind, rule wp_lift_total, rule conversions_no_panic,
    rule wp_bind, rule wp_lift_total, rule conversions_no_panic, rule wp_bind, rule wp_lift_total, rule conversions_no_panic,
    rule wp_bind, rule wp_seek, rule wp_bind, rule wp_write_header, simp, rule wp_bind, rule wp_seek,
    rule wp_lift_Ok [OF refl], goal_cases)
  case (1 plain rs u1 stored nn comp ss u2 w2 alen cs ec cc w3 m3 w4 w5)
  have off: "p_offset p = of_nat (length (content w))" using len(1) by (intro word_of_nat_eq) simp
  have words: "rs = of_nat (length plain)" "ss = of_nat (length stored)" "cs = of_nat (o_chunk_size (p_options p))"
    "ec = of_nat (length (p_entries p))" "cc = of_nat (length (p_chunks p))"
    using 1 by (auto simp: res_simps arith_simps intro!: word_of_nat_eq)
  have sizes: "length (p_entries p) < 2 ^ 32" "length (p_chunks p) < 2 ^ 32" "o_chunk_size (p_options p) < 2 ^ 32"
    "unat alen = length (content w) + length stored" "length stored \<le> 2 ^ 28" "length plain \<le> 2 ^ 29"
    using 1 by (auto simp: res_simps arith_simps len MAX_TOC_RAW_SIZE_def MAX_TOC_STORED_SIZE_def word_le_nat_alt)
  let ?h = "toc_header E (p_options p) (length (p_entries p)) (length (p_chunks p)) (length (content w)) (length stored) plain"
  have content: "content w2 = content w @ stored" "content w3 = content w2"
    "content w4 = header_bytes ?h @ drop 60 (content w3)" "content w5 = content w4"
    using 1 by (simp_all add: toc_header_def words off VERSION_def HEADER_SIZE_def)
  have lt64: "length (content w) + length stored < 2 ^ 64" using sizes(4) unat_bounds(1) [of alen] by simp
  have "finished E p (content w) plain stored ?h (content w5)"
    unfolding finished_def
    using 1(1,4,5) sizes len(2) content lt64 by (intro conjI exI [of _ comp]) simp_all
  moreover have "unat alen = length (content w5)"
    using sizes(4) len(2) content by (simp add: length_header_bytes)
  ultimately show ?case
    by (intro case_prodI exI [of _ plain] exI [of _ stored] exI [of _ ?h]) (simp add: toc_header_def words)
qed

lemma wp_finish:
  assumes laws: "packer_laws E" and st: "packer_state E content pos w p fs"
  shows "wp_st (finish E W)
    (\<lambda>summary (w', p'). \<exists>arch off plain stored h.
        finished E (p\<lparr> p_offset := off, p_entries := final_entries p \<rparr>) arch plain stored h (content w')
        \<and> chunks_inv E arch (p\<lparr> p_offset := off \<rparr>) (concat (map snd fs))
        \<and> unat (o_alignment (p_options p)) dvd length arch
        \<and> ps_entry_count summary = h_entry_count h \<and> ps_chunk_count summary = h_chunk_count h
        \<and> unat (ps_archive_len summary) = length (content w'))
    (\<lambda>_. True) (w, p)"
proof -
  have cfg: "packer_config E p" and nf: "\<not> p_failed p" and fin: "at_end content pos w"
    and ci: "chunks_inv E (content w) p (concat (map snd fs))" using st by (auto simp: packer_state_def)
  from cfg obtain k where k: "k \<le> 20" "unat (o_alignment (p_options p)) = 2 ^ k" and key: "p_key p \<noteq> []"
    by (auto simp: packer_config_def)
  have um: "65535 \<le> usize_max E" using laws by (simp add: packer_laws_def env_safe_usize)
  have len: "length (content w) = unat (p_offset p)" using ci by (simp add: chunks_inv_def)
  show ?thesis
    unfolding finish_def
  proof (rule wp_bind, rule wp_get_packer, rule wp_bind, rule wp_lift_total, rule ensure_no_panic, rule wp_bind,
      rule wp_align [OF um k fin len], rule wp_bind, rule wp_set_packer, goal_cases)
    case (1 u w1 off)
    let ?p = "p\<lparr> p_offset := off, p_entries := final_entries p \<rparr>"
    have eq: "(if strips_paths (o_mode (p_options (p\<lparr> p_offset := off \<rparr>)))
        then (p\<lparr> p_offset := off \<rparr>)\<lparr> p_entries := map (\<lambda>entry. entry\<lparr> e_path := [] \<rparr>) (p_entries (p\<lparr> p_offset := off \<rparr>)) \<rparr>
        else p\<lparr> p_offset := off \<rparr>) = ?p" by (simp add: final_entries_def)
    have inv: "chunks_inv E (content w1) (p\<lparr> p_offset := off \<rparr>) (concat (map snd fs))"
      using chunks_inv_pad [OF ci] 1(2,4) by metis
    have "60 \<le> length (content w1)" using inv by (simp add: chunks_inv_def)
    then have "wp_st (finish_toc E W)
      (\<lambda>summary (w', p'). \<exists>plain stored h. finished E ?p (content w1) plain stored h (content w')
        \<and> ps_entry_count summary = h_entry_count h \<and> ps_chunk_count summary = h_chunk_count h
        \<and> unat (ps_archive_len summary) = length (content w')) (\<lambda>_. True) (w1, ?p)"
      using key 1(3,4) by (intro wp_finish_toc [OF laws]) simp_all
    then show ?case
      unfolding eq
    proof (rule wp_conseq, goal_cases)
      case (1 summary t)
      obtain w' p' where t: "t = (w', p')" by fastforce
      from 1 obtain plain stored h where "finished E ?p (content w1) plain stored h (content w')"
        "ps_entry_count summary = h_entry_count h" "ps_chunk_count summary = h_chunk_count h"
        "unat (ps_archive_len summary) = length (content w')" unfolding t by auto
      then show ?case
        using inv k(2) \<open>2 ^ k dvd unat off\<close> \<open>length (content w1) = unat off\<close> unfolding t
        by (intro case_prodI exI [of _ "content w1"] exI [of _ off] exI [of _ plain] exI [of _ stored] exI [of _ h]) simp
    qed simp
  qed
qed

end

end
