(* ===== verification/Pack_Roundtrip.thy ===== *)
theory Pack_Roundtrip
  imports Pack_Finish
begin

text \<open>
  The round trip: an archive the packer finished passes every check of the reader, within
  limits it does not exceed, and every file reads back.
\<close>

section \<open>A finished archive\<close>

definition packed :: "env \<Rightarrow> packer \<Rightarrow> stored_files \<Rightarrow> bytes \<Rightarrow> bytes \<Rightarrow> bytes \<Rightarrow> header \<Rightarrow> bytes \<Rightarrow> bool" where
  "packed E p fs arch plain stored h out \<longleftrightarrow>
     packer_config E p \<and> chunks_inv E arch p (concat (map snd fs)) \<and> entries_inv E p fs
   \<and> unat (o_alignment (p_options p)) dvd length arch
   \<and> finished E (p\<lparr> p_entries := final_entries p \<rparr>) arch plain stored h out"

lemma packed_facts:
  assumes "packed E p fs arch plain stored h out"
  shows "h = toc_header E (p_options p) (length fs) (length (p_chunks p)) (length arch) (length stored) plain"
    "out = header_bytes h @ drop 60 arch @ stored" "60 \<le> length arch" "length out = length arch + length stored"
    "length arch + length stored < 2 ^ 64" "length stored \<le> 2 ^ 28" "length plain \<le> 2 ^ 29"
    "length fs < 2 ^ 32" "length (p_chunks p) < 2 ^ 32" "length (final_entries p) = length fs"
    "length (p_chunks p) = length (concat (map snd fs))"
    "plain = toc_bytes (final_entries p) (p_chunks p)"
proof -
  note d = assms [unfolded packed_def finished_def]
  have n: "length (p_entries p) = length fs" using d entries_inv_nth by blast
  then show fn: "length (final_entries p) = length fs" by (simp add: final_entries_def)
  show "h = toc_header E (p_options p) (length fs) (length (p_chunks p)) (length arch) (length stored) plain"
    "length fs < 2 ^ 32" using d fn by simp_all
  show a: "60 \<le> length arch" and "length (p_chunks p) = length (concat (map snd fs))"
    using d by (simp_all add: chunks_inv_def)
  show "out = header_bytes h @ drop 60 arch @ stored" using d a by simp
  then show "length out = length arch + length stored" using a by (simp add: length_header_bytes)
  show "length arch + length stored < 2 ^ 64" "length stored \<le> 2 ^ 28" "length plain \<le> 2 ^ 29"
    "length (p_chunks p) < 2 ^ 32" using d by simp_all
  have "encode_toc E (final_entries p) (p_chunks p) = Ok plain" using d by simp
  then show "plain = toc_bytes (final_entries p) (p_chunks p)" unfolding encode_toc_Ok by blast
qed

text \<open>The bytes behind the header are the ones that were appended.\<close>

lemma packed_region:
  assumes "packed E p fs arch plain stored h out" "60 \<le> n"
  shows "drop n out = drop n (arch @ stored)"
  using packed_facts(2,3) [OF assms(1)] assms(2) by (simp add: length_header_bytes)

section \<open>The checks of the header\<close>

lemma header_flags_bits:
  fixes opts :: pack_options
  shows
  "bit (header_flags opts) 0" "bit (header_flags opts) 2" "bit (header_flags opts) 3"
  "bit (header_flags opts) 1 \<longleftrightarrow> o_protection opts = Xor" "bit (header_flags opts) 5 \<longleftrightarrow> o_protection opts = Aead"
  "bit (header_flags opts) 4 \<longleftrightarrow> strips_paths (o_mode opts)" "6 \<le> i \<Longrightarrow> \<not> bit (header_flags opts) i"
proof -
  have c: "header_flags opts = 15 \<and> o_protection opts = Xor \<and> \<not> strips_paths (o_mode opts)
      \<or> header_flags opts = 31 \<and> o_protection opts = Xor \<and> strips_paths (o_mode opts)
      \<or> header_flags opts = 45 \<and> o_protection opts = Aead \<and> \<not> strips_paths (o_mode opts)
      \<or> header_flags opts = 61 \<and> o_protection opts = Aead \<and> strips_paths (o_mode opts)"
    by (cases "o_protection opts"; cases "strips_paths (o_mode opts)")
      (simp_all add: header_flags_def REQUIRED_HEADER_FLAGS_def HEADER_FLAG_TOC_LZ4_def HEADER_FLAG_CHUNKED_def
        HEADER_FLAG_XXH3_def HEADER_FLAG_TOC_XOR_def HEADER_FLAG_PATHS_STRIPPED_def HEADER_FLAG_AEAD_def)
  then show "bit (header_flags opts) 0" "bit (header_flags opts) 2" "bit (header_flags opts) 3"
    "bit (header_flags opts) 1 \<longleftrightarrow> o_protection opts = Xor" "bit (header_flags opts) 5 \<longleftrightarrow> o_protection opts = Aead"
    "bit (header_flags opts) 4 \<longleftrightarrow> strips_paths (o_mode opts)"
    by (auto simp: numeral_eq_Suc)
  assume "6 \<le> i"
  have "header_flags opts AND NOT (mask 6) = 0"
    using c by (auto simp: mask_eq_exp_minus_1)
  then have "\<forall>n. \<not> bit (header_flags opts AND NOT (mask 6)) n" by simp
  then show "\<not> bit (header_flags opts) i"
    using \<open>6 \<le> i\<close> bit_imp_le_length [of "header_flags opts" i] by (auto simp: bit_and_iff bit_not_iff bit_mask_iff)
qed

lemma packed_header_valid:
  assumes "packed E p fs arch plain stored h out"
  shows "validate_header E h = Ok ()"
proof -
  note f = packed_facts [OF assms]
  have cfg: "packer_config E p" using assms by (simp add: packed_def)
  then obtain k where k: "k \<le> 20" "unat (o_alignment (p_options p)) = 2 ^ k" by (auto simp: packer_config_def)
  have n: "0 < o_chunk_size (p_options p)" "o_chunk_size (p_options p) \<le> MAX_CHUNK_SIZE"
    "o_chunk_size (p_options p) \<le> usize_max E" using cfg by (auto simp: packer_config_def)
  then have u: "unat (of_nat (o_chunk_size (p_options p)) :: u32) = o_chunk_size (p_options p)"
    by (intro unat_of_nat_u32) (simp add: MAX_CHUNK_SIZE_def)
  have flags: "header_flags opts AND REQUIRED_HEADER_FLAGS = REQUIRED_HEADER_FLAGS"
    "header_flags opts AND NOT KNOWN_HEADER_FLAGS = 0"
    "count_ones (header_flags opts AND (HEADER_FLAG_TOC_XOR OR HEADER_FLAG_AEAD)) = 1" for opts
    unfolding flag_bits count_ones_protection using header_flags_bits [where opts = opts] by (cases "o_protection opts"; auto)+
  have sz: "(of_nat (length stored) :: u64) \<le> MAX_TOC_STORED_SIZE" "(of_nat (length plain) :: u64) \<le> MAX_TOC_RAW_SIZE"
    using f(6,7) by (simp_all add: word_le_nat_alt unat_of_nat MAX_TOC_STORED_SIZE_def MAX_TOC_RAW_SIZE_def)
  show ?thesis
    using n k u sz flags unfolding f(1) validate_header_Ok by (auto simp: toc_header_def VERSION_def)
qed

section \<open>The table of contents\<close>

lemma packed_open_toc:
  assumes pk: "packed E p fs arch plain stored h out" and al: "alloc_total E" and wide: "2 ^ 32 - 1 \<le> usize_max E"
    and src: "source_backed S out"
  shows "open_toc E S (p_key p) (p_aead_key p) h = Ok plain"
proof -
  note f = packed_facts [OF pk]
  have us: "unat (of_nat (length stored) :: u64) = length stored" "unat (of_nat (length plain) :: u64) = length plain"
    "unat (of_nat (length arch) :: u64) = length arch"
    using f(5-7) by (auto intro!: unat_of_nat_u64)
  have sizes: "u64_to_usize E (h_toc_size h) what = Ok (length stored)"
    "u64_to_usize E (h_toc_raw_size h) what = Ok (length plain)" for what
    using f(6,7) wide us unfolding f(1) by (simp_all add: u64_to_usize_def toc_header_def)
  have "drop (length arch) out = stored" using packed_region [OF pk f(3)] by simp
  then have rd: "read_zeroed S (h_toc_offset h) (length stored) = Ok stored"
    using src us(3) f(4) unfolding f(1) source_backed_def by (simp add: read_zeroed_Ok toc_header_def)
  from pk obtain comp where comp: "case p_aead_key p of None \<Rightarrow> xor_in_place stored (p_key p) = Ok comp
      | Some k \<Rightarrow> decrypt E stored k TOC_AAD = Ok comp"
    "\<forall>buf. length buf = length plain \<longrightarrow> lz4_decompress_into E comp buf = (Inr (length plain), plain)"
    by (cases "p_aead_key p") (auto simp: packed_def finished_def)
  have "decompress_block_exact E comp (length plain) what = Ok plain" for what
    using al comp(2) by (simp add: decompress_block_exact_def decompress_into_exact_def)
  moreover have "(case p_aead_key p of Some k \<Rightarrow> decrypt E stored k TOC_AAD | None \<Rightarrow> xor_in_place stored (p_key p)) = Ok comp"
    using comp(1) by (cases "p_aead_key p") simp_all
  moreover have "checksum E plain = h_toc_hash h" by (simp add: f(1) toc_header_def)
  ultimately show ?thesis
    using al rd by (simp add: open_toc_def sizes)
qed

text \<open>What the reader's limits must allow of the files: \<open>m\<close> are the clamped limits.\<close>

definition files_fit :: "env \<Rightarrow> archive_limits \<Rightarrow> bool \<Rightarrow> stored_files \<Rightarrow> bool" where
  "files_fit E m stripped fs \<longleftrightarrow>
     (\<forall>g \<in> set fs. length (concat (snd g)) \<le> unat (max_single_asset_bytes m)
        \<and> length (snd g) \<le> unat (max_chunks_per_operation m)
        \<and> (stripped \<or> length (fst g) \<le> max_path_bytes m)
        \<and> length (filter (\<lambda>g'. checksum E (fst g') = checksum E (fst g)) fs) \<le> 64)
   \<and> (\<Sum>g\<leftarrow>fs. length (concat (snd g))) \<le> unat (max_total_decompressed_bytes m)
   \<and> (stripped \<or> (\<Sum>g\<leftarrow>fs. length (fst g)) \<le> unat (max_total_path_bytes m))"

lemma chunk_sizes:
  assumes "chunks_inv E arch p (concat (map snd fs))"
  shows "map (\<lambda>c. unat (c_original_size c)) (p_chunks p) = map length (concat (map snd fs))"
  using assms by (intro nth_equalityI) (auto simp: chunks_inv_def stored_chunk_def)

lemma pieces_of:
  assumes "i < length fs"
  shows "take (length (snd (fs ! i))) (drop (first_of fs i) (concat (map snd fs))) = snd (fs ! i)"
proof -
  have "concat (map snd fs) = concat (map snd (take i fs)) @ snd (fs ! i) @ concat (map snd (drop (Suc i) fs))"
    using arg_cong [OF id_take_nth_drop [OF assms], of "\<lambda>x. concat (map snd x)"] by simp
  then show ?thesis by (simp add: first_of_def)
qed

text \<open>The entries that are encoded.\<close>

lemma packed_entry:
  assumes pk: "packed E p fs arch plain stored h out" and i: "i < length fs"
  shows "e_path (final_entries p ! i) = (if strips_paths (o_mode (p_options p)) then [] else fst (fs ! i))"
    "e_path_hash (final_entries p ! i) = checksum E (fst (fs ! i))"
    "entry_first (final_entries p ! i) = first_of fs i" "entry_count (final_entries p ! i) = length (snd (fs ! i))"
    "unat (e_original_size (final_entries p ! i)) = length (concat (snd (fs ! i)))"
    "(\<Sum>c\<leftarrow>entry_chunks (p_chunks p) (final_entries p ! i). unat (c_original_size c)) = length (concat (snd (fs ! i)))"
    "(\<Sum>c\<leftarrow>entry_chunks (p_chunks p) (final_entries p ! i). unat (c_stored_size c)) = unat (e_stored_size (final_entries p ! i))"
    "chunked (o_chunk_size (p_options p)) (snd (fs ! i))"
    "normalize_path E (fst (fs ! i)) = Ok (fst (fs ! i))" "utf8_valid (fst (fs ! i))"
proof -
  have ci: "chunks_inv E arch p (concat (map snd fs))" and ei: "entries_inv E p fs"
    using pk by (simp_all add: packed_def)
  let ?n = "length (snd (fs ! i))" and ?e = "final_entries p ! i"
  have n: "length (p_entries p) = length fs"
    and ef: "entry_for E (o_chunk_size (p_options p)) (p_chunks p) (first_of fs i) (fs ! i) (p_entries p ! i)"
    using entries_inv_nth [OF ei] i by auto
  have same: "?e = (p_entries p ! i)\<lparr> e_path := e_path ?e \<rparr>" using i n by (simp add: final_entries_def)
  have "e_path ?e = (if strips_paths (o_mode (p_options p)) then [] else e_path (p_entries p ! i))"
    using i n by (simp add: final_entries_def)
  with ef show "e_path ?e = (if strips_paths (o_mode (p_options p)) then [] else fst (fs ! i))"
    by (simp add: entry_for_def)
  have rest: "e_path_hash ?e = e_path_hash (p_entries p ! i)" "e_original_size ?e = e_original_size (p_entries p ! i)"
    "e_stored_size ?e = e_stored_size (p_entries p ! i)" "e_first_chunk ?e = e_first_chunk (p_entries p ! i)"
    "e_chunk_count ?e = e_chunk_count (p_entries p ! i)"
    by (subst same, simp)+
  show "e_path_hash ?e = checksum E (fst (fs ! i))" "entry_first ?e = first_of fs i" "entry_count ?e = ?n"
    "chunked (o_chunk_size (p_options p)) (snd (fs ! i))"
    "normalize_path E (fst (fs ! i)) = Ok (fst (fs ! i))" "utf8_valid (fst (fs ! i))"
    using ef by (simp_all add: rest entry_first_def entry_count_def entry_for_def)
  then have ec: "entry_chunks (p_chunks p) ?e = take ?n (drop (first_of fs i) (p_chunks p))"
    by (simp add: entry_chunks_def)
  have "map (\<lambda>c. unat (c_original_size c)) (take ?n (drop (first_of fs i) (p_chunks p))) = map length (snd (fs ! i))"
    using arg_cong [OF chunk_sizes [OF ci], of "\<lambda>x. take ?n (drop (first_of fs i) x)"] pieces_of [OF i]
    by (simp add: take_map drop_map)
  then show sum: "(\<Sum>c\<leftarrow>entry_chunks (p_chunks p) ?e. unat (c_original_size c)) = length (concat (snd (fs ! i)))"
    unfolding ec by (simp only: length_concat)
  show "unat (e_original_size ?e) = length (concat (snd (fs ! i)))"
    using ef sum by (simp add: rest ec entry_for_def)
  show "(\<Sum>c\<leftarrow>entry_chunks (p_chunks p) ?e. unat (c_stored_size c)) = unat (e_stored_size ?e)"
    using ef by (simp add: rest ec entry_for_def)
qed

lemma normalized_fixed:
  assumes "normalize_path E q = Ok q"
  shows "length q \<le> MAX_PATH_LEN" "q \<noteq> []"
proof -
  have n: "length q \<le> MAX_PATH_LEN \<and> kept_parts q \<noteq> []" using assms unfolding normalize_path_Ok by blast
  then show "length q \<le> MAX_PATH_LEN" by blast
  have "kept_parts [] = []" by (simp add: kept_parts_def)
  with n show "q \<noteq> []" by metis
qed

lemma packed_decode:
  assumes pk: "packed E p fs arch plain stored h out" and al: "alloc_total E" and wide: "2 ^ 32 - 1 \<le> usize_max E"
    and fit: "files_fit E m (strips_paths (o_mode (p_options p))) fs"
  shows "decode_toc E plain (h_entry_count h) (h_chunk_count h) (bit (h_flags h) 4) (max_path_bytes m)
      (max_total_path_bytes m) (max_single_asset_bytes m) = Ok (final_entries p, p_chunks p)"
proof -
  note f = packed_facts [OF pk] and en = packed_entry [OF pk]
  let ?ps = "strips_paths (o_mode (p_options p))"
  have h: "h_entry_count h = of_nat (length (final_entries p))" "h_chunk_count h = of_nat (length (p_chunks p))"
    "bit (h_flags h) 4 = ?ps"
    unfolding f(1) f(10) by (simp_all add: toc_header_def header_flags_bits)
  have "entry_decodable E ?ps (max_path_bytes m) (max_single_asset_bytes m) (final_entries p ! i)" if i: "i < length fs" for i
  proof -
    let ?e = "final_entries p ! i"
    have "fs ! i \<in> set fs" using i by simp
    then have lim: "length (concat (snd (fs ! i))) \<le> unat (max_single_asset_bytes m)"
      "?ps \<or> length (fst (fs ! i)) \<le> max_path_bytes m" using fit by (auto simp: files_fit_def)
    note len = normalized_fixed [OF en(9) [OF i]]
    have "e_original_size ?e \<le> max_single_asset_bytes m" using lim(1) en(5) [OF i] by (simp add: word_le_nat_alt)
    moreover have "length (e_path ?e) < 2 ^ 16" "length (e_path ?e) \<le> max_path_bytes m"
      using lim(2) len(1) unfolding en(1) [OF i] by (auto simp: MAX_PATH_LEN_def)
    moreover have "if ?ps then e_path ?e = []
      else e_path ?e \<noteq> [] \<and> utf8_valid (e_path ?e) \<and> normalize_path E (e_path ?e) = Ok (e_path ?e)
         \<and> checksum E (e_path ?e) = e_path_hash ?e"
      using len(2) en(9,10) [OF i] by (simp add: en(1,2) [OF i])
    ultimately show ?thesis unfolding entry_decodable_def by blast
  qed
  then have dec: "\<forall>e \<in> set (final_entries p). entry_decodable E ?ps (max_path_bytes m) (max_single_asset_bytes m) e"
    by (metis f(10) in_set_conv_nth)
  have "map (\<lambda>e. length (e_path e)) (final_entries p) = map (\<lambda>g. if ?ps then 0 else length (fst g)) fs"
    using f(10) en(1) by (intro nth_equalityI) simp_all
  then have paths: "(\<Sum>e\<leftarrow>final_entries p. length (e_path e)) \<le> unat (max_total_path_bytes m)"
    using fit by (cases ?ps) (simp_all add: files_fit_def)
  have "length (toc_bytes (final_entries p) (p_chunks p)) \<le> usize_max E"
    using f(7) wide by (simp flip: f(12))
  then show ?thesis
    unfolding h f(12) by (rule decode_toc_encoded) (use f al dec paths in simp_all)
qed

section \<open>The layout\<close>

lemma concat_ranges:
  "(\<And>i. i < n \<Longrightarrow> g i \<le> g (Suc i)) \<Longrightarrow> g 0 = 0 \<Longrightarrow> concat (map (\<lambda>i. [g i ..< g (Suc i)]) [0..<n]) = [0 ..< g n]"
proof (induction n)
  case (Suc n)
  have "0 \<le> g n" "g n \<le> g (Suc n)" using Suc.prems by simp_all
  then have "[0 ..< g n] @ [g n ..< g (Suc n)] = [0 ..< g (Suc n)]" by (metis upt_add_eq_append le_add_diff_inverse)
  then show ?case using Suc by simp
qed simp

lemma first_of_Suc: "i < length fs \<Longrightarrow> first_of fs (Suc i) = first_of fs i + length (snd (fs ! i))"
  by (simp add: first_of_def take_Suc_conv_app_nth)

lemma packed_layout:
  assumes pk: "packed E p fs arch plain stored h out" and al: "alloc_total E" and wide: "2 ^ 32 - 1 \<le> usize_max E"
    and fit: "files_fit E m stripped fs"
  shows "validate_layout E (final_entries p) (p_chunks p) (h_toc_offset h) (h_chunk_size h) (h_alignment h)
      (o_protection (p_options p) = Aead) (max_total_decompressed_bytes m) = Ok ()"
proof -
  note f = packed_facts [OF pk] and en = packed_entry [OF pk]
  let ?cs = "p_chunks p" and ?n = "o_chunk_size (p_options p)" and ?es = "final_entries p"
  have ci: "chunks_inv E arch p (concat (map snd fs))" and cfg: "packer_config E p"
    using pk by (simp_all add: packed_def)
  have sizes: "unat (h_toc_offset h) = length arch" "unat (h_chunk_size h) = ?n" "h_alignment h = o_alignment (p_options p)"
    using f(5) cfg unfolding f(1) by (auto simp: toc_header_def packer_config_def MAX_CHUNK_SIZE_def
        intro!: unat_of_nat_u64 unat_of_nat_u32)
  have "(\<Sum>c\<leftarrow>?cs. unat (c_original_size c)) = (\<Sum>g\<leftarrow>fs. length (concat (snd g)))"
    by (subst chunk_sizes [OF ci]) (induction fs, simp_all add: length_concat)
  then have chunks: "chunks_ok (length arch) ?n (unat (o_alignment (p_options p))) (o_protection (p_options p) = Aead)
      (unat (max_total_decompressed_bytes m)) ?cs"
    using ci fit unfolding chunks_ok_def chunks_inv_def files_fit_def by (intro conjI) (blast, blast, linarith)
  have entry: "entry_ok ?cs ?n (?es ! i)" if i: "i < length fs" for i
  proof -
    have inside: "first_of fs i + length (snd (fs ! i)) \<le> length ?cs" using first_of_le [OF i] f(11) by simp
    have pieces: "\<forall>d \<in> set (snd (fs ! i)). 0 < length d" "\<forall>j. Suc j < length (snd (fs ! i)) \<longrightarrow> length (snd (fs ! i) ! j) = ?n"
      using en(8) [OF i] by (simp_all add: chunked_def)
    have zero: "e_original_size (?es ! i) = 0 \<longleftrightarrow> e_chunk_count (?es ! i) = 0"
    proof -
      have "e_original_size (?es ! i) = 0 \<longleftrightarrow> concat (snd (fs ! i)) = []"
        using en(5) [OF i] by (simp add: word_unat_eq_iff)
      also have "\<dots> \<longleftrightarrow> snd (fs ! i) = []" using pieces(1) by (cases "snd (fs ! i)") auto
      also have "\<dots> \<longleftrightarrow> e_chunk_count (?es ! i) = 0"
        using en(4) [OF i] by (simp add: entry_count_def word_unat_eq_iff)
      finally show ?thesis .
    qed
    have full: "unat (c_original_size (entry_chunks ?cs (?es ! i) ! j)) = ?n" if j: "Suc j < length (snd (fs ! i))" for j
    proof -
      have "map (\<lambda>c. unat (c_original_size c)) (entry_chunks ?cs (?es ! i)) = map length (snd (fs ! i))"
        using arg_cong [OF chunk_sizes [OF ci], of "\<lambda>x. take (length (snd (fs ! i))) (drop (first_of fs i) x)"] pieces_of [OF i]
        by (simp add: entry_chunks_def en(3,4) [OF i] take_map drop_map)
      from arg_cong [OF this, of "\<lambda>x. x ! j"] show ?thesis
        using j inside pieces(2) by (simp add: entry_chunks_def en(3,4) [OF i])
    qed
    show ?thesis
      unfolding entry_ok_def en(3,4) [OF i] using inside zero full en(5-7) [OF i] by simp
  qed
  have "map entry_range ?es = map (\<lambda>i. [first_of fs i ..< first_of fs (Suc i)]) [0..<length fs]"
    using f(10) en(3,4) by (intro nth_equalityI) (simp_all add: entry_range_def first_of_Suc)
  moreover have "concat (map (\<lambda>i. [first_of fs i ..< first_of fs (Suc i)]) [0..<length fs]) = [0 ..< first_of fs (length fs)]"
    by (rule concat_ranges) (simp_all add: first_of_Suc, simp add: first_of_def)
  moreover have "first_of fs (length fs) = length ?cs" using f(11) by (simp add: first_of_def)
  ultimately have ranges: "concat (map entry_range ?es) = [0 ..< length ?cs]" by simp
  have "\<forall>e \<in> set ?es. entry_ok ?cs ?n e" using entry f(10) by (metis in_set_conv_nth)
  then have "layout_ok ?es ?cs (length arch) ?n (unat (o_alignment (p_options p))) (o_protection (p_options p) = Aead)
      (unat (max_total_decompressed_bytes m))"
    using chunks unfolding layout_ok_def ranges by auto
  moreover have "length ?cs \<le> usize_max E" using f(9) wide by simp
  ultimately show ?thesis using al by (simp add: validate_layout_Ok sizes)
qed

section \<open>The index\<close>

lemma records_bucket:
  "length (filter (\<lambda>r. fst r = a) (index_records es)) = length (filter (\<lambda>e. AssetId (en_path_hash e) = a) es)"
proof -
  have "map snd (enumerate 0 es) = es" by simp
  have "length (filter (\<lambda>r. fst r = a) (index_records es))
      = length (filter (\<lambda>x. AssetId (en_path_hash (snd x)) = a) (enumerate 0 es))"
    by (simp add: index_records_def filter_map comp_def case_prod_beta)
  also have "\<dots> = length (filter (\<lambda>e. AssetId (en_path_hash e) = a) (map snd (enumerate 0 es)))"
    by (simp add: filter_map comp_def del: map_snd_enumerate)
  finally show ?thesis by simp
qed

lemma distinct_count_le:
  assumes "distinct xs"
  shows "length (filter (\<lambda>x. x = v) xs) \<le> 1"
proof -
  have "length (filter (\<lambda>x. x = v) xs) = card (set (filter (\<lambda>x. x = v) xs))" using assms by (metis distinct_card distinct_filter)
  also have "\<dots> \<le> card {v}" by (rule card_mono) auto
  finally show ?thesis by simp
qed

lemma packed_index:
  assumes pk: "packed E p fs arch plain stored h out" and al: "alloc_total E" and safe: "env_safe E"
    and fit: "files_fit E m stripped fs" and ps: "ps = strips_paths (o_mode (p_options p))"
    and es: "es = map entry_from (final_entries p)"
  shows "validate_index E es (build_index E es) ps = Ok ()"
proof -
  note f = packed_facts [OF pk] and en = packed_entry [OF pk]
  have ei: "entries_inv E p fs" using pk by (simp add: packed_def)
  note bi = build_index_records [OF safe, of es]
  have len: "length es = length fs" using es f(10) by simp
  have hash: "en_path_hash (es ! i) = checksum E (fst (fs ! i))" "en_path (es ! i) = (if ps then [] else fst (fs ! i))"
    if "i < length fs" for i using that en(1,2) [OF that] f(10) ps by (simp_all add: es)
  have hashes: "map en_path_hash es = map (\<lambda>g. checksum E (fst g)) fs"
    using len hash by (intro nth_equalityI) simp_all
  have count: "length (bucket (build_index E es) (AssetId v)) = length (filter (\<lambda>g. checksum E (fst g) = v) fs)" for v
  proof -
    have "length (bucket (build_index E es) (AssetId v)) = length (filter (\<lambda>r. fst r = AssetId v) (index_records es))"
      using bi(2) unfolding bucket_def by (metis mset_filter size_mset)
    also have "\<dots> = length (filter (\<lambda>x. x = v) (map en_path_hash es))"
      unfolding records_bucket by (simp add: filter_map comp_def)
    finally show ?thesis unfolding hashes by (simp add: filter_map comp_def)
  qed
  have "bucket_ok es ps (bucket (build_index E es) a)" if a: "a \<in> fst ` set (build_index E es)" for a
  proof -
    let ?b = "bucket (build_index E es) a"
    from a obtain i where i: "i < length fs" "a = AssetId (checksum E (fst (fs ! i)))"
      using bi(3) len hash by (auto simp: set_index_records)
    have le: "length ?b \<le> 64" using fit i by (auto simp: files_fit_def count)
    have ne: "?b \<noteq> []" using a by (auto simp: bucket_def filter_empty_conv)
    have one: "length ?b = 1" if "ps"
    proof -
      have "distinct (map (\<lambda>g. checksum E (fst g)) fs)" using that ei ps by (simp add: entries_inv_def)
      from distinct_count_le [OF this] have "length ?b \<le> 1" unfolding i(2) count by (simp add: filter_map comp_def)
      then show ?thesis using ne by (cases ?b) auto
    qed
    have "distinct (map (\<lambda>r. en_path (es ! snd r)) ?b)"
    proof (cases ps)
      case True
      then show ?thesis using one by (cases ?b) auto
    next
      case False
      have "distinct (map snd (index_records es))" by (simp add: index_records_def comp_def case_prod_beta)
      then have "distinct (map snd (build_index E es))" using bi(2) by (metis mset_eq_imp_distinct_iff mset_map)
      then have d: "distinct (map snd ?b)" unfolding bucket_def by (rule distinct_map_filter)
      have "inj_on (\<lambda>i. en_path (es ! i)) (set (map snd ?b))"
      proof (rule inj_onI)
        fix x y
        assume "x \<in> set (map snd ?b)" "y \<in> set (map snd ?b)" "en_path (es ! x) = en_path (es ! y)"
        moreover from this have "x < length fs" "y < length fs" using bi(4) len by (auto simp: bucket_def)
        moreover have "distinct (map fst fs)" using ei by (simp add: entries_inv_def)
        ultimately show "x = y" using hash False by (simp add: distinct_conv_nth) metis
      qed
      then have "distinct (map (\<lambda>i. en_path (es ! i)) (map snd ?b))" using d by (simp add: distinct_map comp_inj_on)
      then show ?thesis by (simp add: comp_def)
    qed
    then show ?thesis using le one by (simp add: bucket_ok_def)
  qed
  then show ?thesis
    using al bi(1,4) by (simp add: validate_index_Ok index_ok_def)
qed

section \<open>Opening and reading\<close>

definition packed_archive :: "env \<Rightarrow> source \<Rightarrow> packer \<Rightarrow> header \<Rightarrow> archive_limits \<Rightarrow> archive" where
  "packed_archive E S p h l = \<lparr> a_source = S, a_entries = map entry_from (final_entries p), a_chunks = p_chunks p,
    a_index = build_index E (map entry_from (final_entries p)), a_chunk_size = h_chunk_size h,
    a_alignment = h_alignment h, a_paths_stripped = strips_paths (o_mode (p_options p)),
    a_protection = o_protection (p_options p), a_aead_key = p_aead_key p,
    a_max_chunks_per_operation = max_chunks_per_operation (clamped l) \<rparr>"

lemma packed_opens:
  assumes pk: "packed E p fs arch plain stored h out" and laws: "packer_laws E" and wide: "2 ^ 32 - 1 \<le> usize_max E"
    and src: "source_backed S out" and lim: "validate_limits E h (clamped l) = Ok ()"
    and fit: "files_fit E (clamped l) (strips_paths (o_mode (p_options p))) fs"
  shows "open_with_limits E S (p_key p) l = Ok (packed_archive E S p h l)"
proof -
  note f = packed_facts [OF pk]
  have al: "alloc_total E" "env_safe E" using laws by (simp_all add: packer_laws_def)
  have cfg: "packer_config E p" using pk by (simp add: packed_def)
  let ?prot = "o_protection (p_options p)"
  have h: "bit (h_flags h) 4 \<longleftrightarrow> strips_paths (o_mode (p_options p))" "bit (h_flags h) 5 \<longleftrightarrow> ?prot = Aead"
    "unat (h_toc_offset h) = length arch" "unat (h_toc_size h) = length stored" "h_alignment h = o_alignment (p_options p)"
    using f(5) unfolding f(1) by (auto simp: toc_header_def header_flags_bits intro!: unat_of_nat_u64)
  have prot: "?prot = (if bit (h_flags h) 5 then Aead else Xor)" by (cases ?prot) (simp_all add: h(2))
  have key: "p_key p \<noteq> []" "p_aead_key p = (if ?prot = Aead then Some (derive_key E (p_key p)) else None)"
    using cfg by (simp_all add: packer_config_def)
  have hd: "src_read_exact_at S 0 (replicate 60 0) = (Ok (), header_bytes h)"
    using src f(2-4) by (simp add: source_backed_def length_header_bytes)
  have len: "src_len S = Ok (of_nat (length out))" "unat (of_nat (length out) :: u64) = length out"
    using src unat_of_nat_u64 [of "length out"] unfolding source_backed_def by blast+
  have al_dvd: "unat (h_alignment h) dvd unat (h_toc_offset h)" using pk by (simp add: packed_def h(3,5))
  have range: "60 \<le> unat (h_toc_offset h)"
    "unat (h_toc_offset h) + unat (h_toc_size h) \<le> unat (of_nat (length out) :: u64)"
    using f(3,4) unfolding h(3,4) len(2) by linarith+
  note dec = packed_decode [OF pk al(1) wide fit]
  note lay = packed_layout [OF pk al(1) wide fit]
  note idx = packed_index [OF pk al(1,2) fit h(1) refl]
  show ?thesis
    unfolding packed_archive_def h(1) [symmetric]
    by (rule open_intro [OF key(1) al(1) hd len(1) packed_header_valid [OF pk] lim range al_dvd prot key(2)
          packed_open_toc [OF pk al(1) wide src] dec lay idx])
qed

lemma packed_wf:
  assumes "packed E p fs arch plain stored h out" "packer_laws E" "2 ^ 32 - 1 \<le> usize_max E"
    "source_backed S out" "validate_limits E h (clamped l) = Ok ()"
    "files_fit E (clamped l) (strips_paths (o_mode (p_options p))) fs"
  shows "archive_wf E (packed_archive E S p h l)"
proof -
  have "env_safe E" using assms(2) by (simp add: packer_laws_def)
  from open_with_limits_wf [OF this packed_opens [OF assms]] show ?thesis .
qed

text \<open>Every chunk reads back as the piece of the file it was made from.\<close>

lemma packed_chunk_reads:
  assumes pk: "packed E p fs arch plain stored h out" and laws: "packer_laws E" and wide: "2 ^ 32 - 1 \<le> usize_max E"
    and src: "source_backed S out" "source_safe S"
    and g: "g < length (p_chunks p)" and op: "1 \<le> max_chunks_per_operation (clamped l)"
  shows "chunk_reads E (packed_archive E S p h l) g (concat (map snd fs) ! g)"
proof -
  note f = packed_facts [OF pk]
  let ?A = "packed_archive E S p h l" and ?c = "p_chunks p ! g" and ?d = "concat (map snd fs) ! g"
  have al: "alloc_total E" using laws by (simp add: packer_laws_def)
  have ci: "chunks_inv E arch p (concat (map snd fs))" and cfg: "packer_config E p" using pk by (simp_all add: packed_def)
  have sc: "stored_chunk E (p_aead_key p) arch g ?c ?d"
    and ok: "chunk_ok (length arch) (o_chunk_size (p_options p)) (unat (o_alignment (p_options p)))
        (o_protection (p_options p) = Aead) ?c"
    using ci g f(11) nth_mem [OF g] unfolding chunks_inv_def by auto
  let ?n = "unat (c_stored_size ?c)" and ?off = "unat (c_offset ?c)"
  let ?b = "take ?n (drop ?off arch)"
  obtain plain where pl: "case p_aead_key p of None \<Rightarrow> plain = ?b | Some k \<Rightarrow> decrypt E ?b k (chunk_aad (of_nat g)) = Ok plain"
    and un: "if c_compressed ?c then \<forall>buf. length buf = length ?d \<longrightarrow> lz4_decompress_into E plain buf = (Inr (length ?d), ?d)
       else plain = ?d"
    and d: "length ?d = unat (c_original_size ?c)" "checksum E ?d = c_checksum ?c" "?off + ?n \<le> length arch"
    using sc by (auto simp: stored_chunk_def Let_def chunk_end_def)
  have "drop ?off out = drop ?off arch @ stored" using packed_region [OF pk, of ?off] ok d(3) by (simp add: chunk_ok_def)
  then have region: "take ?n (drop ?off out) = ?b" using d(3) by simp
  have rd: "src_read_exact_at S (c_offset ?c) buf = (Ok (), ?b)" if "length buf = ?n" for buf
    using src(1) that d(3) f(4) region by (simp add: source_backed_def)
  have sz: "unat (c_original_size ?c) \<le> usize_max E" "?n \<le> usize_max E"
    using ok cfg wide by (auto simp: chunk_ok_def chunk_payload_def packer_config_def MAX_CHUNK_SIZE_def split: if_splits)
  have ex: "\<exists>t. read_payload_into E ?A (of_nat g) ?c (replicate (length ?d) 0, []) = (Ok (), ?d, t)"
  proof (cases "p_aead_key p = None \<and> \<not> c_compressed ?c")
    case True
    then have "?b = ?d" using pl un by simp
    moreover have "length ?b = ?n" using d(3) by simp
    ultimately show ?thesis
      using True rd [of "replicate (length ?d) 0"] unfolding read_payload_into_def
      by (simp add: packed_archive_def from_io_def)
  next
    case False
    have s: "a_source ?A = S" "a_aead_key ?A = p_aead_key p" by (simp_all add: packed_archive_def)
    have eq: "read_payload_into E ?A (of_nat g) ?c = read_stored_into E ?A (of_nat g) ?c"
      using False unfolding read_payload_into_def s by (simp only: if_False)
    have "if c_compressed ?c
       then decompress_into_exact E plain ''decompressed chunk size mismatch'' (replicate (length ?d) 0) = (Ok (), ?d)
       else length plain = length (replicate (length ?d) (0 :: u8)) \<and> ?d = plain"
      using un by (simp add: decompress_into_exact_def)
    then have "read_stored_into E ?A (of_nat g) ?c (replicate (length ?d) 0, []) = (Ok (), ?d, ?b)"
      using sz(2) rd [of "resize [] ?n"] pl
      by (intro read_stored_into_Ok [OF al, of ?A, unfolded s, OF src(2), THEN iffD2] conjI exI [of _ plain]) (simp_all add: resize_def)
    then show ?thesis unfolding eq by blast
  qed
  have "g < 2 ^ 32" using g f(9) by simp
  then have u: "unat (of_nat g :: u32) = g" by (rule unat_of_nat_u32)
  have "g \<le> usize_max E" using g f(9) wide by simp
  then show ?thesis
    using ex op g sz(1) d \<open>g < 2 ^ 32\<close>
    by (auto simp: chunk_reads_def read_chunk_Ok Let_def u) (simp_all add: packed_archive_def)
qed

lemma packed_reads:
  assumes pk: "packed E p fs arch plain stored h out" and laws: "packer_laws E" and pure: "lz4_pure E"
    and wide: "2 ^ 32 - 1 \<le> usize_max E" and src: "source_backed S out" "source_safe S" "source_stable S"
    and lim: "validate_limits E h (clamped l) = Ok ()"
    and fit: "files_fit E (clamped l) (strips_paths (o_mode (p_options p))) fs"
    and i: "i < length fs" and path: "normalize_path E path = Ok (fst (fs ! i))"
    and mem: "length (concat (snd (fs ! i))) \<le> usize_max E"
  shows "read E (packed_archive E S p h l) path = Ok (concat (snd (fs ! i)))"
proof -
  note f = packed_facts [OF pk] and en = packed_entry [OF pk i]
  let ?A = "packed_archive E S p h l" and ?ds = "snd (fs ! i)"
  have wf: "archive_wf E ?A" by (rule packed_wf [OF pk laws wide src(1) lim fit])
  have rp: "reader_pure E ?A" using laws pure src(2,3) by (simp add: reader_pure_def packer_laws_def packed_archive_def)
  have e: "a_entries ?A ! i = entry_from (final_entries p ! i)" "length (a_entries ?A) = length fs"
    using i f(10) by (simp_all add: packed_archive_def)
  have first: "unat (e_first_chunk (final_entries p ! i)) = first_of fs i" "unat (e_chunk_count (final_entries p ! i)) = length ?ds"
    using en(3,4) by (simp_all add: entry_first_def entry_count_def)
  have g: "fs ! i \<in> set fs" using i by simp
  have count: "e_chunk_count (final_entries p ! i) \<le> max_chunks_per_operation (clamped l)"
    using fit g first(2) by (auto simp: files_fit_def word_le_nat_alt)
  have "chunk_reads E ?A (first_of fs i + j) (?ds ! j)" if j: "j < length ?ds" for j
  proof -
    have "first_of fs i + j < length (p_chunks p)" using first_of_le [OF i] f(11) j by simp
    moreover have "1 \<le> max_chunks_per_operation (clamped l)"
      using count first(2) j by (auto simp: word_le_nat_alt)
    ultimately have "chunk_reads E ?A (first_of fs i + j) (concat (map snd fs) ! (first_of fs i + j))"
      by (rule packed_chunk_reads [OF pk laws wide src(1,2)])
    moreover have "concat (map snd fs) ! (first_of fs i + j) = ?ds ! j"
    proof -
      have "first_of fs i \<le> length (concat (map snd fs))" using first_of_le [OF i] by simp
      then show ?thesis using arg_cong [OF pieces_of [OF i], of "\<lambda>x. x ! j"] j by simp
    qed
    ultimately show ?thesis by simp
  qed
  then have "entry_reads E ?A (a_entries ?A ! i) (concat ?ds)"
    unfolding entry_reads_def entry_parts_def e(1) by (intro exI [of _ ?ds]) (simp add: first)
  moreover have "path_matches E ?A (fst (fs ! i)) i"
    using en(1,2) i e f(10) by (simp add: path_matches_def packed_archive_def)
  ultimately show ?thesis
    unfolding read_Ok [OF rp wf] using path count mem en(5) e(1)
    by (intro exI [of _ "fst (fs ! i)"] exI [of _ i]) (simp add: packed_archive_def)
qed

section \<open>From the list of files to the archive\<close>

text \<open>What the writer holds after packing \<open>files\<close> has succeeded.\<close>

definition stored_as :: "env \<Rightarrow> input_file list \<Rightarrow> stored_files \<Rightarrow> bool" where
  "stored_as E files fs \<longleftrightarrow>
     list_all2 (\<lambda>f g. normalize_path E (f_path f) = Ok (fst g) \<and> concat (snd g) = f_data f) files fs"

definition archive_of :: "env \<Rightarrow> input_file list \<Rightarrow> bytes \<Rightarrow> pack_options \<Rightarrow> bytes \<Rightarrow> bool" where
  "archive_of E files key options out \<longleftrightarrow> (\<exists>p fs arch plain stored h.
     packed E p fs arch plain stored h out \<and> p_options p = options \<and> p_key p = key \<and> stored_as E files fs)"

lemma packed_intro:
  assumes st: "packer_state E content pos w p fs"
    and fin: "finished E (p\<lparr> p_offset := off, p_entries := final_entries p \<rparr>) arch plain stored h out"
    and ci: "chunks_inv E arch (p\<lparr> p_offset := off \<rparr>) (concat (map snd fs))"
    and al: "unat (o_alignment (p_options p)) dvd length arch"
  shows "packed E (p\<lparr> p_offset := off \<rparr>) fs arch plain stored h out"
proof -
  let ?p = "p\<lparr> p_offset := off \<rparr>"
  have "final_entries ?p = final_entries p" by (simp add: final_entries_def)
  moreover have "packer_config E ?p" "entries_inv E ?p fs"
    using st by (simp_all add: packer_state_def packer_config_def entries_inv_def)
  ultimately show ?thesis using fin ci al by (simp add: packed_def)
qed

context seek_writer
begin

text \<open>Packing returns, does not panic, and what it wrote on success is an archive of the files.\<close>

lemma pack_total:
  assumes laws: "packer_laws E" and fits: "o_chunk_size options \<le> usize_max E"
    and utf8: "\<forall>f \<in> set files. utf8_valid (f_path f)"
  shows "\<exists>res w'. pack_with_options E W files key options w = Some (res, w') \<and> res \<noteq> Panic
    \<and> (res = Ok () \<longrightarrow> archive_of E files key options (content w'))"
proof -
  obtain r0 w0 where new: "packer_new E W key options w = (r0, w0)" by fastforce
  note wp0 = wp_packer_new [OF laws fits, of key w]
  have np0: "r0 \<noteq> Panic" using wp_no_panic [OF wp0] unfolding new fst_conv .
  show ?thesis
  proof (cases r0)
    case (Err e)
    then show ?thesis using new by (simp add: pack_with_options_def)
  next
    case (Ok p)
    from wp_Ok [OF wp0 new [unfolded Ok]] have p: "p_options p = options" "p_key p = key"
      "packer_state E content pos w0 p []" by auto
    from add_files_total [OF laws p(3) utf8] obtain r1 w1 p1 where add: "add_files E W files (w0, p) = Some (r1, w1, p1)"
      "r1 \<noteq> Panic" and ok1: "r1 = Ok () \<Longrightarrow> p_options p1 = p_options p \<and> p_key p1 = p_key p
           \<and> (\<exists>gs. packer_state E content pos w1 p1 gs
                \<and> list_all2 (\<lambda>f g. normalize_path E (f_path f) = Ok (fst g) \<and> concat (snd g) = f_data f) files gs)"
      by auto
    show ?thesis
    proof (cases r1)
      case (Err e)
      then show ?thesis using new Ok add by (simp add: pack_with_options_def)
    next
      case ok: (Ok u)
      then obtain gs where gs: "p_options p1 = options" "p_key p1 = key" "packer_state E content pos w1 p1 gs"
        "stored_as E files gs" using ok1 p(1,2) by (auto simp: stored_as_def)
      obtain r2 w2 p2 where fin: "finish E W (w1, p1) = (r2, w2, p2)" by (rule prod_cases3)
      note wp2 = wp_finish [OF laws gs(3)]
      have np2: "r2 \<noteq> Panic" using wp_no_panic [OF wp2] unfolding fin fst_conv .
      have eq: "pack_with_options E W files key options w = Some (bind_res r2 (\<lambda>_. Ok ()), w2)"
        using new Ok add ok fin by (simp add: pack_with_options_def)
      have "archive_of E files key options (content w2)" if r2: "r2 = Ok summary" for summary
      proof -
        from wp_Ok [OF wp2 fin [unfolded r2]] obtain arch off plain stored h where
          f: "finished E (p1\<lparr> p_offset := off, p_entries := final_entries p1 \<rparr>) arch plain stored h (content w2)"
          "chunks_inv E arch (p1\<lparr> p_offset := off \<rparr>) (concat (map snd gs))"
          "unat (o_alignment (p_options p1)) dvd length arch" by auto
        have "packed E (p1\<lparr> p_offset := off \<rparr>) gs arch plain stored h (content w2)"
          by (rule packed_intro [OF gs(3) f])
        moreover have "p_options (p1\<lparr> p_offset := off \<rparr>) = options" "p_key (p1\<lparr> p_offset := off \<rparr>) = key"
          using gs(1,2) by simp_all
        ultimately show ?thesis using gs(4) unfolding archive_of_def by blast
      qed
      then show ?thesis using eq np2 by (cases r2) auto
    qed (use add in simp)
  qed (use np0 in simp)
qed

end

section \<open>Limits on the files\<close>

text \<open>
  The conditions under which the clamped limits \<open>m\<close> allow an archive of the files: sizes of
  single files and of all, the number of chunks of a file, the lengths of the paths (in a
  debug archive), and at most 64 files whose paths have the same hash.
\<close>

definition input_hash :: "env \<Rightarrow> input_file \<Rightarrow> u64" where
  "input_hash E f = (case normalize_path E (f_path f) of Ok n \<Rightarrow> checksum E n | _ \<Rightarrow> 0)"

definition inputs_fit :: "env \<Rightarrow> archive_limits \<Rightarrow> pack_options \<Rightarrow> input_file list \<Rightarrow> bool" where
  "inputs_fit E m options files \<longleftrightarrow>
     (\<forall>f \<in> set files. length (f_data f) \<le> unat (max_single_asset_bytes m)
        \<and> (length (f_data f) + o_chunk_size options - 1) div o_chunk_size options \<le> unat (max_chunks_per_operation m)
        \<and> (strips_paths (o_mode options) \<or> length (f_path f) \<le> max_path_bytes m)
        \<and> length (filter (\<lambda>g. input_hash E g = input_hash E f) files) \<le> 64)
   \<and> (\<Sum>f\<leftarrow>files. length (f_data f)) \<le> unat (max_total_decompressed_bytes m)
   \<and> (strips_paths (o_mode options) \<or> (\<Sum>f\<leftarrow>files. length (f_path f)) \<le> unat (max_total_path_bytes m))"

lemma chunked_count: "chunked n ds \<Longrightarrow> 0 < n \<Longrightarrow> length ds = (length (concat ds) + n - 1) div n"
proof (induction ds)
  case (Cons d ds)
  have c: "chunked n ds"
  proof -
    have "length (ds ! i) = n" if "Suc i < length ds" for i
      using Cons.prems(1) that unfolding chunked_def by (metis Suc_less_eq length_Cons nth_Cons_Suc)
    then show ?thesis using Cons.prems(1) by (simp add: chunked_def)
  qed
  show ?case
  proof (cases "ds = []")
    case True
    have "0 < length d \<and> length d \<le> n" using Cons.prems(1) by (simp add: chunked_def)
    then obtain m where "length d = Suc m" "m < n" by (cases "length d") auto
    then have "(length d + n - 1) div n = 1" using div_add_self2 [of n m] by simp
    then show ?thesis using True by simp
  next
    case False
    then have "length d = n" using Cons.prems(1) unfolding chunked_def by (metis Suc_less_eq length_Cons length_greater_0_conv nth_Cons_0)
    then have "length (concat (d # ds)) + n - 1 = (length (concat ds) + n - 1) + n" using Cons.prems(2) by simp
    then have "(length (concat (d # ds)) + n - 1) div n = Suc ((length (concat ds) + n - 1) div n)"
      using Cons.prems(2) by (simp only: div_add_self2 [OF less_imp_neq [OF Cons.prems(2), symmetric]] Suc_eq_plus1)
    then show ?thesis using Cons.IH [OF c Cons.prems(2)] by simp
  qed
qed simp

lemma stored_as_fit:
  assumes st: "stored_as E files fs" and fit: "inputs_fit E m options files"
    and n: "0 < o_chunk_size options" and ch: "\<forall>g \<in> set fs. chunked (o_chunk_size options) (snd g)"
  shows "files_fit E m (strips_paths (o_mode options)) fs"
proof -
  let ?ps = "strips_paths (o_mode options)"
  note all = st [unfolded stored_as_def list_all2_conv_all_nth]
  have len: "length fs = length files" using all by simp
  have at: "normalize_path E (f_path (files ! i)) = Ok (fst (fs ! i))" "concat (snd (fs ! i)) = f_data (files ! i)"
    "length (fst (fs ! i)) \<le> length (f_path (files ! i))" "checksum E (fst (fs ! i)) = input_hash E (files ! i)"
    if "i < length files" for i
  proof -
    show *: "normalize_path E (f_path (files ! i)) = Ok (fst (fs ! i))" "concat (snd (fs ! i)) = f_data (files ! i)"
      using all that by auto
    show "length (fst (fs ! i)) \<le> length (f_path (files ! i))" using *(1) by (rule normalize_path_parts)
    show "checksum E (fst (fs ! i)) = input_hash E (files ! i)" using *(1) by (simp add: input_hash_def)
  qed
  have hashes: "map (\<lambda>g. checksum E (fst g)) fs = map (input_hash E) files"
    and datas: "map (\<lambda>g. length (concat (snd g))) fs = map (\<lambda>f. length (f_data f)) files"
    using len at by (auto intro!: nth_equalityI)
  have count: "length (filter (\<lambda>g. checksum E (fst g) = v) fs) = length (filter (\<lambda>f. input_hash E f = v) files)" for v
    using arg_cong [OF hashes, of "\<lambda>x. length (filter (\<lambda>y. y = v) x)"] by (simp add: filter_map comp_def)
  have paths: "(\<Sum>g\<leftarrow>fs. length (fst g)) \<le> (\<Sum>f\<leftarrow>files. length (f_path f))"
  proof -
    have "(\<Sum>g\<leftarrow>fs. length (fst g)) = (\<Sum>i = 0..<length files. length (fst (fs ! i)))"
      by (simp add: sum_list_sum_nth len)
    also have "\<dots> \<le> (\<Sum>i = 0..<length files. length (f_path (files ! i)))" using at(3) by (intro sum_mono) simp
    also have "\<dots> = (\<Sum>f\<leftarrow>files. length (f_path f))" by (simp add: sum_list_sum_nth)
    finally show ?thesis .
  qed
  have one: "length (concat (snd (fs ! i))) \<le> unat (max_single_asset_bytes m)
      \<and> length (snd (fs ! i)) \<le> unat (max_chunks_per_operation m)
      \<and> (?ps \<or> length (fst (fs ! i)) \<le> max_path_bytes m)
      \<and> length (filter (\<lambda>g'. checksum E (fst g') = checksum E (fst (fs ! i))) fs) \<le> 64" if i: "i < length files" for i
  proof -
    have "fs ! i \<in> set fs" using i len by simp
    then have "length (snd (fs ! i)) = (length (f_data (files ! i)) + o_chunk_size options - 1) div o_chunk_size options"
      using chunked_count [OF _ n] ch at(2) [OF i] by metis
    moreover have "length (f_data (files ! i)) \<le> unat (max_single_asset_bytes m)"
      "(length (f_data (files ! i)) + o_chunk_size options - 1) div o_chunk_size options \<le> unat (max_chunks_per_operation m)"
      "?ps \<or> length (f_path (files ! i)) \<le> max_path_bytes m"
      "length (filter (\<lambda>g. input_hash E g = input_hash E (files ! i)) files) \<le> 64"
      using fit nth_mem [OF i] unfolding inputs_fit_def by blast+
    ultimately show ?thesis
      using at(3) [OF i] unfolding count at(2,4) [OF i] by linarith
  qed
  then have "\<forall>g \<in> set fs. length (concat (snd g)) \<le> unat (max_single_asset_bytes m)
        \<and> length (snd g) \<le> unat (max_chunks_per_operation m)
        \<and> (?ps \<or> length (fst g) \<le> max_path_bytes m)
        \<and> length (filter (\<lambda>g'. checksum E (fst g') = checksum E (fst g)) fs) \<le> 64"
    using len by (fastforce simp: in_set_conv_nth)
  moreover have "(\<Sum>g\<leftarrow>fs. length (concat (snd g))) \<le> unat (max_total_decompressed_bytes m)"
    unfolding datas using fit by (simp add: inputs_fit_def)
  moreover have "?ps \<or> (\<Sum>g\<leftarrow>fs. length (fst g)) \<le> unat (max_total_path_bytes m)"
    using fit paths by (auto simp: inputs_fit_def)
  ultimately show ?thesis unfolding files_fit_def by blast
qed

context seek_writer
begin

text \<open>Finishing a packer that stands for the files leaves an archive of them.\<close>

lemma wp_finish_archive:
  assumes laws: "packer_laws E" and st: "packer_state E content pos w p fs" and files: "stored_as E inputs fs"
    and p: "p_options p = options" "p_key p = key"
  shows "wp_st (finish E W) (\<lambda>_ (w', p'). archive_of E inputs key options (content w')) (\<lambda>_. True) (w, p)"
proof (rule wp_conseq [OF wp_finish [OF laws st]], goal_cases)
  case (1 summary s)
  obtain w' p' where s: "s = (w', p')" by fastforce
  with 1 obtain arch off plain stored h where
    f: "finished E (p\<lparr> p_offset := off, p_entries := final_entries p \<rparr>) arch plain stored h (content w')"
    "chunks_inv E arch (p\<lparr> p_offset := off \<rparr>) (concat (map snd fs))" "unat (o_alignment (p_options p)) dvd length arch"
    by auto
  have "packed E (p\<lparr> p_offset := off \<rparr>) fs arch plain stored h (content w')" by (rule packed_intro [OF st f])
  moreover have "p_options (p\<lparr> p_offset := off \<rparr>) = options" "p_key (p\<lparr> p_offset := off \<rparr>) = key" using p by simp_all
  ultimately show ?case using s files unfolding archive_of_def by blast
qed simp

end

lemma archive_reads_back:
  assumes arch: "archive_of E files key options out" and laws: "packer_laws E" and pure: "lz4_pure E"
    and wide: "2 ^ 32 - 1 \<le> usize_max E" and src: "source_backed S out" "source_safe S" "source_stable S"
    and lim: "\<forall>h rest. read_header out = Ok (h, rest) \<longrightarrow> validate_limits E h (clamped l) = Ok ()"
    and fit: "inputs_fit E (clamped l) options files"
    and mem: "\<forall>f \<in> set files. length (f_data f) \<le> usize_max E"
  shows "\<exists>A. open_with_limits E S key l = Ok A \<and> length (a_entries A) = length files
    \<and> (\<forall>f \<in> set files. read E A (f_path f) = Ok (f_data f))"
proof -
  from arch obtain p fs arch plain stored h where pk: "packed E p fs arch plain stored h out"
    and p: "p_options p = options" "p_key p = key" and st: "stored_as E files fs" by (auto simp: archive_of_def)
  have "\<forall>g \<in> set fs. chunked (o_chunk_size options) (snd g)"
    using packed_entry(8) [OF pk] p(1) by (metis in_set_conv_nth)
  moreover have "0 < o_chunk_size options" using pk p(1) by (auto simp: packed_def packer_config_def)
  ultimately have ff: "files_fit E (clamped l) (strips_paths (o_mode (p_options p))) fs"
    using stored_as_fit [OF st fit] p(1) by simp
  have "validate_limits E h (clamped l) = Ok ()"
    using lim packed_facts(2) [OF pk] read_header_append [of h] by blast
  note hd = this
  note all = st [unfolded stored_as_def list_all2_conv_all_nth]
  have "read E (packed_archive E S p h l) (f_path f) = Ok (f_data f)" if "f \<in> set files" for f
  proof -
    from that obtain i where i: "i < length files" "f = files ! i" by (auto simp: in_set_conv_nth)
    with all have "i < length fs" "normalize_path E (f_path f) = Ok (fst (fs ! i))" "concat (snd (fs ! i)) = f_data f" by auto
    then show ?thesis using packed_reads [OF pk laws pure wide src hd ff] mem that by metis
  qed
  moreover have "length (a_entries (packed_archive E S p h l)) = length files"
    using packed_facts(10) [OF pk] all by (simp add: packed_archive_def)
  ultimately show ?thesis
    using packed_opens [OF pk laws wide src(1) hd ff] p(2) by blast
qed

end
