(* ===== verification/Sample_Pack.thy ===== *)
theory Sample_Pack
  imports Pack_Roundtrip
begin

text \<open>
  One concrete run of the packer: packing the asset \<open>a\<close> with the bytes 9, 9, 9, 9, 5 in chunks
  of four writes exactly the sample archive of the reader's theory.
\<close>

section \<open>Inputs and intermediate results\<close>

definition demo_options :: pack_options where
  "demo_options = \<lparr> o_chunk_size = 4, o_alignment = 16, o_mode = Debug, o_protection = Xor \<rparr>"

definition demo_file :: input_file where
  "demo_file = \<lparr> f_path = [0x61], f_data = [9, 9, 9, 9, 5] \<rparr>"

definition demo_packer :: "toc_entry list \<Rightarrow> chunk list \<Rightarrow> u64 set \<Rightarrow> bytes \<Rightarrow> bytes \<Rightarrow> u64 \<Rightarrow> packer" where
  "demo_packer entries chunks seen raw compressed offset =
     \<lparr> p_key = [7], p_aead_key = None, p_options = demo_options, p_entries = entries, p_chunks = chunks,
       p_seen_hashes = seen, p_raw = raw, p_compressed = compressed, p_offset = offset, p_failed = False,
       p_nonces = 0 \<rparr>"

lemma fill_slice:
  assumes "length buffer \<le> usize_max E"
  shows "fill_chunk E slice_reader buffer data =
    Some (Ok (min (length buffer) (length data)), take (length buffer) data @ drop (length data) buffer, drop (length buffer) data)"
proof -
  have one: "read_chunk_loop E slice_reader buffer n r =
      (if n < length buffer \<and> r \<noteq> [] then read_chunk_loop E slice_reader (take n buffer @ take (length buffer - n) r @ drop (n + length r) buffer)
          (n + min (length buffer - n) (length r)) (drop (length buffer - n) r)
       else Some (Ok n, buffer, r))" if "n \<le> length buffer" "length buffer \<le> usize_max E" for buffer n r
    using that by (subst read_chunk_loop.simps) (auto simp: slice_reader_def Let_def min_def not_less add.commute)
  show ?thesis
  proof (cases "buffer = [] \<or> data = []")
    case True
    then show ?thesis using assms one [of 0 buffer data] by (auto simp: fill_chunk_def)
  next
    case False
    let ?b = "take (length buffer) data @ drop (length data) buffer" and ?m = "min (length buffer) (length data)"
    have "fill_chunk E slice_reader buffer data = read_chunk_loop E slice_reader ?b ?m (drop (length buffer) data)"
      using False assms one [of 0 buffer data] by (simp add: fill_chunk_def)
    also have "\<dots> = Some (Ok ?m, ?b, drop (length buffer) data)"
      using assms by (subst one) (auto simp: min_def)
    finally show ?thesis .
  qed
qed

lemma demo_alignment: "validate_alignment 16 = Ok ()"
proof -
  have "\<exists>k \<le> 20. unat (16 :: u32) = 2 ^ k" by (rule exI [of _ 4]) simp
  then show ?thesis by (simp add: res_simps)
qed

lemma sample_bound: "lz4_max_output_size sample_env n = Suc n"
  by (simp add: sample_env_def)

lemma demo_checksum: "checksum sample_env d = sample_hash d"
  by (simp add: checksum_def sample_env_def)

lemma demo_register:
  "register_path sample_env [0x61] (w, demo_packer [] [] {} raw out off) =
     (Ok ([0x61], sample_hash [0x61]), w, demo_packer [] [] {sample_hash [0x61]} raw out off)"
  by (simp add: register_path_def Let_def bind_st_def lift_st_def demo_path get_packer_def set_packer_def demo_packer_def
      demo_checksum)

lemma demo_slices:
  "slice_range [1, 9, 4, 0, 0] 0 3 = (Ok [1, 9, 4] :: (bytes, error) res)"
  "slice_range [9, 9, 9, 9] 0 4 = (Ok [9, 9, 9, 9] :: (bytes, error) res)"
  "slice_range [5, 9, 9, 9] 0 (Suc 0) = (Ok [5] :: (bytes, error) res)"
  by (simp_all add: slice_range_Ok)

lemma sample_compress:
  "length (sample_pack d) \<le> length out \<Longrightarrow>
   lz4_compress_into sample_env d out = (Inr (length (sample_pack d)), put_range out 0 (sample_pack d))"
  by (simp add: sample_env_def)

lemma demo_sample_pack: "sample_pack [9, 9, 9, 9] = [1, 9, 4]" "sample_pack [5] = [0, 5]"
  by (simp_all add: sample_pack_def replicate_3_4)

lemma demo_compress:
  "compress_raw sample_env 4 (w, demo_packer [] [] hs [9, 9, 9, 9] (0 # replicate 4 0) off)
     = (Ok 3, w, demo_packer [] [] hs [9, 9, 9, 9] [1, 9, 4, 0, 0] off)"
  "compress_raw sample_env 1 (w, demo_packer [] cs hs [5, 9, 9, 9] [1, 9, 4, 0, 0] off)
     = (Ok 2, w, demo_packer [] cs hs [5, 9, 9, 9] [0, 5, 4, 0, 0] off)"
  by (simp_all add: compress_raw_def demo_packer_def demo_slices sample_compress demo_sample_pack put_range_def replicate_3_4)

definition demo_payload :: bytes where
  "demo_payload = replicate 64 0 @ [1, 9, 4] @ replicate 13 0 @ [5]"

lemma demo_record:
  "record_entry sample_env [0x61] (sample_hash [0x61]) 0 0 (5, 4) (w, demo_packer [] demo_chunks hs raw out off)
     = (Ok (), w, demo_packer [demo_entry] demo_chunks hs raw out off)"
  by (simp add: demo_packer_def record_entry_def Let_def bind_st_def lift_st_def get_packer_def set_packer_def
      usize_to_u32_def demo_chunks_def demo_entry_def demo_checksum)

lemma demo_encode: "encode_toc sample_env [demo_entry] demo_chunks = Ok demo_toc"
  unfolding encode_toc_Ok using length_demo(1)
  by (simp add: demo_toc_def demo_max sample_env_alloc MAX_TOC_RAW_SIZE_def) (simp add: demo_entry_def MAX_PATH_LEN_def)

lemma demo_pack_toc: "sample_pack demo_toc = 0 # demo_toc"
proof -
  obtain rest where t: "demo_toc = 0x54 # 0x4F # rest" by (simp add: demo_toc_def toc_bytes_def TOC_MAGIC_def)
  have "demo_toc \<noteq> replicate (length demo_toc) (hd demo_toc)" by (simp add: t)
  then show ?thesis by (simp add: sample_pack_def)
qed

lemma demo_xor: "xor_in_place data [7] = Ok (map (\<lambda>b. b XOR 7) data)"
proof -
  have "map (\<lambda>j. data ! j XOR [7] ! (j mod length [7 :: u8])) [0..<length data] = map (\<lambda>b. b XOR 7) data"
    by (rule nth_equalityI) simp_all
  then show ?thesis by (simp add: xor_in_place_eq)
qed

lemma demo_store:
  "store_toc sample_env demo_toc (w, demo_packer es cs hs raw out off)
     = (Ok (map (\<lambda>b. b XOR 7) (0 # demo_toc)), w, demo_packer es cs hs raw out off)"
proof -
  have "lz4_compress_into sample_env demo_toc (replicate (Suc (length demo_toc)) 0) = (Inr (Suc (length demo_toc)), 0 # demo_toc)"
    by (simp add: sample_compress demo_pack_toc put_range_def)
  then show ?thesis
    unfolding store_toc_def Let_def sample_bound
    by (simp add: bind_st_def lift_st_def sample_env_alloc get_packer_def demo_packer_def demo_xor)
qed

definition demo_done :: "u64 \<Rightarrow> packer" where
  "demo_done off = demo_packer [demo_entry] demo_chunks {sample_hash [0x61]} [5, 9, 9, 9] [0, 5, 4, 0, 0] off"

lemma sample_packer_laws: "packer_laws sample_env"
  by (simp add: packer_laws_def sample_env_safe sample_env_lz4 sample_env_bound sample_env_aead sample_env_alloc)

text \<open>The sample is within the limits, the tools' and the runtime's.\<close>

lemma demo_limits:
  assumes "l = runtime_default \<or> l = tooling_default"
  shows "\<forall>h rest. read_header demo_bytes = Ok (h, rest) \<longrightarrow> validate_limits sample_env h (clamped l) = Ok ()"
    and "inputs_fit sample_env (clamped l) demo_options [demo_file]"
proof -
  have "read_header demo_bytes = Ok (h, rest) \<Longrightarrow> h = demo_header" for h rest
    by (simp add: demo_bytes_def read_header_append)
  then show "\<forall>h rest. read_header demo_bytes = Ok (h, rest) \<longrightarrow> validate_limits sample_env h (clamped l) = Ok ()"
    using demo_validate_limits assms unfolding sample_limits_def by blast
  show "inputs_fit sample_env (clamped l) demo_options [demo_file]"
    using assms
    by (auto simp: inputs_fit_def demo_file_def demo_options_def clamped_def runtime_default_def tooling_default_def min_def
        HARD_MAX_SINGLE_ASSET_BYTES_def HARD_MAX_TOTAL_DECOMPRESSED_BYTES_def HARD_MAX_CHUNKS_PER_OPERATION_def
        HARD_MAX_CHUNKS_def HARD_MAX_PATH_BYTES_def HARD_MAX_TOTAL_PATH_BYTES_def MAX_PATH_LEN_def)
qed

section \<open>The run\<close>

text \<open>
  The run is the same for every writer whose states are a content and a position, written and
  moved like a vector's.
\<close>

locale plain_writer =
  fixes W :: "'s writer" and st :: "bytes \<Rightarrow> nat \<Rightarrow> 's"
  assumes plain_write: "w_write_all W data (st content n) = (Ok (), st (overwrite content n data) (n + length data))"
    and plain_seek: "w_seek_start W offset (st content n) = (Ok offset, st content (unat offset))"
    and plain_end: "length content < 2 ^ 64 \<Longrightarrow> w_seek_end W (st content n) = (Ok (of_nat (length content)), st content (length content))"
begin

lemma demo_new:
  "packer_new sample_env W [7] demo_options (st [] 0) =
     (Ok (demo_packer [] [] {} (replicate 4 0) (0 # replicate 4 0) 60), st (replicate 60 0) 60)"
  by (simp add: packer_new_def Let_def bind_st_def lift_st_def demo_options_def demo_packer_def pack_options_validate_def
      validate_chunk_size_def demo_alignment MAX_CHUNK_SIZE_def sample_bound
      plain_write plain_seek plain_end overwrite_def HEADER_SIZE_def sample_env_alloc from_io_def)

lemma vec_append: "w_write_all W data (st content (length content)) = (Ok (), st (content @ data) (length (content @ data)))"
  by (simp add: plain_write overwrite_end)

lemma demo_zeros:
  assumes "k \<le> 4096" "n = length content"
  shows "write_zeros sample_env W (of_nat k) (st content n, p) = (Ok (), st (content @ replicate k 0) (n + k), p)"
proof -
  have u: "unat (of_nat k :: u64) = k" using assms by (intro unat_of_nat_u64) simp
  then have m: "min (of_nat k) 4096 = (of_nat k :: u64)" "(of_nat k :: u64) = 0 \<longleftrightarrow> k = 0"
    using assms by (simp_all add: min_def word_le_nat_alt word_unat_eq_iff)
  show ?thesis
    using assms u
    by (subst write_zeros.simps, simp add: m bind_st_def lift_st_def u64_to_usize_def demo_max usize_to_u64_def
        on_writer_def vec_append [of _ content, simplified] from_io_def checked_sub_def)
      (simp add: write_zeros.simps)
qed

lemma demo_align:
  assumes "unat off \<le> 80 + 16" "n = length content"
    and "up = (unat off + 15) div 16 * 16" "k = up - unat off"
  shows "align sample_env W (st content n, demo_packer es cs hs raw out off) =
    (Ok (), st (content @ replicate k 0) (n + k), demo_packer es cs hs raw out (of_nat up))"
proof -
  have up: "up < 2 ^ 64" "unat off \<le> up" "up - unat off \<le> 4096" "unat off + 15 < 2 ^ 64"
    using assms(1) div_mult_mod_eq [of "unat off + 15" 16] mod_less_divisor [OF zero_less_numeral, of "unat off + 15" "num.Bit0 (num.Bit0 (num.Bit0 (num.Bit0 num.One)))"]
    unfolding assms(3) by simp_all
  then have u: "unat (of_nat up :: u64) = up" by (intro unat_of_nat_u64)
  have "align_up off 16 = (Ok (of_nat up) :: (u64, error) res)"
    using align_up_pow2 [of "16 :: u64" 4 off] up(4) assms(3) by simp
  moreover have "sub_or_panic (of_nat up) off = (Ok (of_nat k) :: (u64, error) res)"
    using up(2) u assms(4) unfolding sub_or_panic_def
    by (simp add: word_le_nat_alt word_unat_eq_iff unat_sub unat_of_nat)
  moreover have "k \<le> 4096" using up(3) assms(4) by simp
  ultimately show ?thesis
    using demo_zeros [of k n content] assms(2)
    by (simp add: align_def bind_st_def lift_st_def get_packer_def set_packer_def demo_packer_def demo_options_def)
qed

lemma demo_append:
  "append_chunk sample_env W 4 3 (0, 0)
       (st (replicate 64 0) 64, demo_packer [] [] hs [9, 9, 9, 9] [1, 9, 4, 0, 0] 64) =
     (Ok (4, 3), st (replicate 64 0 @ [1, 9, 4]) 67, demo_packer [] [demo_chunks ! 0] hs [9, 9, 9, 9] [1, 9, 4, 0, 0] 67)"
  "length content = 80 \<Longrightarrow>
   append_chunk sample_env W 1 2 (4, 3)
       (st content 80, demo_packer [] [demo_chunks ! 0] hs [5, 9, 9, 9] [0, 5, 4, 0, 0] 80) =
     (Ok (5, 4), st (content @ [5]) 81, demo_packer [] demo_chunks hs [5, 9, 9, 9] [0, 5, 4, 0, 0] 81)"
  using vec_append [of "[1, 9, 4]" "replicate 64 0"] vec_append [of "[5]" content]
  by (simp_all add: append_chunk_def Let_def bind_st_def lift_st_def get_packer_def set_packer_def demo_packer_def demo_slices
      usize_to_u32_def usize_to_u64_def on_writer_def from_io_def checked_add_def demo_chunks_def demo_checksum)

lemma demo_chunk_1:
  "pack_chunk sample_env W 4 (0, 0) (st (replicate 60 0) 60, demo_packer [] [] hs [9, 9, 9, 9] (0 # replicate 4 0) 60) =
     (Ok (4, 3), st (replicate 64 0 @ [1, 9, 4]) 67, demo_packer [] [demo_chunks ! 0] hs [9, 9, 9, 9] [1, 9, 4, 0, 0] 67)"
proof -
  have "align sample_env W (st (replicate 60 0) 60, demo_packer [] cs hs raw out 60)
      = (Ok (), st (replicate 60 0 @ replicate 4 0) (60 + 4), demo_packer [] cs hs raw out (of_nat 64))" for cs raw out
    by (rule demo_align) simp_all
  moreover have "replicate 60 0 @ replicate 4 0 = (replicate 64 0 :: bytes)" by (simp flip: replicate_add)
  ultimately have al: "align sample_env W (st (replicate 60 0) 60, demo_packer [] cs hs raw out 60)
      = (Ok (), st (replicate 64 0) 64, demo_packer [] cs hs raw out 64)" for cs raw out by simp
  show ?thesis
    unfolding pack_chunk_def bind_st_def demo_compress(1) al prod.case res.case demo_append(1) by (rule refl)
qed

lemma demo_chunk_2:
  "pack_chunk sample_env W (Suc 0) (4, 3) (st (replicate 64 0 @ [1, 9, 4]) 67,
       demo_packer [] [demo_chunks ! 0] hs [5, 9, 9, 9] [1, 9, 4, 0, 0] 67) =
     (Ok (5, 4), st demo_payload 81, demo_packer [] demo_chunks hs [5, 9, 9, 9] [0, 5, 4, 0, 0] 81)"
proof -
  let ?c = "(replicate 64 0 @ [1, 9, 4]) @ replicate 13 0 :: bytes"
  have al: "align sample_env W (st (replicate 64 0 @ [1, 9, 4]) 67, demo_packer [] cs hs raw out 67)
      = (Ok (), st ?c 80, demo_packer [] cs hs raw out 80)" for cs raw out
  proof -
    have "align sample_env W (st (replicate 64 0 @ [1, 9, 4]) 67, demo_packer [] cs hs raw out 67)
      = (Ok (), st ?c (67 + 13), demo_packer [] cs hs raw out (of_nat 80))"
      by (rule demo_align) simp_all
    then show ?thesis by simp
  qed
  have "append_chunk sample_env W (Suc 0) 2 (4, 3) (st ?c 80, demo_packer [] [demo_chunks ! 0] hs [5, 9, 9, 9] [0, 5, 4, 0, 0] 80)
      = (Ok (5, 4), st (?c @ [5]) 81, demo_packer [] demo_chunks hs [5, 9, 9, 9] [0, 5, 4, 0, 0] 81)"
    using demo_append(2) [of ?c hs] by simp
  then show ?thesis
    unfolding pack_chunk_def bind_st_def demo_compress(2) [unfolded One_nat_def] al prod.case res.case
    by (simp add: demo_payload_def)
qed

lemma demo_chunks:
  "pack_chunks sample_env W slice_reader (0, 0) [9, 9, 9, 9, 5]
       (st (replicate 60 0) 60, demo_packer [] [] hs (replicate 4 0) (0 # replicate 4 0) 60) =
     Some (Ok (5, 4), [], st demo_payload 81, demo_packer [] demo_chunks hs [5, 9, 9, 9] [0, 5, 4, 0, 0] 81)"
proof -
  have raw: "demo_packer es cs hs raw out off\<lparr> p_raw := raw' \<rparr> = demo_packer es cs hs raw' out off"
    "p_raw (demo_packer es cs hs raw out off) = raw" for es cs hs raw raw' out off
    by (simp_all add: demo_packer_def)
  have f: "fill_chunk sample_env slice_reader (replicate 4 0) [9, 9, 9, 9, 5] = Some (Ok 4, [9, 9, 9, 9], [5])"
    "fill_chunk sample_env slice_reader [9, 9, 9, 9] [5] = Some (Ok (Suc 0), [5, 9, 9, 9], [])"
    "fill_chunk sample_env slice_reader [5, 9, 9, 9] [] = Some (Ok 0, [5, 9, 9, 9], [])"
    by (simp_all add: fill_slice demo_max replicate_3_4)
  have 1: "pack_chunks sample_env W slice_reader (0, 0) [9, 9, 9, 9, 5]
       (st (replicate 60 0) 60, demo_packer [] [] hs (replicate 4 0) (0 # replicate 4 0) 60)
     = pack_chunks sample_env W slice_reader (4, 3) [5]
       (st (replicate 64 0 @ [1, 9, 4]) 67, demo_packer [] [demo_chunks ! 0] hs [9, 9, 9, 9] [1, 9, 4, 0, 0] 67)"
    by (subst pack_chunks.simps) (simp add: raw f demo_chunk_1)
  have 2: "pack_chunks sample_env W slice_reader (4, 3) [5]
       (st (replicate 64 0 @ [1, 9, 4]) 67, demo_packer [] [demo_chunks ! 0] hs [9, 9, 9, 9] [1, 9, 4, 0, 0] 67)
     = pack_chunks sample_env W slice_reader (5, 4) []
       (st demo_payload 81, demo_packer [] demo_chunks hs [5, 9, 9, 9] [0, 5, 4, 0, 0] 81)"
    by (subst pack_chunks.simps) (simp add: raw f demo_chunk_2 del: append.simps)
  show ?thesis unfolding 1 2 by (subst pack_chunks.simps) (simp add: raw f)
qed

lemma demo_add:
  "add_reader sample_env W slice_reader [0x61] [9, 9, 9, 9, 5]
       (st (replicate 60 0) 60, demo_packer [] [] {} (replicate 4 0) (0 # replicate 4 0) 60) =
     Some (Ok (), [], st demo_payload 81,
       demo_packer [demo_entry] demo_chunks {sample_hash [0x61]} [5, 9, 9, 9] [0, 5, 4, 0, 0] 81)"
proof -
  have f: "p_failed (demo_packer es cs hs raw out off) = False" "p_chunks (demo_packer es cs hs raw out off) = cs"
    "(demo_packer es cs hs raw out off)\<lparr> p_failed := False \<rparr> = demo_packer es cs hs raw out off" for es cs hs raw out off
    by (simp_all add: demo_packer_def)
  have "usize_to_u32 0 what = Ok 0" for what by (simp add: usize_to_u32_def)
  then show ?thesis
    unfolding add_reader_def add_reader_inner_def bind_st_def demo_register get_packer_def lift_st_def prod.case res.case
    by (simp add: f demo_chunks demo_record)
qed

lemma demo_finish_toc:
  assumes "length content = 96"
  shows "finish_toc sample_env W (st content 96, demo_done 96)
    = (Ok \<lparr> ps_archive_len = 210, ps_entry_count = 1, ps_chunk_count = 2 \<rparr>,
       st (header_bytes demo_header @ drop 60 content @ map (\<lambda>b. b XOR 7) (0 # demo_toc)) 210, demo_done 210)"
proof -
  define toc where "toc = map (\<lambda>b. b XOR 7) (0 # demo_toc)"
  have len: "length toc = 114" by (simp add: toc_def length_demo)
  have fields: "p_offset (demo_done 96) = 96" "p_entries (demo_done 96) = [demo_entry]" "p_chunks (demo_done 96) = demo_chunks"
    "p_options (demo_done 96) = demo_options" by (simp_all add: demo_done_def demo_packer_def)
  have sizes: "usize_to_u64 (length demo_toc) what = Ok 113" "usize_to_u64 (length toc) what = Ok 114"
    "usize_to_u32 (o_chunk_size demo_options) what = Ok 4" "usize_to_u32 (length [demo_entry]) what = Ok 1"
    "usize_to_u32 (length demo_chunks) what = Ok 2" for what
    by (simp_all add: usize_to_u64_def usize_to_u32_def length_demo len demo_options_def demo_chunks_def)
  have store: "store_toc sample_env demo_toc (w, demo_done 96) = (Ok toc, w, demo_done 96)" for w :: 's
    unfolding demo_done_def toc_def by (rule demo_store)
  have app: "on_writer (w_write_all W toc) (st content 96, p) = (Ok (), st (content @ toc) 210, p)" for p
    using vec_append [of toc content] assms by (simp add: on_writer_def from_io_def len)
  have set: "set_packer (\<lambda>p. p\<lparr> p_offset := 210 \<rparr>) (w, demo_done 96) = (Ok (), w, demo_done 210)" for w :: 's
    by (simp add: set_packer_def demo_done_def demo_packer_def)
  have seek: "on_writer (w_seek_start W n) (st c i, p) = (Ok n, st c (unat n), p)" for n c i p
    by (simp add: on_writer_def plain_seek from_io_def)
  have hd: "\<lparr> h_version = VERSION, h_flags = header_flags demo_options, h_header_size = ucast HEADER_SIZE,
        h_alignment = o_alignment demo_options, h_chunk_size = 4, h_entry_count = 1, h_chunk_count = 2, h_toc_offset = 96,
        h_toc_size = 114, h_toc_raw_size = 113, h_toc_hash = checksum sample_env demo_toc \<rparr> = demo_header"
    by (simp add: demo_header_def demo_checksum VERSION_def HEADER_SIZE_def demo_options_def header_flags_def strips_paths_def
        REQUIRED_HEADER_FLAGS_def HEADER_FLAG_TOC_LZ4_def HEADER_FLAG_CHUNKED_def HEADER_FLAG_XXH3_def HEADER_FLAG_TOC_XOR_def)
  have pieces: "write_pieces (w_write_all W) ps (st c i) = (Ok (), st (overwrite c i (concat ps)) (i + length (concat ps)))"
    if "i \<le> length c" for ps c i
    using that
  proof (induction ps arbitrary: c i)
    case Nil
    then show ?case by (simp add: overwrite_nothing)
  next
    case (Cons a ps)
    then show ?case
      using length_overwrite [OF Cons.prems, of a]
      by (simp add: bind_st_def plain_write from_io_def overwrite_twice add.assoc)
  qed
  have wh: "write_header (w_write_all W) demo_header (st c 0) = (Ok (), st (header_bytes demo_header @ drop 60 c) 60)" for c
    using pieces [of 0 c "header_fields demo_header"]
    by (simp add: write_header_def header_bytes_def [symmetric] overwrite_start length_header_bytes)
  show ?thesis
    unfolding toc_def [symmetric] finish_toc_def Let_def bind_st_def get_packer_def fields demo_encode lift_st_def sizes prod.case res.case
    using assms
    by (simp add: store app set seek hd wh sizes [simplified] MAX_TOC_RAW_SIZE_def MAX_TOC_STORED_SIZE_def checked_add_def)
qed

lemma demo_finish:
  "finish sample_env W (st demo_payload 81, demo_done 81)
    = (Ok \<lparr> ps_archive_len = 210, ps_entry_count = 1, ps_chunk_count = 2 \<rparr>, st demo_bytes 210, demo_done 210)"
proof -
  have "align sample_env W (st demo_payload 81, demo_packer es cs hs raw out 81)
      = (Ok (), st (demo_payload @ replicate 15 0) (81 + 15), demo_packer es cs hs raw out (of_nat 96))" for es cs hs raw out
    by (rule demo_align) (simp_all add: demo_payload_def)
  then have al: "align sample_env W (st demo_payload 81, demo_done 81)
      = (Ok (), st (demo_payload @ replicate 15 0) 96, demo_done 96)" by (simp add: demo_done_def)
  have d: "drop 60 (demo_payload @ replicate 15 0) = replicate 4 0 @ [1, 9, 4] @ replicate 13 0 @ [5] @ replicate 15 0"
    by (simp add: demo_payload_def)
  have "length (demo_payload @ replicate 15 0) = 96" by (simp add: demo_payload_def)
  note ft = demo_finish_toc [OF this, unfolded d]
  have set: "set_packer (\<lambda>p. if strips_paths (o_mode (p_options p)) then p\<lparr> p_entries := map (\<lambda>entry. entry\<lparr> e_path := [] \<rparr>) (p_entries p) \<rparr> else p)
      (w, demo_done 96) = (Ok (), w, demo_done 96)" for w :: 's
    by (simp add: set_packer_def demo_done_def demo_packer_def demo_options_def strips_paths_def)
  have "p_failed (demo_done 81) = False" by (simp add: demo_done_def demo_packer_def)
  then show ?thesis
    unfolding finish_def bind_st_def get_packer_def prod.case res.case
    by (simp add: lift_st_def al set ft) (simp add: demo_bytes_def)
qed

lemma demo_pack:
  "pack_with_options sample_env W [demo_file] [7] demo_options (st [] 0) = Some (Ok (), st demo_bytes 210)"
  using demo_finish by (simp add: pack_with_options_def demo_new demo_file_def demo_add [simplified] demo_done_def)

end

interpretation vec_run: plain_writer vec_writer Pair
  by unfold_locales (simp_all add: vec_writer_def)

end
