(* ===== verification/Pack_Properties.thy ===== *)
theory Pack_Properties
  imports Sample_Pack
begin

text \<open>
  The properties of the packer, stated for the model's in-memory writer where a writer
  occurs, for any environment that behaves as documented.
\<close>

text \<open>
  C1: round trip of whole archives.  If packing the files into an empty vector succeeds and
  the reader's limits allow the header and the files, then a reader over any source backed
  by what was written opens the archive, finds as many entries as there were files, and
  reading each file's path gives exactly the file's bytes.  This holds in debug and in
  production mode, for XOR and for AEAD protection, for every chunk size and alignment.
\<close>

theorem packed_files_read_back:
  assumes "packer_laws E" "lz4_pure E" "2 ^ 32 - 1 \<le> usize_max E" "o_chunk_size options \<le> usize_max E"
    and "\<forall>f \<in> set files. utf8_valid (f_path f) \<and> length (f_data f) \<le> usize_max E"
    and "pack_with_options E vec_writer files key options ([], 0) = Some (Ok (), out, pos)"
    and "source_backed S out" "source_safe S" "source_stable S"
    and "\<forall>h rest. read_header out = Ok (h, rest) \<longrightarrow> validate_limits E h (clamped l) = Ok ()"
    and "inputs_fit E (clamped l) options files"
  shows "\<exists>A. open_with_limits E S key l = Ok A \<and> length (a_entries A) = length files
    \<and> (\<forall>f \<in> set files. read E A (f_path f) = Ok (f_data f))"
proof -
  have "\<forall>f \<in> set files. utf8_valid (f_path f)" using assms(5) by blast
  from vec_writer.pack_total [OF assms(1,4) this, of key "([], 0)"] have "archive_of E files key options out"
    using assms(6) by auto
  then show ?thesis using archive_reads_back [OF _ assms(1-3,7-11)] assms(5) by blast
qed

theorem packed_files_read_back_witness:
  "\<exists>A. open_with_limits sample_env demo_source [7] runtime_default = Ok A \<and> length (a_entries A) = 1
    \<and> read sample_env A [0x61] = Ok [9, 9, 9, 9, 5]"
proof -
  have src: "source_backed demo_source demo_bytes"
    unfolding demo_source_def by (rule slice_src.backed) (simp_all add: length_demo demo_max)
  note fits = demo_limits [OF disjI1 [OF refl]]
  have "\<forall>f \<in> set [demo_file]. utf8_valid (f_path f) \<and> length (f_data f) \<le> usize_max sample_env"
    by (simp add: demo_file_def demo_max)
  from packed_files_read_back [OF sample_packer_laws sample_env_pure _ _ this vec_run.demo_pack src demo_source_ok fits]
  show ?thesis by (simp add: demo_max demo_options_def demo_file_def)
qed

text \<open>
  Packing returns and does not panic, for every list of files and every state of the
  vector, whatever the key and the options; only paths that are not UTF-8 are excluded.
\<close>

lemma packing_returns:
  assumes "packer_laws E" "o_chunk_size options \<le> usize_max E" "\<forall>f \<in> set files. utf8_valid (f_path f)"
  shows "\<exists>res w'. pack_with_options E vec_writer files key options w = Some (res, w') \<and> res \<noteq> Panic"
  using vec_writer.pack_total [OF assms, of key w] by blast

text \<open>
  C4: adding a file refines appending to a list.  For every reader that delivers its input in
  pieces of any size, with finitely many interruptions and possibly a failure at any read,
  and every seekable writer, on a packer that stands for a list of stored files:
  \<open>add_reader\<close> returns without a panic; when it succeeds, the packer stands for the same list
  with the normalised path and the whole input, cut into pieces, at its end; when it does
  not, the packer is marked as failed.
\<close>

theorem add_reader_appends:
  assumes "byte_reader rd rest patience" "seek_writer W content pos"
    and "packer_laws E" "packer_state E content pos w p fs" "utf8_valid path"
  shows "\<exists>res r' w' p'. add_reader E W rd path r (w, p) = Some (res, r', w', p') \<and> res \<noteq> Panic
    \<and> (if res = Ok ()
       then \<exists>n new. normalize_path E path = Ok n \<and> concat new = rest r \<and> packer_state E content pos w' p' (fs @ [(n, new)])
       else p_failed p')"
proof -
  have "packing rd rest patience W content pos" using assms(1,2) by (simp add: packing_def)
  from packing.add_reader_total [OF this assms(3-5)] show ?thesis by metis
qed

theorem add_reader_appends_witness:
  "\<exists>p' new. concat new = [9, 9, 9, 9, 5]
     \<and> packer_state sample_env fst snd (demo_payload, 81) p' [([0x61], new)]"
proof -
  let ?p = "demo_packer [] [] {} (replicate 4 0) (0 # replicate 4 0) 60"
  have "o_chunk_size demo_options \<le> usize_max sample_env" by (simp add: demo_options_def demo_max)
  from wp_Ok [OF vec_writer.wp_packer_new [OF sample_packer_laws this] vec_run.demo_new]
  have st: "packer_state sample_env fst snd (replicate 60 0, 60) ?p []" by simp
  have "utf8_valid [0x61]" by simp
  from add_reader_appends [OF slice_reader.byte_reader_axioms vec_writer.seek_writer_axioms sample_packer_laws st this,
      of "[9, 9, 9, 9, 5]"]
  show ?thesis unfolding vec_run.demo_add by (auto simp: demo_path)
qed

text \<open>
  C38: how a reader cuts its input does not matter.  Filling the buffer from any reader that
  does not fail gives the bytes, the count and the remaining input that filling it from a
  slice with the same input gives; what the buffer holds behind the count may differ.
\<close>

theorem read_chunk_like_slice:
  assumes "steady_reader rd rest patience" "length buffer \<le> usize_max E"
  shows "\<exists>n buffer1 buffer2 r1 r2.
      fill_chunk E rd buffer r = Some (Ok n, buffer1, r1) \<and> fill_chunk E slice_reader buffer (rest r) = Some (Ok n, buffer2, r2)
    \<and> take n buffer1 = take n buffer2 \<and> rest r1 = r2 \<and> n = min (length buffer) (length (rest r))"
proof -
  obtain buffer' r' where f: "fill_chunk E rd buffer r = Some (Ok (min (length buffer) (length (rest r))), buffer', r')"
    "rest r' = drop (length buffer) (rest r)"
    "take (min (length buffer) (length (rest r))) buffer' = take (length buffer) (rest r)"
    using steady_reader.fill_chunk_steady [OF assms] by metis
  have "take (min (length buffer) (length (rest r))) (take (length buffer) (rest r) @ drop (length (rest r)) buffer)
      = take (length buffer) (rest r)" by (simp add: min_def)
  then show ?thesis using f fill_slice [OF assms(2), of "rest r"] by simp
qed

text \<open>The witness: a reader of single bytes that is interrupted before each of them.\<close>

definition slow_reader :: "(bool \<times> bytes) reader" where
  "slow_reader buffer = (\<lambda>(ready, data).
     if \<not> ready then (Err (IoError KInterrupted ''''), buffer, (True, data))
     else case (buffer, data) of (b # bs, d # ds) \<Rightarrow> (Ok 1, d # bs, (False, ds)) | _ \<Rightarrow> (Ok 0, buffer, (ready, data)))"

lemma slow_reader_ok: "steady_reader slow_reader snd (\<lambda>(ready, data). 2 * length data + of_bool (\<not> ready))"
  by unfold_locales (auto simp: slow_reader_def split: if_splits prod.splits list.splits)

theorem read_chunk_like_slice_witness:
  "\<exists>buffer r. fill_chunk sample_env slow_reader [0, 0] (False, [7, 8, 9]) = Some (Ok 2, buffer, r) \<and> take 2 buffer = [7, 8]"
proof -
  have "length [0, 0 :: u8] \<le> usize_max sample_env" by (simp add: demo_max)
  from read_chunk_like_slice [OF slow_reader_ok this, of "(False, [7, 8, 9])"]
  show ?thesis by (auto simp: fill_slice demo_max numeral_2_eq_2)
qed

text \<open>
  C5: a failed packer never finishes.  An error while a file is added marks the packer,
  whatever the reader and the writer do; a marked packer refuses every further file and
  refuses to finish, and touches neither the writer nor the reader.
\<close>

theorem failed_packer_refuses:
  assumes "add_reader E W rd path r (w, p) = Some (Err e, r', w', p')"
  shows "p_failed p' \<and> add_reader E W rd2 path2 r2 (w', p') = Some (Err IncompletePack, r2, w', p')
    \<and> finish E W (w', p') = (Err IncompletePack, w', p')"
proof -
  have "p_failed p'"
    using assms by (auto simp: add_reader_def split: if_splits option.splits prod.splits)
  then show ?thesis by (simp add: add_reader_def finish_def bind_st_def get_packer_def lift_st_def ensure_def)
qed

theorem failed_packer_refuses_witness:
  "\<exists>w p. finish sample_env vec_writer (w, p) = (Err IncompletePack, w, p)"
proof -
  have "add_reader sample_env vec_writer slice_reader [] [1] (([], 0), demo_done 0)
      = Some (Err InvalidPath, [1], ([], 0), (demo_done 0)\<lparr> p_failed := True \<rparr>)"
    by (simp add: add_reader_def add_reader_inner_def register_path_def bind_st_def lift_st_def demo_done_def demo_packer_def
        normalize_path_def MAX_PATH_SEGMENTS_def sample_env_alloc)
  from failed_packer_refuses [OF this, of slice_reader "[]" "[]"] show ?thesis by blast
qed

text \<open>
  C6: packing rejects duplicate names.  If packing succeeds, the normalised paths of the
  files are pairwise distinct, and in a production archive, which keeps only the hashes, the
  hashes of the paths are too.
\<close>

theorem packed_names_distinct:
  assumes "packer_laws E" "o_chunk_size options \<le> usize_max E" "\<forall>f \<in> set files. utf8_valid (f_path f)"
    and "pack_with_options E vec_writer files key options w = Some (Ok (), out, pos)"
  shows "(\<forall>f \<in> set files. \<exists>n. normalize_path E (f_path f) = Ok n)
    \<and> distinct (map (\<lambda>f. normalize_path E (f_path f)) files)
    \<and> (o_mode options = Production \<longrightarrow> distinct (map (input_hash E) files))"
proof -
  from vec_writer.pack_total [OF assms(1-3), of key w] assms(4) obtain p fs arch plain stored h where
    pk: "packed E p fs arch plain stored h out" and p: "p_options p = options" and st: "stored_as E files fs"
    by (auto simp: archive_of_def)
  from pk have ei: "entries_inv E p fs" by (simp add: packed_def)
  have names: "map (\<lambda>f. normalize_path E (f_path f)) files = map (\<lambda>g. Ok (fst g)) fs"
    and hashes: "map (input_hash E) files = map (\<lambda>g. checksum E (fst g)) fs"
    using st by (auto simp: stored_as_def list_all2_conv_all_nth input_hash_def intro!: nth_equalityI)
  have "distinct (map (\<lambda>g. Ok (fst g) :: (bytes, error) res) fs)"
    using ei by (simp add: entries_inv_def distinct_map inj_on_def)
  moreover have "o_mode options = Production \<Longrightarrow> distinct (map (\<lambda>g. checksum E (fst g)) fs)"
    using ei p by (simp add: entries_inv_def strips_paths_def)
  ultimately show ?thesis
    using st unfolding names hashes by (auto simp: stored_as_def list_all2_conv_all_nth in_set_conv_nth)
qed

theorem packed_names_distinct_witness:
  "\<forall>w out pos. pack_with_options sample_env vec_writer [demo_file, demo_file] [7] demo_options w \<noteq> Some (Ok (), out, pos)"
proof -
  have "\<forall>f \<in> set [demo_file, demo_file]. utf8_valid (f_path f)" "o_chunk_size demo_options \<le> usize_max sample_env"
    by (simp_all add: demo_file_def demo_options_def demo_max)
  from packed_names_distinct [OF sample_packer_laws this(2,1)] show ?thesis by fastforce
qed

end
