(* ===== verification/Error_Text.thy ===== *)
theory Error_Text
  imports Reader
begin

text \<open>
  The texts of errors (\<open>impl Display for Error\<close> in \<open>error.rs\<close>), which the C interface hands to
  its callers.  Numbers are formatted as the standard library does for \<open>{}\<close>, \<open>{:04x}\<close> and
  \<open>{:016x}\<close>.
\<close>

section \<open>Formatting\<close>

definition chars :: "string \<Rightarrow> bytes" where
  "chars s = map of_char s"

fun decimal :: "nat \<Rightarrow> string" where
  "decimal n = (if n < 10 then [char_of (48 + n)] else decimal (n div 10) @ [char_of (48 + n mod 10)])"

declare decimal.simps [simp del]

definition signed_decimal :: "int \<Rightarrow> string" where
  "signed_decimal i = (if i < 0 then ''-'' @ decimal (nat (- i)) else decimal (nat i))"

definition padded_hex :: "nat \<Rightarrow> 'a::len word \<Rightarrow> bytes" where
  "padded_hex width v = map (\<lambda>i. hex_digit (unat (drop_bit (4 * (width - 1 - i)) v) mod 16)) [0..<width]"

section \<open>Display\<close>

definition error_to_string :: "error \<Rightarrow> bytes" where
  "error_to_string e = (case e of
      Io e \<Rightarrow> chars ''I/O error: '' @ chars (io_message_of e)
    | BadMagic \<Rightarrow> chars ''not a RPAK archive''
    | BadTocMagic \<Rightarrow> chars ''invalid TOC magic (wrong XOR key or corrupt archive)''
    | UnsupportedVersion v \<Rightarrow> chars ''unsupported RPAK version '' @ chars (decimal (unat v))
    | UnsupportedFlags v \<Rightarrow> chars ''unsupported flags: 0x'' @ padded_hex 4 v
    | UnsupportedHeaderSize v \<Rightarrow> chars ''unsupported header size '' @ chars (decimal (unat v))
    | EmptyXorKey \<Rightarrow> chars ''protection key must not be empty''
    | Crypto s \<Rightarrow> chars ''cryptographic error: '' @ chars s
    | IncompletePack \<Rightarrow> chars ''packer cannot finish after an earlier error''
    | NonEmptyDestination \<Rightarrow> chars ''packing destination must be empty''
    | InvalidPath \<Rightarrow> chars ''invalid archive path''
    | InvalidChunkSize \<Rightarrow> chars ''chunk size must be in 1..=64 MiB''
    | InvalidAlignment \<Rightarrow> chars ''alignment must be a power of two in 1..=1 MiB''
    | InvalidRange \<Rightarrow> chars ''requested range is outside the asset''
    | BufferSizeMismatch expected actual \<Rightarrow>
        chars ''destination buffer size mismatch: expected '' @ chars (decimal expected)
        @ chars '', got '' @ chars (decimal actual)
    | ChunkOutOfRange index limit \<Rightarrow>
        chars ''chunk index '' @ chars (decimal (unat index)) @ chars '' is outside chunk count '' @ chars (decimal (unat limit))
    | DuplicatePath p \<Rightarrow> chars ''duplicate archive path: '' @ p
    | AssetTooLarge \<Rightarrow> chars ''archive asset exceeds size limit''
    | ArchiveTooLarge \<Rightarrow> chars ''archive exceeds decompressed size limit''
    | TooManyEntries \<Rightarrow> chars ''archive exceeds entry count limit''
    | TooManyChunks \<Rightarrow> chars ''archive operation exceeds chunk count limit''
    | MetadataLimitExceeded \<Rightarrow> chars ''archive metadata exceeds memory limit''
    | Corrupt s \<Rightarrow> chars ''corrupt archive: '' @ chars s
    | TooLarge s \<Rightarrow> chars ''value too large: '' @ chars s
    | Lz4 s \<Rightarrow> chars ''LZ4 error: '' @ chars s
    | NotFound p \<Rightarrow> chars ''entry not found: '' @ p
    | HashCollision hash \<Rightarrow> chars ''ambiguous asset hash collision: '' @ padded_hex 16 hash
    | ChecksumMismatch path chunk \<Rightarrow>
        chars ''checksum mismatch: '' @ path @ chars '', chunk '' @ chars (decimal (unat chunk)))"

lemma chars_append [simp]: "chars (a @ b) = chars a @ chars b"
  by (simp add: chars_def)

lemma chars_Nil [simp]: "chars [] = []" "chars s = [] \<longleftrightarrow> s = []"
  by (simp_all add: chars_def)

text \<open>The label of an asset in a checksum error is formatted as \<open>{:016x}\<close> too.\<close>

lemma hash_label_hex: "hash_label v = chars ''hash:'' @ padded_hex 16 v"
  by (simp add: hash_label_def padded_hex_def chars_def of_char_def)

end
