(* ===== verification/Ffi_Types.thy ===== *)
theory Ffi_Types
  imports Error_Text Limits
begin

text \<open>
  The C interface (\<open>rasen-archive-ffi\<close>): status codes, the failure value and \<open>ffi_call\<close>
  (\<open>error.rs\<close>), the \<open>repr(C)\<close> structures with their conversions (\<open>types.rs\<close>), and the checks of
  pointer arguments (\<open>io.rs\<close>).

  A pointer is an option: null, or the memory it points to.  A pointer to bytes stands for
  the bytes from that address on; callers must pass lengths within it and must not alias an
  output with an input (the contract of the header file), so the model does not follow
  addresses.  A pointer to an output is a cell, part of the state: null, or its contents.
\<close>

section \<open>Status codes\<close>

datatype rasen_status =
    S_Ok | S_NullPointer | S_InvalidUtf8 | S_InvalidValue | S_OutOfRange | S_CallbackFailed | S_Panic
  | S_Io | S_BadMagic | S_BadTocMagic | S_UnsupportedVersion | S_UnsupportedFlags | S_UnsupportedHeaderSize
  | S_EmptyKey | S_Crypto | S_IncompletePack | S_NonEmptyDestination | S_InvalidPath | S_InvalidChunkSize
  | S_InvalidAlignment | S_InvalidRange | S_BufferSizeMismatch | S_ChunkOutOfRange | S_DuplicatePath
  | S_AssetTooLarge | S_ArchiveTooLarge | S_TooManyEntries | S_TooManyChunks | S_MetadataLimitExceeded
  | S_Corrupt | S_TooLarge | S_Lz4 | S_NotFound | S_HashCollision | S_ChecksumMismatch

definition status_code :: "rasen_status \<Rightarrow> int" where
  "status_code s = (case s of
      S_Ok \<Rightarrow> 0 | S_NullPointer \<Rightarrow> 1 | S_InvalidUtf8 \<Rightarrow> 2 | S_InvalidValue \<Rightarrow> 3 | S_OutOfRange \<Rightarrow> 4
    | S_CallbackFailed \<Rightarrow> 5 | S_Panic \<Rightarrow> 6 | S_Io \<Rightarrow> 100 | S_BadMagic \<Rightarrow> 101 | S_BadTocMagic \<Rightarrow> 102
    | S_UnsupportedVersion \<Rightarrow> 103 | S_UnsupportedFlags \<Rightarrow> 104 | S_UnsupportedHeaderSize \<Rightarrow> 105
    | S_EmptyKey \<Rightarrow> 106 | S_Crypto \<Rightarrow> 107 | S_IncompletePack \<Rightarrow> 108 | S_NonEmptyDestination \<Rightarrow> 109
    | S_InvalidPath \<Rightarrow> 110 | S_InvalidChunkSize \<Rightarrow> 111 | S_InvalidAlignment \<Rightarrow> 112 | S_InvalidRange \<Rightarrow> 113
    | S_BufferSizeMismatch \<Rightarrow> 114 | S_ChunkOutOfRange \<Rightarrow> 115 | S_DuplicatePath \<Rightarrow> 116 | S_AssetTooLarge \<Rightarrow> 117
    | S_ArchiveTooLarge \<Rightarrow> 118 | S_TooManyEntries \<Rightarrow> 119 | S_TooManyChunks \<Rightarrow> 120
    | S_MetadataLimitExceeded \<Rightarrow> 121 | S_Corrupt \<Rightarrow> 122 | S_TooLarge \<Rightarrow> 123 | S_Lz4 \<Rightarrow> 124 | S_NotFound \<Rightarrow> 125
    | S_HashCollision \<Rightarrow> 126 | S_ChecksumMismatch \<Rightarrow> 127)"

definition core_status :: "error \<Rightarrow> rasen_status" where
  "core_status e = (case e of
      Io _ \<Rightarrow> S_Io
    | BadMagic \<Rightarrow> S_BadMagic
    | BadTocMagic \<Rightarrow> S_BadTocMagic
    | UnsupportedVersion _ \<Rightarrow> S_UnsupportedVersion
    | UnsupportedFlags _ \<Rightarrow> S_UnsupportedFlags
    | UnsupportedHeaderSize _ \<Rightarrow> S_UnsupportedHeaderSize
    | EmptyXorKey \<Rightarrow> S_EmptyKey
    | Crypto _ \<Rightarrow> S_Crypto
    | IncompletePack \<Rightarrow> S_IncompletePack
    | NonEmptyDestination \<Rightarrow> S_NonEmptyDestination
    | InvalidPath \<Rightarrow> S_InvalidPath
    | InvalidChunkSize \<Rightarrow> S_InvalidChunkSize
    | InvalidAlignment \<Rightarrow> S_InvalidAlignment
    | InvalidRange \<Rightarrow> S_InvalidRange
    | BufferSizeMismatch _ _ \<Rightarrow> S_BufferSizeMismatch
    | ChunkOutOfRange _ _ \<Rightarrow> S_ChunkOutOfRange
    | DuplicatePath _ \<Rightarrow> S_DuplicatePath
    | AssetTooLarge \<Rightarrow> S_AssetTooLarge
    | ArchiveTooLarge \<Rightarrow> S_ArchiveTooLarge
    | TooManyEntries \<Rightarrow> S_TooManyEntries
    | TooManyChunks \<Rightarrow> S_TooManyChunks
    | MetadataLimitExceeded \<Rightarrow> S_MetadataLimitExceeded
    | Corrupt _ \<Rightarrow> S_Corrupt
    | TooLarge _ \<Rightarrow> S_TooLarge
    | Lz4 _ \<Rightarrow> S_Lz4
    | NotFound _ \<Rightarrow> S_NotFound
    | HashCollision _ \<Rightarrow> S_HashCollision
    | ChecksumMismatch _ _ \<Rightarrow> S_ChecksumMismatch)"

section \<open>Failures and calls\<close>

record ffi_failure =
  ff_status :: rasen_status
  ff_message :: bytes

definition failure :: "rasen_status \<Rightarrow> string \<Rightarrow> ffi_failure" where
  "failure status message = \<lparr> ff_status = status, ff_message = chars message \<rparr>"

definition failure_from :: "error \<Rightarrow> ffi_failure" where
  "failure_from e = \<lparr> ff_status = core_status e, ff_message = error_to_string e \<rparr>"

definition failure_from_io :: "io_error \<Rightarrow> ffi_failure" where
  "failure_from_io e = failure_from (Io e)"

text \<open>
  \<open>set_last_error\<close>: every zero byte becomes the two characters of its escape, so the message is
  a C string.  The thread's last message is the bytes before its terminator.
\<close>

definition sanitize :: "bytes \<Rightarrow> bytes" where
  "sanitize message = concat (map (\<lambda>b. if b = 0 then [0x5C, 0x30] else [b]) message)"

definition c_string :: "bytes \<Rightarrow> bytes" where
  "c_string message = (if 0 \<notin> set message then message else [])"

definition set_last_error :: "bytes \<Rightarrow> bytes" where
  "set_last_error message = c_string (sanitize message)"

text \<open>
  \<open>ffi_call\<close>: the body works on the cells of the call; the last message of the thread is set
  exactly when the call does not return \<open>Ok\<close>.
\<close>

definition ffi_call :: "('s, unit, ffi_failure) stm \<Rightarrow> 's \<Rightarrow> bytes \<Rightarrow> rasen_status \<times> 's \<times> bytes" where
  "ffi_call body s msg =
     (case body s of
        (Ok _, s') \<Rightarrow> (S_Ok, s', msg)
      | (Err f, s') \<Rightarrow> (ff_status f, s', set_last_error (ff_message f))
      | (Panic, s') \<Rightarrow> (S_Panic, s', set_last_error (chars ''panic caught at FFI boundary'')))"

definition from_core :: "('a, error) res \<Rightarrow> ('a, ffi_failure) res" where
  "from_core r = map_err failure_from r"

section \<open>Pointer arguments\<close>

definition required :: "string \<Rightarrow> 'a option \<Rightarrow> ('a, ffi_failure) res" where
  "required name p = ok_or p (failure S_NullPointer (name @ '' is null''))"

definition ffi_bytes :: "bytes option \<Rightarrow> usize \<Rightarrow> string \<Rightarrow> (bytes, ffi_failure) res" where
  "ffi_bytes data len name =
     (if len = 0 then Ok []
      else case data of
             None \<Rightarrow> Err (failure S_NullPointer (name @ '' is null''))
           | Some memory \<Rightarrow> Ok (take len memory))"

definition raw_slice :: "'a list option \<Rightarrow> usize \<Rightarrow> string \<Rightarrow> ('a list, ffi_failure) res" where
  "raw_slice data len name =
     (if len = 0 then Ok []
      else case data of
             None \<Rightarrow> Err (failure S_NullPointer (name @ '' is null''))
           | Some memory \<Rightarrow> Ok (take len memory))"

definition utf8 :: "bytes option \<Rightarrow> usize \<Rightarrow> string \<Rightarrow> (bytes, ffi_failure) res" where
  "utf8 data len name =
     bind_res (ffi_bytes data len name) (\<lambda>b.
       if utf8_valid b then Ok b else Err (failure S_InvalidUtf8 (name @ '' is not valid UTF-8'')))"

text \<open>
  Outputs: \<open>required_mut\<close> on the cell itself, writing through it, and \<open>bytes_mut\<close> with the
  operation on the slice it gives.
\<close>

definition required_out :: "string \<Rightarrow> ('a option, unit, ffi_failure) stm" where
  "required_out name cell = (bind_res (required name cell) (\<lambda>_. Ok ()), cell)"

definition write_out :: "'a \<Rightarrow> ('a option, unit, ffi_failure) stm" where
  "write_out v cell = (Ok (), Some v)"

definition store_out :: "string \<Rightarrow> 'a \<Rightarrow> ('a option, unit, ffi_failure) stm" where
  "store_out name v = bind_st (required_out name) (\<lambda>_. write_out v)"

definition on_bytes_mut ::
  "usize \<Rightarrow> string \<Rightarrow> (bytes, 'a, ffi_failure) stm \<Rightarrow> (bytes option, 'a, ffi_failure) stm" where
  "on_bytes_mut len name m cell =
     (if len = 0 then (fst (m []), cell)
      else case cell of
             None \<Rightarrow> (Err (failure S_NullPointer (name @ '' is null'')), None)
           | Some memory \<Rightarrow>
               (case m (take len memory) of (r, dst) \<Rightarrow> (r, Some (dst @ drop len memory))))"

section \<open>Buffers\<close>

record rasen_buffer =
  rb_data :: "bytes option"
  rb_len :: usize

definition default_buffer :: rasen_buffer where
  "default_buffer = \<lparr> rb_data = None, rb_len = 0 \<rparr>"

definition into_buffer :: "bytes \<Rightarrow> rasen_buffer" where
  "into_buffer b = (if b = [] then default_buffer else \<lparr> rb_data = Some b, rb_len = length b \<rparr>)"

definition rasen_buffer_free :: "rasen_buffer option \<Rightarrow> rasen_buffer option" where
  "rasen_buffer_free buffer = (case buffer of None \<Rightarrow> None | Some b \<Rightarrow> Some default_buffer)"

section \<open>Limits\<close>

record rasen_archive_limits =
  rl_max_toc_stored_bytes :: u64
  rl_max_toc_raw_bytes :: u64
  rl_max_entries :: u32
  rl_max_chunks :: u32
  rl_max_chunks_per_operation :: u32
  rl_max_path_bytes :: usize
  rl_max_total_path_bytes :: u64
  rl_max_total_decompressed_bytes :: u64
  rl_max_single_asset_bytes :: u64
  rl_max_metadata_bytes :: u64

definition limits_to_ffi :: "archive_limits \<Rightarrow> rasen_archive_limits" where
  "limits_to_ffi value = \<lparr>
     rl_max_toc_stored_bytes = max_toc_stored_bytes value, rl_max_toc_raw_bytes = max_toc_raw_bytes value,
     rl_max_entries = max_entries value, rl_max_chunks = max_chunks value,
     rl_max_chunks_per_operation = max_chunks_per_operation value, rl_max_path_bytes = max_path_bytes value,
     rl_max_total_path_bytes = max_total_path_bytes value,
     rl_max_total_decompressed_bytes = max_total_decompressed_bytes value,
     rl_max_single_asset_bytes = max_single_asset_bytes value, rl_max_metadata_bytes = max_metadata_bytes value \<rparr>"

definition limits_from_ffi :: "rasen_archive_limits \<Rightarrow> archive_limits" where
  "limits_from_ffi value = \<lparr>
     max_toc_stored_bytes = rl_max_toc_stored_bytes value, max_toc_raw_bytes = rl_max_toc_raw_bytes value,
     max_entries = rl_max_entries value, max_chunks = rl_max_chunks value,
     max_chunks_per_operation = rl_max_chunks_per_operation value, max_path_bytes = rl_max_path_bytes value,
     max_total_path_bytes = rl_max_total_path_bytes value,
     max_total_decompressed_bytes = rl_max_total_decompressed_bytes value,
     max_single_asset_bytes = rl_max_single_asset_bytes value, max_metadata_bytes = rl_max_metadata_bytes value \<rparr>"

definition ffi_limits :: "rasen_archive_limits option \<Rightarrow> archive_limits" where
  "ffi_limits p = (case p of None \<Rightarrow> runtime_default | Some l \<Rightarrow> limits_from_ffi l)"

definition rasen_archive_limits_runtime ::
  "rasen_archive_limits option \<Rightarrow> bytes \<Rightarrow> rasen_status \<times> rasen_archive_limits option \<times> bytes" where
  "rasen_archive_limits_runtime = ffi_call (store_out ''out'' (limits_to_ffi runtime_default))"

definition rasen_archive_limits_tooling ::
  "rasen_archive_limits option \<Rightarrow> bytes \<Rightarrow> rasen_status \<times> rasen_archive_limits option \<times> bytes" where
  "rasen_archive_limits_tooling = ffi_call (store_out ''out'' (limits_to_ffi tooling_default))"

section \<open>Pack options and summaries\<close>

definition PACK_MODE_DEBUG :: u32 where "PACK_MODE_DEBUG = 0"
definition PACK_MODE_PRODUCTION :: u32 where "PACK_MODE_PRODUCTION = 1"
definition PROTECTION_XOR :: u32 where "PROTECTION_XOR = 0"
definition PROTECTION_AEAD :: u32 where "PROTECTION_AEAD = 1"

record rasen_pack_options =
  ro_chunk_size :: usize
  ro_alignment :: u32
  ro_mode :: u32
  ro_protection :: u32

definition mode_to_ffi :: "pack_mode \<Rightarrow> u32" where
  "mode_to_ffi m = (case m of Debug \<Rightarrow> PACK_MODE_DEBUG | Production \<Rightarrow> PACK_MODE_PRODUCTION)"

definition protection_to_ffi :: "protection \<Rightarrow> u32" where
  "protection_to_ffi p = (case p of Xor \<Rightarrow> PROTECTION_XOR | Aead \<Rightarrow> PROTECTION_AEAD)"

definition options_to_ffi :: "pack_options \<Rightarrow> rasen_pack_options" where
  "options_to_ffi value = \<lparr> ro_chunk_size = o_chunk_size value, ro_alignment = o_alignment value,
     ro_mode = mode_to_ffi (o_mode value), ro_protection = protection_to_ffi (o_protection value) \<rparr>"

definition ffi_pack_options :: "rasen_pack_options option \<Rightarrow> (pack_options, ffi_failure) res" where
  "ffi_pack_options p =
     (case p of
        None \<Rightarrow> Ok default_pack_options
      | Some options \<Rightarrow>
          bind_res (if ro_mode options = PACK_MODE_DEBUG then Ok Debug
                    else if ro_mode options = PACK_MODE_PRODUCTION then Ok Production
                    else Err (failure S_InvalidValue (''invalid pack mode: '' @ decimal (unat (ro_mode options))))) (\<lambda>mode.
          bind_res (if ro_protection options = PROTECTION_XOR then Ok Xor
                    else if ro_protection options = PROTECTION_AEAD then Ok Aead
                    else Err (failure S_InvalidValue (''invalid protection: '' @ decimal (unat (ro_protection options))))) (\<lambda>protection.
            Ok \<lparr> o_chunk_size = ro_chunk_size options, o_alignment = ro_alignment options, o_mode = mode,
                 o_protection = protection \<rparr>)))"

definition rasen_pack_options_default ::
  "rasen_pack_options option \<Rightarrow> bytes \<Rightarrow> rasen_status \<times> rasen_pack_options option \<times> bytes" where
  "rasen_pack_options_default = ffi_call (store_out ''out'' (options_to_ffi default_pack_options))"

section \<open>Lemmas\<close>

lemma ffi_call_ok: "fst (ffi_call m s msg) = S_Ok \<longleftrightarrow> fst (m s) = Ok () \<or> (\<exists>f. fst (m s) = Err f \<and> ff_status f = S_Ok)"
  by (auto simp: ffi_call_def split: prod.splits res.splits)

text \<open>The last error is always a C string.\<close>

lemma set_last_error_text: "set_last_error message = sanitize message" "0 \<notin> set (sanitize message)"
proof -
  show "0 \<notin> set (sanitize message)" by (auto simp: sanitize_def split: if_splits)
  then show "set_last_error message = sanitize message" by (simp add: set_last_error_def c_string_def)
qed

lemma core_status_code: "100 \<le> status_code (core_status e) \<and> status_code (core_status e) \<le> 127"
  by (cases e) (simp_all add: core_status_def status_code_def)

lemma limits_ffi_inverse [simp]: "limits_from_ffi (limits_to_ffi l) = l" "limits_to_ffi (limits_from_ffi r) = r"
  by (simp_all add: limits_from_ffi_def limits_to_ffi_def)

lemma options_ffi_inverse: "ffi_pack_options (Some (options_to_ffi options)) = Ok options"
  by (cases "o_mode options"; cases "o_protection options")
    (simp_all add: ffi_pack_options_def options_to_ffi_def mode_to_ffi_def protection_to_ffi_def PACK_MODE_DEBUG_def
      PACK_MODE_PRODUCTION_def PROTECTION_XOR_def PROTECTION_AEAD_def)

end
