(* ===== verification/Ffi_Archive.thy ===== *)
theory Ffi_Archive
  imports Ffi_Types Source
begin

text \<open>
  The C interface to the reader (\<open>rasen-archive-ffi/src/archive.rs\<close> and the sources of
  \<open>io.rs\<close>).  Each function is a body run by \<open>ffi_call\<close> on the cells it may write and the
  thread's last message.  An assignment \<open>*required_mut(out)? = e\<close> evaluates \<open>e\<close> first.
\<close>

section \<open>Sources\<close>

text \<open>
  A callback gets the offset and the destination, and returns a status and what it left in
  the destination.
\<close>

record callback_source =
  cb_len :: u64
  cb_read_at :: "(u64 \<Rightarrow> bytes \<Rightarrow> int \<times> bytes) option"
  cb_destroy :: bool

datatype ffi_source = Memory bytes | FileSource source | Callback callback_source

definition callback_read_exact_at :: "callback_source \<Rightarrow> u64 \<Rightarrow> (bytes, unit, io_error) stm" where
  "callback_read_exact_at source offset =
     bind_st (lift_st (ok_or (cb_read_at source) (IoError KOther ''read_at callback is null''))) (\<lambda>read_at dst.
       case read_at offset dst of (status, dst') \<Rightarrow>
         (ensure (status = 0) (IoError KOther (''read_at callback failed: '' @ signed_decimal status)), dst'))"

definition ffi_source_of :: "env \<Rightarrow> ffi_source \<Rightarrow> source" where
  "ffi_source_of E source = (case source of
      Memory data \<Rightarrow> \<lparr> src_len = io_len data, src_read_exact_at = read_slice_exact E data \<rparr>
    | FileSource file \<Rightarrow> \<lparr> src_len = src_len file, src_read_exact_at = src_read_exact_at file \<rparr>
    | Callback c \<Rightarrow> \<lparr> src_len = Ok (cb_len c), src_read_exact_at = callback_read_exact_at c \<rparr>)"

text \<open>How often dropping a source calls the destroy callback.\<close>

definition drop_source :: "ffi_source \<Rightarrow> nat" where
  "drop_source source = (case source of Callback c \<Rightarrow> of_bool (cb_destroy c) | _ \<Rightarrow> 0)"

section \<open>Handles\<close>

record rasen_archive =
  ra_inner :: archive
  ra_source :: ffi_source

record rasen_scratch =
  rs_inner :: scratch

definition archive_ref :: "rasen_archive option \<Rightarrow> (rasen_archive, ffi_failure) res" where
  "archive_ref archive = required ''archive'' archive"

text \<open>Steps on one of two cells, and operations of the library as steps.\<close>

definition on_fst :: "('s, 'a, 'e) stm \<Rightarrow> ('s \<times> 'b, 'a, 'e) stm" where
  "on_fst m = (\<lambda>(s, b). case m s of (r, s') \<Rightarrow> (r, s', b))"

definition core_st :: "('s, 'a, error) stm \<Rightarrow> ('s, 'a, ffi_failure) stm" where
  "core_st m = (\<lambda>s. case m s of (r, s') \<Rightarrow> (from_core r, s'))"

section \<open>Paths\<close>

definition rasen_hash_path ::
  "env \<Rightarrow> bytes option \<Rightarrow> usize \<Rightarrow> u64 option \<Rightarrow> bytes \<Rightarrow> rasen_status \<times> u64 option \<times> bytes" where
  "rasen_hash_path E path path_len = ffi_call (
     bind_st (lift_st (utf8 path path_len ''path'')) (\<lambda>path.
     bind_st (lift_st (from_core (hash_path E path))) (\<lambda>hash.
       store_out ''out_hash'' hash)))"

definition rasen_normalize_path ::
  "env \<Rightarrow> bytes option \<Rightarrow> usize \<Rightarrow> rasen_buffer option \<Rightarrow> bytes \<Rightarrow> rasen_status \<times> rasen_buffer option \<times> bytes" where
  "rasen_normalize_path E path path_len = ffi_call (
     bind_st (required_out ''out'') (\<lambda>_.
     bind_st (lift_st (utf8 path path_len ''path'')) (\<lambda>path.
     bind_st (lift_st (from_core (normalize_path E path))) (\<lambda>normalized.
       write_out (into_buffer normalized)))))"

section \<open>Opening and closing\<close>

definition ffi_open :: "env \<Rightarrow> ffi_source \<Rightarrow> bytes \<Rightarrow> archive_limits \<Rightarrow> (rasen_archive, ffi_failure) res" where
  "ffi_open E source key l =
     bind_res (from_core (open_with_limits E (ffi_source_of E source) key l)) (\<lambda>inner.
       Ok \<lparr> ra_inner = inner, ra_source = source \<rparr>)"

definition rasen_archive_open_memory ::
  "env \<Rightarrow> bytes option \<Rightarrow> usize \<Rightarrow> bytes option \<Rightarrow> usize \<Rightarrow> rasen_archive_limits option \<Rightarrow>
     rasen_archive option option \<Rightarrow> bytes \<Rightarrow> rasen_status \<times> rasen_archive option option \<times> bytes" where
  "rasen_archive_open_memory E data data_len key key_len limits_ptr = ffi_call (
     bind_st (required_out ''out'') (\<lambda>_.
     bind_st (lift_st (ffi_bytes data data_len ''data'')) (\<lambda>source.
     bind_st (lift_st (ffi_bytes key key_len ''key'')) (\<lambda>key.
     bind_st (lift_st (ffi_open E (Memory source) key (ffi_limits limits_ptr))) (\<lambda>archive.
       write_out (Some archive))))))"

text \<open>\<open>open_path\<close> is the operating system's opening of a file.\<close>

definition rasen_archive_open_file ::
  "env \<Rightarrow> (bytes \<Rightarrow> (source, io_error) res) \<Rightarrow> bytes option \<Rightarrow> usize \<Rightarrow> bytes option \<Rightarrow> usize \<Rightarrow>
     rasen_archive_limits option \<Rightarrow> rasen_archive option option \<Rightarrow> bytes \<Rightarrow>
     rasen_status \<times> rasen_archive option option \<times> bytes" where
  "rasen_archive_open_file E open_path path path_len key key_len limits_ptr = ffi_call (
     bind_st (required_out ''out'') (\<lambda>_.
     bind_st (lift_st (utf8 path path_len ''path'')) (\<lambda>path.
     bind_st (lift_st (ffi_bytes key key_len ''key'')) (\<lambda>key.
     bind_st (lift_st (map_err failure_from_io (open_path path))) (\<lambda>file.
     bind_st (lift_st (ffi_open E (FileSource file) key (ffi_limits limits_ptr))) (\<lambda>archive.
       write_out (Some archive)))))))"

text \<open>
  The closure owns the callback source: unless the archive takes it, it is dropped when the
  closure ends, by an error, an early return or a panic.  The second part of the state
  counts the calls of the destroy callback.
\<close>

definition owning :: "ffi_source \<Rightarrow> ('s \<times> nat, 'a, 'e) stm \<Rightarrow> ('s \<times> nat, 'a, 'e) stm" where
  "owning source m = (\<lambda>s. case m s of
      (Ok x, s') \<Rightarrow> (Ok x, s')
    | (Err e, c, n) \<Rightarrow> (Err e, c, n + drop_source source)
    | (Panic, c, n) \<Rightarrow> (Panic, c, n + drop_source source))"

definition rasen_archive_open_source ::
  "env \<Rightarrow> callback_source \<Rightarrow> bytes option \<Rightarrow> usize \<Rightarrow> rasen_archive_limits option \<Rightarrow>
     rasen_archive option option \<times> nat \<Rightarrow> bytes \<Rightarrow> rasen_status \<times> (rasen_archive option option \<times> nat) \<times> bytes" where
  "rasen_archive_open_source E source key key_len limits_ptr = ffi_call (owning (Callback source) (
     bind_st (on_fst (required_out ''out'')) (\<lambda>_.
     bind_st (lift_st (ffi_bytes key key_len ''key'')) (\<lambda>key.
     bind_st (lift_st (ffi_open E (Callback source) key (ffi_limits limits_ptr))) (\<lambda>archive.
       on_fst (write_out (Some archive)))))))"

definition rasen_archive_free :: "rasen_archive option \<Rightarrow> nat \<Rightarrow> nat" where
  "rasen_archive_free archive n = (case archive of None \<Rightarrow> n | Some a \<Rightarrow> n + drop_source (ra_source a))"

section \<open>Metadata\<close>

record rasen_archive_info =
  ri_entry_count :: usize
  ri_chunk_size :: u32
  ri_alignment :: u32
  ri_paths_stripped :: u8
  ri_protection :: u32

record rasen_entry =
  re_path :: "bytes option"
  re_path_len :: usize
  re_path_hash :: u64
  re_original_size :: u64
  re_stored_size :: u64
  re_first_chunk :: u32
  re_chunk_count :: u32

definition ffi_entry :: "entry \<Rightarrow> rasen_entry" where
  "ffi_entry e = \<lparr> re_path = entry_path e, re_path_len = (case entry_path e of None \<Rightarrow> 0 | Some p \<Rightarrow> length p),
     re_path_hash = en_path_hash e, re_original_size = en_original_size e, re_stored_size = en_stored_size e,
     re_first_chunk = en_first_chunk e, re_chunk_count = en_chunk_count e \<rparr>"

definition rasen_archive_info_of ::
  "rasen_archive option \<Rightarrow> rasen_archive_info option \<Rightarrow> bytes \<Rightarrow> rasen_status \<times> rasen_archive_info option \<times> bytes" where
  "rasen_archive_info_of archive = ffi_call (
     bind_st (lift_st (archive_ref archive)) (\<lambda>archive.
       let A = ra_inner archive in
       store_out ''out'' \<lparr> ri_entry_count = length (a_entries A), ri_chunk_size = a_chunk_size A,
         ri_alignment = a_alignment A, ri_paths_stripped = of_bool (a_paths_stripped A),
         ri_protection = protection_to_ffi (a_protection A) \<rparr>))"

definition rasen_archive_entry_at ::
  "rasen_archive option \<Rightarrow> usize \<Rightarrow> rasen_entry option \<Rightarrow> bytes \<Rightarrow> rasen_status \<times> rasen_entry option \<times> bytes" where
  "rasen_archive_entry_at archive index = ffi_call (
     bind_st (lift_st (archive_ref archive)) (\<lambda>archive.
     bind_st (lift_st (ok_or (if index < length (a_entries (ra_inner archive))
                              then Some (a_entries (ra_inner archive) ! index) else None)
                         (failure S_OutOfRange (''entry index out of range: '' @ decimal index)))) (\<lambda>entry.
       store_out ''out'' (ffi_entry entry))))"

definition rasen_archive_entry ::
  "env \<Rightarrow> rasen_archive option \<Rightarrow> bytes option \<Rightarrow> usize \<Rightarrow> rasen_entry option \<Rightarrow> bytes \<Rightarrow>
     rasen_status \<times> rasen_entry option \<times> bytes" where
  "rasen_archive_entry E archive path path_len = ffi_call (
     bind_st (lift_st (archive_ref archive)) (\<lambda>archive.
     bind_st (lift_st (utf8 path path_len ''path'')) (\<lambda>path.
     bind_st (lift_st (from_core (entry_of_path E (ra_inner archive) path))) (\<lambda>entry.
       store_out ''out'' (ffi_entry entry)))))"

definition rasen_archive_entry_by_id ::
  "rasen_archive option \<Rightarrow> u64 \<Rightarrow> rasen_entry option \<Rightarrow> bytes \<Rightarrow> rasen_status \<times> rasen_entry option \<times> bytes" where
  "rasen_archive_entry_by_id archive asset_id = ffi_call (
     bind_st (lift_st (archive_ref archive)) (\<lambda>archive.
     bind_st (lift_st (from_core (entry_by_id (ra_inner archive) (asset_id_from_raw asset_id)))) (\<lambda>entry.
       store_out ''out'' (ffi_entry entry))))"

definition rasen_archive_verify :: "env \<Rightarrow> rasen_archive option \<Rightarrow> bytes \<Rightarrow> rasen_status \<times> unit \<times> bytes" where
  "rasen_archive_verify E archive = ffi_call (
     bind_st (lift_st (archive_ref archive)) (\<lambda>archive.
       lift_st (from_core (verify E (ra_inner archive))))) ()"

definition rasen_archive_contains ::
  "env \<Rightarrow> rasen_archive option \<Rightarrow> bytes option \<Rightarrow> usize \<Rightarrow> u8 option \<Rightarrow> bytes \<Rightarrow> rasen_status \<times> u8 option \<times> bytes" where
  "rasen_archive_contains E archive path path_len = ffi_call (
     bind_st (lift_st (archive_ref archive)) (\<lambda>archive.
     bind_st (lift_st (utf8 path path_len ''path'')) (\<lambda>path.
     bind_st (lift_st (from_core (try_contains E (ra_inner archive) path))) (\<lambda>found.
       store_out ''out_contains'' (of_bool found)))))"

definition rasen_archive_contains_id ::
  "rasen_archive option \<Rightarrow> u64 \<Rightarrow> u8 option \<Rightarrow> bytes \<Rightarrow> rasen_status \<times> u8 option \<times> bytes" where
  "rasen_archive_contains_id archive asset_id = ffi_call (
     bind_st (lift_st (archive_ref archive)) (\<lambda>archive.
       store_out ''out_contains'' (of_bool (contains_id (ra_inner archive) (asset_id_from_raw asset_id)))))"

end
