(* ===== verification/Ffi_Read.thy ===== *)
theory Ffi_Read
  imports Ffi_Archive
begin

text \<open>
  The read functions of the C interface (\<open>rasen-archive-ffi/src/archive.rs\<close>): into buffers
  that the library allocates, into the caller's memory, and with a scratch handle.
\<close>

section \<open>Into new buffers\<close>

definition read_buffer ::
  "rasen_archive option \<Rightarrow> (archive \<Rightarrow> (bytes, error) res) \<Rightarrow> (rasen_buffer option, unit, ffi_failure) stm" where
  "read_buffer archive rd =
     bind_st (lift_st (archive_ref archive)) (\<lambda>archive.
     bind_st (required_out ''out'') (\<lambda>_.
     bind_st (lift_st (from_core (rd (ra_inner archive)))) (\<lambda>value.
       write_out (into_buffer value))))"

definition rasen_archive_read ::
  "env \<Rightarrow> rasen_archive option \<Rightarrow> bytes option \<Rightarrow> usize \<Rightarrow> rasen_buffer option \<Rightarrow> bytes \<Rightarrow>
     rasen_status \<times> rasen_buffer option \<times> bytes" where
  "rasen_archive_read E archive path path_len = ffi_call (
     bind_st (lift_st (utf8 path path_len ''path'')) (\<lambda>path.
       read_buffer archive (\<lambda>A. read E A path)))"

definition rasen_archive_read_by_id ::
  "env \<Rightarrow> rasen_archive option \<Rightarrow> u64 \<Rightarrow> rasen_buffer option \<Rightarrow> bytes \<Rightarrow> rasen_status \<times> rasen_buffer option \<times> bytes" where
  "rasen_archive_read_by_id E archive asset_id = ffi_call (
     read_buffer archive (\<lambda>A. read_by_id E A (asset_id_from_raw asset_id)))"

definition rasen_archive_read_chunk ::
  "env \<Rightarrow> rasen_archive option \<Rightarrow> bytes option \<Rightarrow> usize \<Rightarrow> u32 \<Rightarrow> rasen_buffer option \<Rightarrow> bytes \<Rightarrow>
     rasen_status \<times> rasen_buffer option \<times> bytes" where
  "rasen_archive_read_chunk E archive path path_len chunk_index = ffi_call (
     bind_st (lift_st (utf8 path path_len ''path'')) (\<lambda>path.
       read_buffer archive (\<lambda>A. read_chunk E A path chunk_index)))"

definition rasen_archive_read_range ::
  "env \<Rightarrow> rasen_archive option \<Rightarrow> bytes option \<Rightarrow> usize \<Rightarrow> u64 \<Rightarrow> usize \<Rightarrow> rasen_buffer option \<Rightarrow> bytes \<Rightarrow>
     rasen_status \<times> rasen_buffer option \<times> bytes" where
  "rasen_archive_read_range E archive path path_len offset len = ffi_call (
     bind_st (lift_st (utf8 path path_len ''path'')) (\<lambda>path.
       read_buffer archive (\<lambda>A. read_range E A path offset len)))"

definition rasen_archive_read_range_exact ::
  "env \<Rightarrow> rasen_archive option \<Rightarrow> bytes option \<Rightarrow> usize \<Rightarrow> u64 \<Rightarrow> usize \<Rightarrow> rasen_buffer option \<Rightarrow> bytes \<Rightarrow>
     rasen_status \<times> rasen_buffer option \<times> bytes" where
  "rasen_archive_read_range_exact E archive path path_len offset len = ffi_call (
     bind_st (lift_st (utf8 path path_len ''path'')) (\<lambda>path.
       read_buffer archive (\<lambda>A. read_range_exact E A path offset len)))"

section \<open>Into the caller's memory\<close>

definition rasen_archive_read_into ::
  "env \<Rightarrow> rasen_archive option \<Rightarrow> bytes option \<Rightarrow> usize \<Rightarrow> usize \<Rightarrow> bytes option \<Rightarrow> bytes \<Rightarrow>
     rasen_status \<times> bytes option \<times> bytes" where
  "rasen_archive_read_into E archive path path_len dst_len = ffi_call (
     bind_st (lift_st (archive_ref archive)) (\<lambda>archive.
     bind_st (lift_st (utf8 path path_len ''path'')) (\<lambda>path.
       on_bytes_mut dst_len ''dst'' (core_st (read_into E (ra_inner archive) path)))))"

definition rasen_archive_read_chunk_into ::
  "env \<Rightarrow> rasen_archive option \<Rightarrow> bytes option \<Rightarrow> usize \<Rightarrow> u32 \<Rightarrow> usize \<Rightarrow> bytes option \<Rightarrow> bytes \<Rightarrow>
     rasen_status \<times> bytes option \<times> bytes" where
  "rasen_archive_read_chunk_into E archive path path_len chunk_index dst_len = ffi_call (
     bind_st (lift_st (archive_ref archive)) (\<lambda>archive.
     bind_st (lift_st (utf8 path path_len ''path'')) (\<lambda>path.
       on_bytes_mut dst_len ''dst'' (core_st (read_chunk_into E (ra_inner archive) path chunk_index)))))"

text \<open>Two cells: the destination, and the count of bytes read.\<close>

definition rasen_archive_read_range_into ::
  "env \<Rightarrow> rasen_archive option \<Rightarrow> bytes option \<Rightarrow> usize \<Rightarrow> u64 \<Rightarrow> usize \<Rightarrow> bytes option \<times> usize option \<Rightarrow> bytes \<Rightarrow>
     rasen_status \<times> (bytes option \<times> usize option) \<times> bytes" where
  "rasen_archive_read_range_into E archive path path_len offset dst_len = ffi_call (
     bind_st (lift_st (archive_ref archive)) (\<lambda>archive.
     bind_st (lift_st (utf8 path path_len ''path'')) (\<lambda>path.
     bind_st (on_fst (on_bytes_mut dst_len ''dst'' (core_st (read_range_into E (ra_inner archive) path offset)))) (\<lambda>n.
       on_snd (store_out ''out_read'' n)))))"

section \<open>With a scratch handle\<close>

text \<open>
  The state of \<open>rasen_scratch_new\<close> is the output cell and the number of handles that are
  allocated.  The handle is created before the output is checked.
\<close>

definition rasen_scratch_new ::
  "rasen_scratch option option \<times> nat \<Rightarrow> bytes \<Rightarrow> rasen_status \<times> (rasen_scratch option option \<times> nat) \<times> bytes" where
  "rasen_scratch_new = ffi_call (
     bind_st (\<lambda>(out, live). (Ok \<lparr> rs_inner = default_scratch \<rparr>, out, Suc live)) (\<lambda>handle.
       on_fst (store_out ''out'' (Some handle))))"

definition rasen_scratch_free :: "rasen_scratch option \<Rightarrow> nat \<Rightarrow> nat" where
  "rasen_scratch_free scratch live = (case scratch of None \<Rightarrow> live | Some _ \<Rightarrow> live - 1)"

text \<open>An operation on the slice \<open>bytes_mut\<close> gives and on the scratch space of the handle.\<close>

definition scratch_mut :: "rasen_scratch option \<Rightarrow> (rasen_scratch, ffi_failure) res" where
  "scratch_mut scratch = required ''scratch'' scratch"

definition on_bytes_and_scratch ::
  "usize \<Rightarrow> (bytes \<times> scratch, 'a, error) stm \<Rightarrow> (bytes option \<times> rasen_scratch option, 'a, ffi_failure) stm" where
  "on_bytes_and_scratch dst_len m = (\<lambda>(cell, handle).
     case bind_res (ffi_bytes cell dst_len ''dst'') (\<lambda>dst. bind_res (scratch_mut handle) (\<lambda>h. Ok (dst, h))) of
       Err f \<Rightarrow> (Err f, cell, handle)
     | Panic \<Rightarrow> (Panic, cell, handle)
     | Ok (dst, h) \<Rightarrow>
         (case m (dst, rs_inner h) of (r, dst', inner') \<Rightarrow>
            (from_core r, if dst_len = 0 then cell else map_option (\<lambda>memory. dst' @ drop dst_len memory) cell,
             Some (h\<lparr> rs_inner := inner' \<rparr>))))"

definition rasen_archive_read_into_with_scratch ::
  "env \<Rightarrow> rasen_archive option \<Rightarrow> bytes option \<Rightarrow> usize \<Rightarrow> usize \<Rightarrow> bytes option \<times> rasen_scratch option \<Rightarrow> bytes \<Rightarrow>
     rasen_status \<times> (bytes option \<times> rasen_scratch option) \<times> bytes" where
  "rasen_archive_read_into_with_scratch E archive path path_len dst_len = ffi_call (
     bind_st (lift_st (archive_ref archive)) (\<lambda>archive.
     bind_st (lift_st (utf8 path path_len ''path'')) (\<lambda>path.
       on_bytes_and_scratch dst_len (read_into_with_scratch E (ra_inner archive) path))))"

definition rasen_archive_read_chunk_into_with_scratch ::
  "env \<Rightarrow> rasen_archive option \<Rightarrow> bytes option \<Rightarrow> usize \<Rightarrow> u32 \<Rightarrow> usize \<Rightarrow> bytes option \<times> rasen_scratch option \<Rightarrow> bytes \<Rightarrow>
     rasen_status \<times> (bytes option \<times> rasen_scratch option) \<times> bytes" where
  "rasen_archive_read_chunk_into_with_scratch E archive path path_len chunk_index dst_len = ffi_call (
     bind_st (lift_st (archive_ref archive)) (\<lambda>archive.
     bind_st (lift_st (utf8 path path_len ''path'')) (\<lambda>path.
       on_bytes_and_scratch dst_len (read_chunk_into_with_scratch E (ra_inner archive) path chunk_index))))"

definition rasen_archive_read_range_with_scratch ::
  "env \<Rightarrow> rasen_archive option \<Rightarrow> bytes option \<Rightarrow> usize \<Rightarrow> u64 \<Rightarrow> usize \<Rightarrow>
     (bytes option \<times> rasen_scratch option) \<times> usize option \<Rightarrow> bytes \<Rightarrow>
     rasen_status \<times> ((bytes option \<times> rasen_scratch option) \<times> usize option) \<times> bytes" where
  "rasen_archive_read_range_with_scratch E archive path path_len offset dst_len = ffi_call (
     bind_st (lift_st (archive_ref archive)) (\<lambda>archive.
     bind_st (lift_st (utf8 path path_len ''path'')) (\<lambda>path.
     bind_st (on_fst (on_bytes_and_scratch dst_len (read_range_with_scratch E (ra_inner archive) path offset))) (\<lambda>n.
       on_snd (store_out ''out_read'' n)))))"

end
