(* ===== verification/Ffi_Calls.thy ===== *)
theory Ffi_Calls
  imports Ffi_Read
begin

text \<open>
  What holds of every call of the C interface: a call that fails through a body that writes
  only at its end leaves its outputs alone, its status is not \<open>Ok\<close>, and a body that cannot
  panic gives no \<open>Panic\<close> status.  The rules for each are collected under one name, so that
  the functions follow by applying them along their bodies.
\<close>

section \<open>Statuses of failures\<close>

named_theorems real_failure "results whose failures carry an error status"

definition fails_properly :: "('a, ffi_failure) res \<Rightarrow> bool" where
  "fails_properly r \<longleftrightarrow> (\<forall>f. r = Err f \<longrightarrow> ff_status f \<noteq> S_Ok)"

lemma core_status_not_ok [simp]: "core_status e \<noteq> S_Ok"
  by (cases e) (simp_all add: core_status_def)

lemma fails_properly_intros [real_failure]:
  "fails_properly (Ok x)"
  "status \<noteq> S_Ok \<Longrightarrow> fails_properly (Err (failure status message))"
  "status \<noteq> S_Ok \<Longrightarrow> fails_properly (ok_or p (failure status message))"
  "fails_properly (from_core r)"
  "fails_properly (map_err failure_from_io r')"
  "fails_properly (required name p')"
  "fails_properly (ffi_bytes data n name)"
  "fails_properly (raw_slice items n name)"
  by (cases r; cases r'; auto simp: fails_properly_def failure_def failure_from_def failure_from_io_def ok_or_def from_core_def
      required_def ffi_bytes_def raw_slice_def split: option.splits)+

lemma fails_properly_bind [real_failure]:
  "fails_properly r \<Longrightarrow> (\<And>x. fails_properly (k x)) \<Longrightarrow> fails_properly (bind_res r k)"
  by (cases r) (auto simp: fails_properly_def)

lemma fails_properly_if [real_failure]:
  "fails_properly r \<Longrightarrow> fails_properly r' \<Longrightarrow> fails_properly (if c then r else r')"
  by simp

lemma fails_properly_utf8 [real_failure]: "fails_properly (utf8 data n name)"
  unfolding utf8_def by (intro real_failure) simp

lemma fails_properly_open [real_failure]: "fails_properly (ffi_open E source key l)"
  unfolding ffi_open_def by (intro real_failure)

lemma fails_properly_archive [real_failure]: "fails_properly (archive_ref archive)"
  unfolding archive_ref_def by (intro real_failure)

section \<open>Outputs on failure\<close>

text \<open>
  \<open>quiet\<close> steps change the cells only if they succeed; \<open>silent\<close> steps never do.
\<close>

named_theorems quiet_intros "steps that leave their outputs alone when they fail"

definition quiet_at :: "'s \<Rightarrow> ('a, ffi_failure) res \<times> 's \<Rightarrow> bool" where
  "quiet_at s out \<longleftrightarrow> (case fst out of Ok x \<Rightarrow> True | Err f \<Rightarrow> snd out = s \<and> ff_status f \<noteq> S_Ok | Panic \<Rightarrow> snd out = s)"

definition quiet :: "('s, 'a, ffi_failure) stm \<Rightarrow> bool" where
  "quiet m \<longleftrightarrow> (\<forall>s. quiet_at s (m s))"

definition silent :: "('s, 'a, ffi_failure) stm \<Rightarrow> bool" where
  "silent m \<longleftrightarrow> quiet m \<and> (\<forall>s. snd (m s) = s)"

lemma quiet_bind [quiet_intros]:
  assumes "silent m" "\<And>x. quiet (k x)"
  shows "quiet (bind_st m k)"
  unfolding quiet_def
proof
  fix s
  obtain r t where m: "m s = (r, t)" by fastforce
  have t: "t = s" using assms(1) m by (metis silent_def snd_conv)
  have "quiet_at s (r, s)" using assms(1) m t by (metis silent_def quiet_def)
  then show "quiet_at s (bind_st m k s)"
    using m t assms(2) by (cases r) (simp_all add: bind_st_def quiet_at_def quiet_def)
qed

lemma silent_lift [quiet_intros]: "fails_properly r \<Longrightarrow> silent (lift_st r)"
  by (cases r) (auto simp: silent_def quiet_def quiet_at_def lift_st_def fails_properly_def)

lemma silent_required [quiet_intros]: "silent (required_out name)"
  by (auto simp: silent_def quiet_def quiet_at_def required_out_def required_def ok_or_def failure_def split: option.splits)

lemma quiet_write [quiet_intros]: "quiet (write_out v)"
  by (simp add: quiet_def quiet_at_def write_out_def)

lemma quiet_store [quiet_intros]: "quiet (store_out name v)"
  unfolding store_out_def by (intro quiet_intros)

lemma quiet_on_fst: "quiet m \<Longrightarrow> quiet (on_fst m)"
  by (simp add: quiet_def quiet_at_def on_fst_def case_prod_beta split: res.splits)

lemma silent_on_fst: "silent m \<Longrightarrow> silent (on_fst m)"
  by (simp add: silent_def quiet_on_fst) (simp add: on_fst_def case_prod_beta)

lemma silent_quiet: "silent m \<Longrightarrow> quiet m"
  by (simp add: silent_def)

lemma quiet_read_buffer [quiet_intros]: "quiet (read_buffer archive rd)"
  unfolding read_buffer_def by (intro quiet_intros real_failure)

lemma quiet_Let [quiet_intros]: "quiet (f x) \<Longrightarrow> quiet (Let x f)"
  by (simp add: Let_def)

lemma ffi_call_quiet:
  assumes "quiet m" "ffi_call m s msg = (st, s', msg')"
  shows "(st \<noteq> S_Ok \<longrightarrow> s' = s) \<and> (st = S_Ok \<longrightarrow> msg' = msg)"
proof -
  obtain r t where m: "m s = (r, t)" by fastforce
  moreover have "quiet_at s (m s)" using assms(1) by (simp add: quiet_def)
  ultimately show ?thesis using assms(2) by (cases r) (auto simp: ffi_call_def quiet_at_def)
qed

section \<open>Messages and panics\<close>

lemma ffi_call_message:
  assumes "ffi_call m s msg = (st, s', msg')" "0 \<notin> set msg"
  shows "0 \<notin> set msg'"
proof -
  have msg': "msg' = msg \<or> (\<exists>b. msg' = set_last_error b)"
    using assms(1) by (auto simp: ffi_call_def split: prod.splits res.splits)
  have "0 \<notin> set (set_last_error b)" for b unfolding set_last_error_text(1) by (rule set_last_error_text(2))
  then show ?thesis using msg' assms(2) by auto
qed

named_theorems calm "results and steps that neither panic nor report a panic"

definition calm_result :: "('a, ffi_failure) res \<Rightarrow> bool" where
  "calm_result r \<longleftrightarrow> r \<noteq> Panic \<and> (\<forall>f. r = Err f \<longrightarrow> ff_status f \<noteq> S_Panic)"

definition calm_step :: "('s, 'a, ffi_failure) stm \<Rightarrow> bool" where
  "calm_step m \<longleftrightarrow> (\<forall>s. calm_result (fst (m s)))"

lemma core_status_not_panic [simp]: "core_status e \<noteq> S_Panic"
  by (cases e) (simp_all add: core_status_def)

lemma calm_results [calm]:
  "calm_result (Ok x)"
  "status \<noteq> S_Panic \<Longrightarrow> calm_result (Err (failure status message))"
  "status \<noteq> S_Panic \<Longrightarrow> calm_result (ok_or p (failure status message))"
  "r \<noteq> Panic \<Longrightarrow> calm_result (from_core r)"
  "r' \<noteq> Panic \<Longrightarrow> calm_result (map_err failure_from_io r')"
  "calm_result (required name p')"
  "calm_result (ffi_bytes data n name)"
  by (cases r; cases r'; auto simp: calm_result_def failure_def failure_from_def failure_from_io_def ok_or_def from_core_def
      required_def ffi_bytes_def split: option.splits)+

lemma calm_bind_res [calm]:
  "calm_result r \<Longrightarrow> (\<And>x. r = Ok x \<Longrightarrow> calm_result (k x)) \<Longrightarrow> calm_result (bind_res r k)"
  by (cases r) (auto simp: calm_result_def)

lemma calm_if [calm]: "calm_result r \<Longrightarrow> calm_result r' \<Longrightarrow> calm_result (if c then r else r')"
  by simp

lemma calm_utf8 [calm]: "calm_result (utf8 data n name)"
  unfolding utf8_def by (intro calm) simp

lemma calm_archive [calm]: "calm_result (archive_ref archive)"
  unfolding archive_ref_def by (rule calm_results)

lemma calm_lift [calm]: "calm_result r \<Longrightarrow> calm_step (lift_st r)"
  by (simp add: calm_step_def lift_st_def)

lemma calm_bind:
  assumes "calm_step m" "\<And>x s s'. m s = (Ok x, s') \<Longrightarrow> calm_step (k x)"
  shows "calm_step (bind_st m k)"
  unfolding calm_step_def
proof
  fix s
  obtain r t where m: "m s = (r, t)" by fastforce
  then have "calm_result r" using assms(1) by (metis calm_step_def fst_conv)
  then show "calm_result (fst (bind_st m k s))"
    using m assms(2) [of s _ t] by (cases r) (simp_all add: bind_st_def calm_step_def calm_result_def)
qed

lemma calm_lift_bind [calm]:
  "calm_result r \<Longrightarrow> (\<And>x. r = Ok x \<Longrightarrow> calm_step (k x)) \<Longrightarrow> calm_step (bind_st (lift_st r) k)"
  by (rule calm_bind) (auto intro: calm_lift simp: lift_st_def)

lemma calm_required_bind [calm]: "(\<And>u. calm_step (k u)) \<Longrightarrow> calm_step (bind_st (required_out name) k)"
  by (rule calm_bind) (auto simp: calm_step_def required_out_def intro!: calm)

lemma calm_write [calm]: "calm_step (write_out v)"
  by (simp add: calm_step_def write_out_def calm)

lemma calm_store [calm]: "calm_step (store_out name v)"
  unfolding store_out_def by (intro calm)

lemma archive_ref_Ok [res_simps]: "archive_ref archive = Ok a \<longleftrightarrow> archive = Some a"
  by (simp add: archive_ref_def required_def res_simps)

lemma calm_read_buffer [calm]:
  "(\<And>a. archive = Some a \<Longrightarrow> rd (ra_inner a) \<noteq> Panic) \<Longrightarrow> calm_step (read_buffer archive rd)"
  unfolding read_buffer_def by (intro calm) (simp add: res_simps)

lemma calm_core_st [calm]: "(\<And>s. fst (m s) \<noteq> Panic) \<Longrightarrow> calm_step (core_st m)"
  by (simp add: calm_step_def core_st_def case_prod_beta calm)

lemma calm_bytes_mut [calm]: "calm_step m \<Longrightarrow> calm_step (on_bytes_mut n name m)"
  by (simp add: calm_step_def on_bytes_mut_def case_prod_beta calm split: option.splits)

lemma calm_on_fst [calm]: "calm_step m \<Longrightarrow> calm_step (on_fst m)"
  by (simp add: calm_step_def on_fst_def case_prod_beta)

lemma calm_on_snd [calm]: "calm_step m \<Longrightarrow> calm_step (on_snd m)"
  by (simp add: calm_step_def on_snd_def case_prod_beta)

lemma ffi_call_calm:
  assumes "calm_step m"
  shows "fst (ffi_call m s msg) \<noteq> S_Panic"
proof -
  obtain r t where m: "m s = (r, t)" by fastforce
  then have "calm_result r" using assms by (metis calm_step_def fst_conv)
  then show ?thesis using m by (cases r) (simp_all add: ffi_call_def calm_result_def)
qed

end
