(* ===== verification/Ffi_Session.thy ===== *)
theory Ffi_Session
  imports Ffi_Calls Reader_Safety
begin

text \<open>
  A host program as a step relation over the C interface: it opens archives from memory, from
  files and from callbacks, with an output or with a null one, calls any function on the handles it has or on null, and frees
  handles, in any order.  The invariant of its reachable states is what the library promises
  over whole runs: handles stand for well-formed archives, the last message is a C string,
  and a source's destroy callback is called once.
\<close>

section \<open>Queries\<close>

text \<open>The functions that take a handle and leave it as it is; their outputs are arguments here.\<close>

datatype query =
    Q_Info "rasen_archive_info option"
  | Q_Entry_At usize "rasen_entry option"
  | Q_Entry "bytes option" usize "rasen_entry option"
  | Q_Entry_By_Id u64 "rasen_entry option"
  | Q_Verify
  | Q_Contains "bytes option" usize "u8 option"
  | Q_Contains_Id u64 "u8 option"
  | Q_Read "bytes option" usize "rasen_buffer option"
  | Q_Read_By_Id u64 "rasen_buffer option"
  | Q_Read_Chunk "bytes option" usize u32 "rasen_buffer option"
  | Q_Read_Range "bytes option" usize u64 usize "rasen_buffer option"
  | Q_Read_Range_Exact "bytes option" usize u64 usize "rasen_buffer option"
  | Q_Read_Into "bytes option" usize usize "bytes option"
  | Q_Read_Chunk_Into "bytes option" usize u32 usize "bytes option"
  | Q_Read_Range_Into "bytes option" usize u64 usize "bytes option" "usize option"
  | Q_Read_Into_With_Scratch "bytes option" usize usize "bytes option" "rasen_scratch option"
  | Q_Read_Chunk_Into_With_Scratch "bytes option" usize u32 usize "bytes option" "rasen_scratch option"
  | Q_Read_Range_With_Scratch "bytes option" usize u64 usize "bytes option" "rasen_scratch option" "usize option"

definition outcome :: "rasen_status \<times> 's \<times> bytes \<Rightarrow> rasen_status \<times> bytes" where
  "outcome result = (fst result, snd (snd result))"

definition run_query :: "env \<Rightarrow> rasen_archive option \<Rightarrow> query \<Rightarrow> bytes \<Rightarrow> rasen_status \<times> bytes" where
  "run_query E a q msg = (case q of
      Q_Info out \<Rightarrow> outcome (rasen_archive_info_of a out msg)
    | Q_Entry_At i out \<Rightarrow> outcome (rasen_archive_entry_at a i out msg)
    | Q_Entry p n out \<Rightarrow> outcome (rasen_archive_entry E a p n out msg)
    | Q_Entry_By_Id i out \<Rightarrow> outcome (rasen_archive_entry_by_id a i out msg)
    | Q_Verify \<Rightarrow> outcome (rasen_archive_verify E a msg)
    | Q_Contains p n out \<Rightarrow> outcome (rasen_archive_contains E a p n out msg)
    | Q_Contains_Id i out \<Rightarrow> outcome (rasen_archive_contains_id a i out msg)
    | Q_Read p n out \<Rightarrow> outcome (rasen_archive_read E a p n out msg)
    | Q_Read_By_Id i out \<Rightarrow> outcome (rasen_archive_read_by_id E a i out msg)
    | Q_Read_Chunk p n c out \<Rightarrow> outcome (rasen_archive_read_chunk E a p n c out msg)
    | Q_Read_Range p n off len out \<Rightarrow> outcome (rasen_archive_read_range E a p n off len out msg)
    | Q_Read_Range_Exact p n off len out \<Rightarrow> outcome (rasen_archive_read_range_exact E a p n off len out msg)
    | Q_Read_Into p n len dst \<Rightarrow> outcome (rasen_archive_read_into E a p n len dst msg)
    | Q_Read_Chunk_Into p n c len dst \<Rightarrow> outcome (rasen_archive_read_chunk_into E a p n c len dst msg)
    | Q_Read_Range_Into p n off len dst out \<Rightarrow>
        outcome (rasen_archive_read_range_into E a p n off len (dst, out) msg)
    | Q_Read_Into_With_Scratch p n len dst s \<Rightarrow>
        outcome (rasen_archive_read_into_with_scratch E a p n len (dst, s) msg)
    | Q_Read_Chunk_Into_With_Scratch p n c len dst s \<Rightarrow>
        outcome (rasen_archive_read_chunk_into_with_scratch E a p n c len (dst, s) msg)
    | Q_Read_Range_With_Scratch p n off len dst s out \<Rightarrow>
        outcome (rasen_archive_read_range_with_scratch E a p n off len ((dst, s), out) msg))"

section \<open>The host\<close>

text \<open>
  \<open>h_given\<close> counts the callback sources with a destroy callback that the host gave away,
  \<open>h_destroyed\<close> the calls of destroy callbacks.
\<close>

record host =
  h_archives :: "rasen_archive list"
  h_given :: nat
  h_destroyed :: nat
  h_message :: bytes

definition new_host :: host where
  "new_host = \<lparr> h_archives = [], h_given = 0, h_destroyed = 0, h_message = [] \<rparr>"

text \<open>The contract of the callbacks and of the operating system's files.\<close>

definition callback_safe :: "callback_source \<Rightarrow> bool" where
  "callback_safe c \<longleftrightarrow> (case cb_read_at c of None \<Rightarrow> True
     | Some f \<Rightarrow> \<forall>offset dst. length (snd (f offset dst)) = length dst)"

definition files_safe :: "(bytes \<Rightarrow> (source, io_error) res) \<Rightarrow> bool" where
  "files_safe open_path \<longleftrightarrow> (\<forall>path. open_path path \<noteq> Panic \<and> (\<forall>S. open_path path = Ok S \<longrightarrow> source_safe S))"

definition opened :: "host \<Rightarrow> rasen_archive option \<Rightarrow> bytes \<Rightarrow> host" where
  "opened h out msg = h\<lparr> h_archives := (case out of None \<Rightarrow> h_archives h | Some a \<Rightarrow> a # h_archives h), h_message := msg \<rparr>"

inductive host_step :: "env \<Rightarrow> host \<Rightarrow> host \<Rightarrow> bool" for E :: env where
  query: "a \<in> insert None (Some ` set (h_archives h)) \<Longrightarrow> run_query E a q (h_message h) = (st, msg)
     \<Longrightarrow> host_step E h (h\<lparr> h_message := msg \<rparr>)"
| open_memory: "rasen_archive_open_memory E data data_len key key_len l (Some None) (h_message h) = (st, Some out, msg)
     \<Longrightarrow> host_step E h (opened h out msg)"
| open_file: "files_safe open_path
     \<Longrightarrow> rasen_archive_open_file E open_path path path_len key key_len l (Some None) (h_message h) = (st, Some out, msg)
     \<Longrightarrow> host_step E h (opened h out msg)"
| open_source: "callback_safe c
     \<Longrightarrow> rasen_archive_open_source E c key key_len l (Some None, h_destroyed h) (h_message h) = (st, (Some out, n), msg)
     \<Longrightarrow> host_step E h ((opened h out msg)\<lparr> h_given := h_given h + of_bool (cb_destroy c), h_destroyed := n \<rparr>)"
| open_memory_null: "rasen_archive_open_memory E data data_len key key_len l None (h_message h) = (st, None, msg)
     \<Longrightarrow> host_step E h (h\<lparr> h_message := msg \<rparr>)"
| open_file_null: "files_safe open_path
     \<Longrightarrow> rasen_archive_open_file E open_path path path_len key key_len l None (h_message h) = (st, None, msg)
     \<Longrightarrow> host_step E h (h\<lparr> h_message := msg \<rparr>)"
| open_source_null: "callback_safe c
     \<Longrightarrow> rasen_archive_open_source E c key key_len l (None, h_destroyed h) (h_message h) = (st, (None, n), msg)
     \<Longrightarrow> host_step E h (h\<lparr> h_message := msg, h_given := h_given h + of_bool (cb_destroy c), h_destroyed := n \<rparr>)"
| free: "h_archives h = as @ a # bs
     \<Longrightarrow> host_step E h (h\<lparr> h_archives := as @ bs, h_destroyed := rasen_archive_free (Some a) (h_destroyed h) \<rparr>)"

inductive host_reachable :: "env \<Rightarrow> host \<Rightarrow> bool" for E :: env where
  start: "host_reachable E new_host"
| step: "host_reachable E h \<Longrightarrow> host_step E h h' \<Longrightarrow> host_reachable E h'"

section \<open>Opening\<close>

definition handle_ok :: "env \<Rightarrow> rasen_archive \<Rightarrow> bool" where
  "handle_ok E a \<longleftrightarrow> archive_wf E (ra_inner a) \<and> source_safe (a_source (ra_inner a))"

lemma ffi_open_handle:
  assumes "env_safe E" "source_safe (ffi_source_of E source)" "ffi_open E source key l = Ok a"
  shows "handle_ok E a \<and> ra_source a = source"
proof -
  from assms(3) obtain A where "open_with_limits E (ffi_source_of E source) key l = Ok A"
    and a: "a = \<lparr> ra_inner = A, ra_source = source \<rparr>" by (auto simp: ffi_open_def from_core_def res_simps)
  then have "archive_wf E A" "a_source A = ffi_source_of E source"
    using open_with_limits_wf [OF assms(1)] by (auto elim: open_steps)
  then show ?thesis using a assms(2) by (simp add: handle_ok_def)
qed

lemma memory_source_safe: "source_safe (ffi_source_of E (Memory data))"
  using slice_src.safe by (simp add: ffi_source_of_def slice_source_def)

lemma callback_source_safe: "callback_safe c \<Longrightarrow> source_safe (ffi_source_of E (Callback c))"
  by (cases "cb_read_at c")
    (simp_all add: callback_safe_def source_safe_def ffi_source_of_def callback_read_exact_at_def bind_st_def lift_st_def
      ensure_def case_prod_beta)

lemma file_source_safe: "source_safe S \<Longrightarrow> source_safe (ffi_source_of E (FileSource S))"
  by (simp add: source_safe_def ffi_source_of_def)

lemma ffi_call_changed:
  assumes "quiet m" "ffi_call m s msg = (st, s', msg')"
  shows "s' = s \<or> m s = (Ok (), s')"
proof -
  obtain r t where m: "m s = (r, t)" by fastforce
  moreover have "quiet_at s (m s)" using assms(1) by (simp add: quiet_def)
  ultimately show ?thesis using assms(2) by (cases r) (auto simp: ffi_call_def quiet_at_def)
qed

text \<open>What an open function leaves when it was given a cell with a null handle.\<close>

lemma open_outcome:
  assumes "ffi_call m (Some None) msg = (st, Some out, msg')" "quiet m"
    "\<And>s'. m (Some None) = (Ok (), s') \<Longrightarrow> \<exists>a. s' = Some (Some a) \<and> P a"
  shows "case out of None \<Rightarrow> True | Some a \<Rightarrow> P a"
  using ffi_call_changed [OF assms(2,1)] assms(3) by (fastforce split: option.splits)

lemma open_memory_handle:
  assumes "env_safe E" "rasen_archive_open_memory E data data_len key key_len l (Some None) msg = (st, Some out, msg')"
  shows "case out of None \<Rightarrow> True | Some a \<Rightarrow> handle_ok E a \<and> drop_source (ra_source a) = 0"
  using assms(2) unfolding rasen_archive_open_memory_def
proof (rule open_outcome, goal_cases)
  case 1
  show ?case by (intro quiet_intros real_failure)
next
  case (2 s')
  then obtain source key a where "ffi_open E (Memory source) key (ffi_limits l) = Ok a" "s' = Some (Some a)"
    by (auto simp: res_simps write_out_def)
  then show ?case using ffi_open_handle [OF assms(1) memory_source_safe] by (auto simp: drop_source_def)
qed

lemma open_file_handle:
  assumes "env_safe E" "files_safe open_path"
    and "rasen_archive_open_file E open_path path path_len key key_len l (Some None) msg = (st, Some out, msg')"
  shows "case out of None \<Rightarrow> True | Some a \<Rightarrow> handle_ok E a \<and> drop_source (ra_source a) = 0"
  using assms(3) unfolding rasen_archive_open_file_def
proof (rule open_outcome, goal_cases)
  case 1
  show ?case by (intro quiet_intros real_failure)
next
  case (2 s')
  then obtain S path key a where "open_path path = Ok S" "ffi_open E (FileSource S) key (ffi_limits l) = Ok a"
    "s' = Some (Some a)" by (auto simp: res_simps write_out_def)
  moreover from this(1) have "source_safe S" using assms(2) by (auto simp: files_safe_def)
  ultimately show ?case using ffi_open_handle [OF assms(1) file_source_safe] by (auto simp: drop_source_def)
qed

text \<open>
  Opening from callbacks: on success the archive owns the source; on every failure, a null
  output included, the destroy callback has been called.
\<close>

lemma owning_outcome:
  assumes "ffi_call (owning source m) (cell, n) msg = (st, (cell', n'), msg')" "quiet m"
    "\<And>s'. m (cell, n) = (Ok (), s') \<Longrightarrow> snd s' = n \<and> P (fst s')"
  shows "if st = S_Ok then n' = n \<and> P cell' else cell' = cell \<and> n' = n + drop_source source"
proof -
  obtain r cell1 n1 where m: "m (cell, n) = (r, cell1, n1)" by (rule prod_cases3)
  moreover have "quiet_at (cell, n) (m (cell, n))" using assms(2) by (simp add: quiet_def)
  ultimately show ?thesis
    using assms(1,3) by (cases r) (auto simp: ffi_call_def owning_def quiet_at_def)
qed

lemma owning_message:
  assumes "ffi_call (owning source m) (cell, n) msg = (S_Ok, cells, msg')" "quiet m"
  shows "msg' = msg"
proof -
  obtain r cell1 n1 where m: "m (cell, n) = (r, cell1, n1)" by (rule prod_cases3)
  moreover have "quiet_at (cell, n) (m (cell, n))" using assms(2) by (simp add: quiet_def)
  ultimately show ?thesis using assms(1) by (cases r) (auto simp: ffi_call_def owning_def quiet_at_def)
qed

lemma open_source_message:
  "rasen_archive_open_source E c key key_len l (cell, n) msg = (S_Ok, cells, msg') \<Longrightarrow> msg' = msg"
  unfolding rasen_archive_open_source_def
  by (erule owning_message) (intro quiet_intros real_failure quiet_on_fst silent_on_fst)

lemma open_source_outcome:
  assumes "rasen_archive_open_source E c key key_len l (cell, n) msg = (st, (cell', n'), msg')"
  shows "if st = S_Ok then n' = n \<and> (\<exists>a key. cell' = Some (Some a) \<and> ffi_open E (Callback c) key (ffi_limits l) = Ok a)
    else cell' = cell \<and> n' = n + drop_source (Callback c)"
  using assms unfolding rasen_archive_open_source_def
proof (rule owning_outcome, goal_cases)
  case 1
  show ?case by (intro quiet_intros real_failure quiet_on_fst silent_on_fst)
next
  case (2 s')
  then show ?case by (auto simp: res_simps on_fst_def write_out_def required_out_def split: prod.splits)
qed

section \<open>The invariant\<close>

definition live_sources :: "rasen_archive list \<Rightarrow> nat" where
  "live_sources as = (\<Sum>a\<leftarrow>as. drop_source (ra_source a))"

definition host_ok :: "env \<Rightarrow> host \<Rightarrow> bool" where
  "host_ok E h \<longleftrightarrow> (\<forall>a \<in> set (h_archives h). handle_ok E a) \<and> 0 \<notin> set (h_message h)
     \<and> h_given h = h_destroyed h + live_sources (h_archives h)"

lemmas ffi_reads =
  rasen_archive_info_of_def rasen_archive_entry_at_def rasen_archive_entry_def rasen_archive_entry_by_id_def
  rasen_archive_verify_def rasen_archive_contains_def rasen_archive_contains_id_def rasen_archive_read_def
  rasen_archive_read_by_id_def rasen_archive_read_chunk_def rasen_archive_read_range_def rasen_archive_read_range_exact_def
  rasen_archive_read_into_def rasen_archive_read_chunk_into_def rasen_archive_read_range_into_def
  rasen_archive_read_into_with_scratch_def rasen_archive_read_chunk_into_with_scratch_def
  rasen_archive_read_range_with_scratch_def

lemma outcome_message: "0 \<notin> set msg \<Longrightarrow> 0 \<notin> set (snd (outcome (ffi_call m s msg)))"
  using ffi_call_message [of m s msg] by (cases "ffi_call m s msg") (auto simp: outcome_def)

lemma query_message: "0 \<notin> set msg \<Longrightarrow> 0 \<notin> set (snd (run_query E a q msg))"
  by (cases q; simp only: run_query_def query.case ffi_reads; erule outcome_message)

lemma open_message:
  assumes "0 \<notin> set msg"
  shows "rasen_archive_open_memory E data data_len key key_len l cell msg = (st, cell', msg') \<Longrightarrow> 0 \<notin> set msg'"
    and "rasen_archive_open_file E open_path data data_len key key_len l cell msg = (st, cell', msg') \<Longrightarrow> 0 \<notin> set msg'"
    and "rasen_archive_open_source E c key key_len l cells msg = (st, cells', msg') \<Longrightarrow> 0 \<notin> set msg'"
  unfolding rasen_archive_open_memory_def rasen_archive_open_file_def rasen_archive_open_source_def
  by (erule ffi_call_message [OF _ assms])+

lemma host_ok_opened:
  assumes "host_ok E h" "0 \<notin> set msg" "case out of None \<Rightarrow> True | Some a \<Rightarrow> handle_ok E a \<and> drop_source (ra_source a) = 0"
  shows "host_ok E (opened h out msg)"
  using assms by (cases out) (auto simp: host_ok_def opened_def live_sources_def)

lemma host_step_ok:
  assumes "host_step E h h'" "env_safe E" "host_ok E h"
  shows "host_ok E h'"
  using assms(1)
proof cases
  case (query a q st msg)
  then show ?thesis using assms(3) query_message [of "h_message h" E a q] by (simp add: host_ok_def)
next
  case (open_memory data data_len key key_len l st out msg)
  have "0 \<notin> set (h_message h)" using assms(3) by (simp add: host_ok_def)
  from open_message(1) [OF this open_memory(2)] open_memory_handle [OF assms(2) open_memory(2)]
  show ?thesis unfolding open_memory(1) by (intro host_ok_opened [OF assms(3)])
next
  case (open_file open_path path path_len key key_len l st out msg)
  have "0 \<notin> set (h_message h)" using assms(3) by (simp add: host_ok_def)
  from open_message(2) [OF this open_file(3)] open_file_handle [OF assms(2) open_file(2,3)]
  show ?thesis unfolding open_file(1) by (intro host_ok_opened [OF assms(3)])
next
  case (open_source c key key_len l st out n msg)
  have msg: "0 \<notin> set msg" using assms(3) open_message(3) [OF _ open_source(3)] by (simp add: host_ok_def)
  have safe: "source_safe (ffi_source_of E (Callback c))" using open_source(2) by (rule callback_source_safe)
  show ?thesis
    using open_source_outcome [OF open_source(3)] ffi_open_handle [OF assms(2) safe] assms(3) msg
    unfolding open_source(1) by (auto simp: host_ok_def opened_def live_sources_def drop_source_def split: if_splits)
next
  case (open_memory_null data data_len key key_len l st msg)
  then show ?thesis using assms(3) open_message(1) [OF _ open_memory_null(2)] by (simp add: host_ok_def)
next
  case (open_file_null open_path path path_len key key_len l st msg)
  then show ?thesis using assms(3) open_message(2) [OF _ open_file_null(3)] by (simp add: host_ok_def)
next
  case (open_source_null c key key_len l st n msg)
  have "0 \<notin> set msg" using assms(3) open_message(3) [OF _ open_source_null(3)] by (simp add: host_ok_def)
  moreover have "n = h_destroyed h + of_bool (cb_destroy c)"
    using open_source_outcome [OF open_source_null(3)] by (simp add: drop_source_def split: if_splits)
  ultimately show ?thesis using assms(3) unfolding open_source_null(1) by (simp add: host_ok_def)
next
  case (free as a bs)
  then show ?thesis using assms(3) by (auto simp: host_ok_def live_sources_def rasen_archive_free_def)
qed

lemma host_reachable_ok:
  assumes "host_reachable E h" "env_safe E"
  shows "host_ok E h"
  using assms(1)
proof induction
  case start
  show ?case by (simp add: host_ok_def new_host_def live_sources_def)
next
  case (step h h')
  from host_step_ok [OF step(2) assms(2) step(3)] show ?case .
qed

section \<open>No call panics\<close>

lemma calm_scratch:
  assumes "\<And>s. fst (m s) \<noteq> Panic"
  shows "calm_step (on_bytes_and_scratch n m)"
  unfolding calm_step_def
proof
  fix s :: "bytes option \<times> rasen_scratch option"
  obtain cell h where s: "s = (cell, h)" by fastforce
  have c: "calm_result (bind_res (ffi_bytes cell n ''dst'') (\<lambda>dst. bind_res (scratch_mut h) (\<lambda>h. Ok (dst, h))))"
    unfolding scratch_mut_def by (intro calm)
  then show "calm_result (fst (on_bytes_and_scratch n m s))"
    unfolding on_bytes_and_scratch_def s
    using calm_results(4) [OF assms] by (auto simp: calm_result_def case_prod_beta split: res.splits)
qed

lemma outcome_calm: "calm_step m \<Longrightarrow> fst (outcome (ffi_call m s msg)) \<noteq> S_Panic"
  using ffi_call_calm by (simp add: outcome_def)

lemma handle_reads_calm:
  assumes "env_safe E" "handle_ok E a"
  shows "fst (read_into E (ra_inner a) path dst) \<noteq> Panic" "fst (read_chunk_into E (ra_inner a) path i dst) \<noteq> Panic"
    "fst (read_range_into E (ra_inner a) path offset dst) \<noteq> Panic"
    "fst (read_into_with_scratch E (ra_inner a) path ds) \<noteq> Panic"
    "fst (read_chunk_into_with_scratch E (ra_inner a) path i ds) \<noteq> Panic"
    "fst (read_range_with_scratch E (ra_inner a) path offset ds) \<noteq> Panic"
proof -
  have ok: "source_safe (a_source (ra_inner a))" "archive_wf E (ra_inner a)" using assms(2) by (simp_all add: handle_ok_def)
  have w: "fst (read_into_with_scratch E (ra_inner a) path (dst, s)) \<noteq> Panic"
    "fst (read_chunk_into_with_scratch E (ra_inner a) path i (dst, s)) \<noteq> Panic"
    "fst (read_range_with_scratch E (ra_inner a) path offset (dst, s)) \<noteq> Panic" for dst s
    using wp_no_panic [OF wp_read_into_with_scratch [OF assms(1) ok, of path dst s]]
      wp_no_panic [OF wp_read_chunk_into_with_scratch [OF assms(1) ok, of path i dst s]]
      wp_no_panic [OF wp_read_range_with_scratch [OF assms(1) ok, of path offset dst s]] by simp_all
  show "fst (read_into_with_scratch E (ra_inner a) path ds) \<noteq> Panic"
    "fst (read_chunk_into_with_scratch E (ra_inner a) path i ds) \<noteq> Panic"
    "fst (read_range_with_scratch E (ra_inner a) path offset ds) \<noteq> Panic"
    using w by (cases ds; simp)+
  show "fst (read_into E (ra_inner a) path dst) \<noteq> Panic" "fst (read_chunk_into E (ra_inner a) path i dst) \<noteq> Panic"
    "fst (read_range_into E (ra_inner a) path offset dst) \<noteq> Panic"
    using w [of dst default_scratch] by (auto simp: read_into_def read_chunk_into_def read_range_into_def split: prod.splits)
qed

lemma query_calm:
  assumes env: "env_safe E" and ok: "\<And>a. p = Some a \<Longrightarrow> handle_ok E a"
  shows "fst (run_query E p q msg) \<noteq> S_Panic"
proof -
  have wf: "archive_wf E (ra_inner a)" "source_safe (a_source (ra_inner a))" if "p = Some a" for a
    using ok [OF that] by (simp_all add: handle_ok_def)
  note lookups = lookups_no_panic [OF wf(1)]
  note reads = reads_no_panic [OF env wf(2,1)]
  show ?thesis
    unfolding run_query_def ffi_reads
    apply (cases q; simp only: query.case)
    subgoal unfolding Let_def by (intro outcome_calm calm)
    subgoal by (intro outcome_calm calm) simp
    subgoal by (intro outcome_calm calm lookups) (simp add: res_simps)
    subgoal by (intro outcome_calm calm lookups) (simp add: res_simps)
    subgoal by (intro outcome_calm calm verify_no_panic env wf) (simp add: res_simps)
    subgoal by (intro outcome_calm calm lookups) (simp add: res_simps)
    subgoal by (intro outcome_calm calm)
    subgoal by (intro outcome_calm calm reads)
    subgoal by (intro outcome_calm calm reads)
    subgoal by (intro outcome_calm calm reads)
    subgoal unfolding read_range_def by (intro outcome_calm calm reads)
    subgoal unfolding read_range_exact_def by (intro outcome_calm calm reads)
    subgoal by (intro outcome_calm calm handle_reads_calm env ok) (simp add: res_simps)
    subgoal by (intro outcome_calm calm handle_reads_calm env ok) (simp add: res_simps)
    subgoal by (intro outcome_calm calm calm_bind handle_reads_calm env ok) (simp add: res_simps)
    subgoal by (intro outcome_calm calm calm_scratch handle_reads_calm env ok) (simp add: res_simps)
    subgoal by (intro outcome_calm calm calm_scratch handle_reads_calm env ok) (simp add: res_simps)
    subgoal by (intro outcome_calm calm calm_bind calm_scratch handle_reads_calm env ok) (simp add: res_simps)
    done
qed

end
