(* ===== verification/Pack_Frame.thy ===== *)
theory Pack_Frame
  imports Packer
begin

text \<open>
  The packer reaches its destination only through the writer's operations: whatever these
  keep of the writer's state, a whole packing run keeps, on success and on failure.
\<close>

section \<open>Steps that keep an invariant of the writer\<close>

named_theorems keeps_intros "steps of the packer that keep an invariant of the writer"

definition writer_keeps :: "('w \<Rightarrow> bool) \<Rightarrow> 'w writer \<Rightarrow> bool" where
  "writer_keeps I W \<longleftrightarrow> (\<forall>w. I w \<longrightarrow> (\<forall>data. I (snd (w_write_all W data w)))
     \<and> (\<forall>offset. I (snd (w_seek_start W offset w))) \<and> I (snd (w_seek_end W w)))"

definition keeps :: "('w \<Rightarrow> bool) \<Rightarrow> ('w \<times> packer, 'a, error) stm \<Rightarrow> bool" where
  "keeps I m \<longleftrightarrow> (\<forall>w p. I w \<longrightarrow> I (fst (snd (m (w, p)))))"

lemma keeps_bind [keeps_intros]:
  assumes "keeps I m" "\<And>x. keeps I (k x)"
  shows "keeps I (bind_st m k)"
  unfolding keeps_def
proof (intro allI impI)
  fix w p
  assume I: "I w"
  obtain r w1 p1 where m: "m (w, p) = (r, w1, p1)" by (rule prod_cases3)
  then have "I w1" using assms(1) I by (metis keeps_def fst_conv snd_conv)
  then show "I (fst (snd (bind_st m k (w, p))))"
    using m assms(2) by (cases r) (simp_all add: bind_st_def keeps_def)
qed

lemma keeps_simple [keeps_intros]:
  "keeps I (lift_st r)" "keeps I get_packer" "keeps I (set_packer f)"
  "keeps I (encrypt_next E plain key aad)"
  by (simp_all add: keeps_def lift_st_def get_packer_def set_packer_def encrypt_next_def)

lemma keeps_on_writer [keeps_intros]:
  "writer_keeps I W \<Longrightarrow> keeps I (on_writer (w_write_all W data))"
  "writer_keeps I W \<Longrightarrow> keeps I (on_writer (w_seek_start W offset))"
  by (simp_all add: keeps_def writer_keeps_def on_writer_def case_prod_beta)

lemma keeps_if [keeps_intros]: "keeps I m \<Longrightarrow> keeps I m' \<Longrightarrow> keeps I (if c then m else m')"
  by simp

lemma keeps_Let [keeps_intros]: "(\<And>y. keeps I (f y)) \<Longrightarrow> keeps I (Let x f)"
  by (simp add: Let_def)

lemma keeps_option [keeps_intros]:
  "keeps I m \<Longrightarrow> (\<And>v. keeps I (f v)) \<Longrightarrow> keeps I (case x of None \<Rightarrow> m | Some v \<Rightarrow> f v)"
  by (cases x) simp_all

lemma keepsD: "keeps I m \<Longrightarrow> I w \<Longrightarrow> m (w, p) = (r, w', p') \<Longrightarrow> I w'"
  by (metis keeps_def fst_conv snd_conv)

section \<open>The operations of the packer\<close>

lemma keeps_lift_bind: "(\<And>x. r = Ok x \<Longrightarrow> keeps I (k x)) \<Longrightarrow> keeps I (bind_st (lift_st r) k)"
  by (cases r) (simp_all add: keeps_def bind_st_def lift_st_def)

lemma keeps_write_zeros [keeps_intros]:
  assumes "writer_keeps I W"
  shows "keeps I (write_zeros E W remaining)"
proof (induction "unat remaining" arbitrary: remaining rule: less_induct)
  case less
  show ?case
  proof (cases "remaining = 0")
    case True
    then show ?thesis by (simp add: keeps_def write_zeros.simps)
  next
    case False
    have "keeps I (bind_st (lift_st (u64_to_usize E (min remaining 4096) ''padding'')) (\<lambda>amount.
        bind_st (on_writer (w_write_all W (replicate amount 0))) (\<lambda>_.
        bind_st (lift_st (usize_to_u64 amount ''padding'')) (\<lambda>amount64.
        bind_st (lift_st (ok_or (checked_sub remaining amount64) (TooLarge ''padding''))) (\<lambda>rest.
          write_zeros E W rest)))))"
    proof (intro keeps_lift_bind keeps_bind keeps_on_writer assms less)
      fix amount amount64 rest
      assume "u64_to_usize E (min remaining 4096) ''padding'' = Ok amount" "usize_to_u64 amount ''padding'' = Ok amount64"
        "ok_or (checked_sub remaining amount64) (TooLarge ''padding'') = Ok rest"
      then have "unat rest = unat remaining - unat (min remaining 4096)" by (auto simp: res_simps arith_simps)
      moreover have "0 < unat (min remaining 4096)" "0 < unat remaining"
        using False by (auto simp: min_def word_unat_eq_iff)
      ultimately show "unat rest < unat remaining" by linarith
    qed
    then show ?thesis using False by (simp add: keeps_def write_zeros.simps [of E W remaining])
  qed
qed

lemma keeps_align [keeps_intros]: "writer_keeps I W \<Longrightarrow> keeps I (align E W)"
  unfolding align_def by (intro keeps_intros)

lemma keeps_compress [keeps_intros]: "keeps I (compress_raw E n)"
  by (simp add: keeps_def compress_raw_def split: res.splits prod.splits sum.splits)

lemma keeps_pack_chunk [keeps_intros]: "writer_keeps I W \<Longrightarrow> keeps I (pack_chunk E W n totals)"
  unfolding pack_chunk_def append_chunk_def by (intro keeps_intros)

lemma pack_chunks_keeps:
  assumes "writer_keeps I W" "pack_chunks E W rd totals r s = Some out" "I (fst s)"
  shows "I (fst (snd (snd out)))"
proof -
  have "writer_keeps I W \<longrightarrow> I (fst s) \<longrightarrow> I (fst (snd (snd out)))"
  proof (rule pack_chunks.raw_induct
      [of "\<lambda>E W rd totals r s out. writer_keeps I W \<longrightarrow> I (fst s) \<longrightarrow> I (fst (snd (snd out)))", OF _ assms(2)], goal_cases)
    case (1 rec E W rd totals r s out)
    show ?case
    proof (intro impI)
      assume W: "writer_keeps I W" and I: "I (fst s)"
      obtain w p where s: "s = (w, p)" by fastforce
      from 1(2) obtain res raw r' where fill: "fill_chunk E rd (p_raw (snd s)) r = Some (res, raw, r')"
        by (auto split: option.splits)
      show "I (fst (snd (snd out)))"
      proof (cases "\<exists>n. res = Ok n \<and> n \<noteq> 0")
        case False
        then show ?thesis using 1(2) fill I by (cases res) (auto simp: Let_def)
      next
        case True
        then obtain n where n: "res = Ok n" "n \<noteq> 0" by blast
        obtain step w1 p1 where st: "pack_chunk E W n totals (w, p\<lparr> p_raw := raw \<rparr>) = (step, w1, p1)" by (rule prod_cases3)
        have "I w1" using keepsD [OF keeps_pack_chunk [OF W] _ st] I s by simp
        then show ?thesis
          using 1(2) 1(1) [of E W rd _ r' "(w1, p1)" out] fill n st s W by (cases step) (auto simp: Let_def)
      qed
    qed
  qed
  then show ?thesis using assms by blast
qed

lemma add_reader_keeps:
  assumes W: "writer_keeps I W" and run: "add_reader E W rd path r s = Some out" and I: "I (fst s)"
  shows "I (fst (snd (snd out)))"
proof (cases "p_failed (snd s)")
  case True
  then show ?thesis using run I by (auto simp: add_reader_def)
next
  case False
  let ?start = "bind_st (register_path E path) (\<lambda>names. bind_st get_packer (\<lambda>p.
       bind_st (lift_st (usize_to_u32 (length (p_chunks p)) ''chunk index'')) (\<lambda>first_chunk.
         lift_st (Ok (names, length (p_chunks p), first_chunk)))))"
  have k: "keeps I ?start" unfolding register_path_def by (intro keeps_intros)
  have rec: "keeps I (record_entry E np ph fi fc totals)" for np ph fi fc totals
    unfolding record_entry_def by (intro keeps_intros)
  obtain w p where s: "s = (w, p)" by fastforce
  obtain res w1 p1 where st: "?start (w, p) = (res, w1, p1)" by (rule prod_cases3)
  have I1: "I w1" using keepsD [OF k _ st] I s by simp
  from run False obtain inner where inner: "add_reader_inner E W rd path r s = Some inner"
    and out: "fst (snd (snd out)) = fst (snd (snd inner))" by (auto simp: add_reader_def split: option.splits)
  have "I (fst (snd (snd inner)))"
  proof (cases res)
    case (Ok x)
    obtain np ph fi fc where x: "x = ((np, ph), fi, fc)" by (metis prod.collapse)
    from inner Ok st s x obtain c where c: "pack_chunks E W rd (0, 0) r (w1, p1) = Some c"
      by (auto simp: add_reader_inner_def split: option.splits)
    obtain res2 r2 w2 p2 where c2: "c = (res2, r2, w2, p2)" by (metis prod.collapse)
    have I2: "I w2" using pack_chunks_keeps [OF W c] I1 c2 by simp
    obtain res3 w3 p3 where st3: "record_entry E np ph fi fc (case res2 of Ok t \<Rightarrow> t | _ \<Rightarrow> (0, 0)) (w2, p2) = (res3, w3, p3)"
      by (rule prod_cases3)
    have "I w3" using keepsD [OF rec I2 st3] .
    then show ?thesis using inner Ok st s x c c2 I2 st3 by (cases res2) (auto simp: add_reader_inner_def)
  qed (use inner st s I1 in \<open>auto simp: add_reader_inner_def\<close>)
  then show ?thesis using out by simp
qed

lemma keeps_pieces: "writer_keeps I W \<Longrightarrow> I w \<Longrightarrow> I (snd (write_pieces (w_write_all W) ps w))"
proof (induction ps arbitrary: w)
  case (Cons d ps)
  obtain r w1 where w1: "w_write_all W d w = (r, w1)" by fastforce
  then have "I w1" using Cons.prems by (metis writer_keeps_def snd_conv)
  then show ?case using Cons w1 by (cases r) (simp_all add: bind_st_def)
qed simp

lemma keeps_finish [keeps_intros]:
  assumes "writer_keeps I W"
  shows "keeps I (finish E W)"
proof -
  have "keeps I (\<lambda>(w, p). case write_header (w_write_all W) h w of (r, w') \<Rightarrow> (r, w', p))" for h
    using keeps_pieces [OF assms] by (simp add: keeps_def write_header_def case_prod_beta)
  moreover have "keeps I (store_toc E toc)" for toc
    unfolding store_toc_def by (intro keeps_intros)
  ultimately show ?thesis
    using assms unfolding finish_def finish_toc_def by (intro keeps_intros)
qed

text \<open>Before there is a packer, the state is the writer's alone.\<close>

definition keeps_w :: "('w \<Rightarrow> bool) \<Rightarrow> ('w, 'a, error) stm \<Rightarrow> bool" where
  "keeps_w I m \<longleftrightarrow> (\<forall>w. I w \<longrightarrow> I (snd (m w)))"

lemma keeps_w_bind:
  assumes "keeps_w I m" "\<And>x. keeps_w I (k x)"
  shows "keeps_w I (bind_st m k)"
  unfolding keeps_w_def
proof (intro allI impI)
  fix w
  assume I: "I w"
  obtain r w1 where m: "m w = (r, w1)" by fastforce
  then have "I w1" using assms(1) I by (metis keeps_w_def snd_conv)
  then show "I (snd (bind_st m k w))" using m assms(2) by (cases r) (simp_all add: bind_st_def keeps_w_def)
qed

lemma keeps_w_steps:
  "keeps_w I (lift_st r)"
  "writer_keeps I W \<Longrightarrow> keeps_w I (\<lambda>w. map_prod from_io id (w_write_all W data w))"
  "writer_keeps I W \<Longrightarrow> keeps_w I (\<lambda>w. map_prod from_io id (w_seek_start W offset w))"
  "writer_keeps I W \<Longrightarrow> keeps_w I (\<lambda>w. map_prod from_io id (w_seek_end W w))"
  by (simp_all add: keeps_w_def lift_st_def writer_keeps_def)

lemma packer_new_keeps:
  assumes "writer_keeps I W" "I w" "packer_new E W key options w = (r, w')"
  shows "I w'"
proof -
  have "keeps_w I (packer_new E W key options)"
    unfolding packer_new_def Let_def by (intro keeps_w_bind keeps_w_steps assms(1))
  then show ?thesis using assms(2,3) by (metis keeps_w_def snd_conv)
qed

lemma add_files_keeps:
  assumes "writer_keeps I W"
  shows "add_files E W files s = Some (r, s') \<Longrightarrow> I (fst s) \<Longrightarrow> I (fst s')"
proof (induction files arbitrary: s)
  case (Cons f files)
  then obtain res r1 s1 where a: "add_reader E W slice_reader (f_path f) (f_data f) s = Some (res, r1, s1)"
    by (cases "add_reader E W slice_reader (f_path f) (f_data f) s") auto
  have "I (fst s1)" using add_reader_keeps [OF assms a Cons.prems(2)] by simp
  then show ?case using Cons a by (cases res) auto
qed simp

end
