(* ===== verification/File_Store.thy ===== *)
theory File_Store
  imports Packer_Correct Pack_Frame
begin

text \<open>
  The operating system's files, as far as the sources create, fill and remove them: a
  parameter of the functions that pack into files, with the laws they rely on as a locale.
\<close>

section \<open>Operations\<close>

text \<open>Creating a new file gives a writer on the state of the file system.\<close>

record ('p, 'fs) file_system =
  fs_create_new :: "'p \<Rightarrow> ('fs, 'fs writer, io_error) stm"
  fs_remove_file :: "'p \<Rightarrow> ('fs, unit, io_error) stm"

section \<open>Laws\<close>

text \<open>
  An open file: its writer is a seekable writer of the file's contents, and as long as
  the path names this file, what is written shows there and no other path changes.
\<close>

definition open_file :: "('fs \<Rightarrow> 'p \<Rightarrow> bytes option) \<Rightarrow> 'p \<Rightarrow> 'fs writer \<Rightarrow> ('fs \<Rightarrow> bytes) \<Rightarrow> ('fs \<Rightarrow> nat) \<Rightarrow> bool" where
  "open_file files p W content pos \<longleftrightarrow> seek_writer W content pos
     \<and> (\<forall>base. writer_keeps (\<lambda>fs. files fs = base(p \<mapsto> content fs)) W)"

text \<open>Removing a file that exists works; not assumed by the locale.\<close>

definition removal_works :: "('fs \<Rightarrow> 'p \<Rightarrow> bytes option) \<Rightarrow> ('p, 'fs, 'more) file_system_scheme \<Rightarrow> bool" where
  "removal_works files FS \<longleftrightarrow> (\<forall>p fs. files fs p \<noteq> None \<longrightarrow> fst (fs_remove_file FS p fs) = Ok ())"

locale file_names =
  fixes files :: "'fs \<Rightarrow> 'p \<Rightarrow> bytes option" and FS :: "('p, 'fs, 'more) file_system_scheme"
  assumes created: "fs_create_new FS p fs = (Ok W, fs') \<Longrightarrow> files fs p = None \<and> files fs' = (files fs)(p \<mapsto> [])"
    and not_created: "fs_create_new FS p fs = (Err e, fs') \<Longrightarrow> files fs' = files fs"
    and removed: "fs_remove_file FS p fs = (Ok (), fs') \<Longrightarrow> files fs' = (files fs)(p := None)"
    and not_removed: "fs_remove_file FS p fs = (Err e, fs') \<Longrightarrow> files fs' = files fs"
    and returns: "fst (fs_create_new FS p fs) \<noteq> Panic" "fst (fs_remove_file FS p fs) \<noteq> Panic"
begin

text \<open>A file that was created and is removed again leaves no trace.\<close>

lemma create_remove:
  assumes "files fs p = None" "files fs2 = (files fs)(p \<mapsto> c)"
  shows "files (snd (fs_remove_file FS p fs2)) = files fs
    \<or> \<not> removal_works files FS \<and> files (snd (fs_remove_file FS p fs2)) = (files fs)(p \<mapsto> c)"
proof (cases "fs_remove_file FS p fs2")
  case (Pair r fs3)
  show ?thesis
  proof (cases r)
    case (Ok u)
    then show ?thesis using removed [of p fs2 fs3] Pair assms by (auto simp: fun_eq_iff)
  next
    case (Err e)
    then have "\<not> removal_works files FS"
      using Pair assms(2) unfolding removal_works_def by (metis fst_conv fun_upd_same option.distinct(1) res.distinct(1))
    then show ?thesis using not_removed [of p fs2 e fs3] Pair Err assms by simp
  qed (use Pair returns(2) [of p fs2] in simp)
qed

end

text \<open>A file system whose new files are not buffered.\<close>

locale file_store = file_names files FS for files :: "'fs \<Rightarrow> 'p \<Rightarrow> bytes option" and FS :: "('p, 'fs, 'more) file_system_scheme" +
  assumes unbuffered: "fs_create_new FS p fs = (Ok W, fs') \<Longrightarrow> \<exists>content pos. open_file files p W content pos \<and> content fs' = []"

section \<open>Files in memory\<close>

text \<open>
  A file system held in memory, with one file open for writing at a time and what was shown
  on the standard output; creating a file
  fails if it exists, removing it if it does not.
\<close>

record 'p memory_files =
  mf_files :: "'p \<Rightarrow> bytes option"
  mf_pos :: nat
  mf_shown :: bytes

definition memory_content :: "'p \<Rightarrow> 'p memory_files \<Rightarrow> bytes" where
  "memory_content p fs = (case mf_files fs p of None \<Rightarrow> [] | Some c \<Rightarrow> c)"

definition memory_writer :: "'p \<Rightarrow> 'p memory_files writer" where
  "memory_writer p = \<lparr>
     w_write_all = (\<lambda>data fs. (Ok (), fs\<lparr> mf_files := (mf_files fs)(p \<mapsto> overwrite (memory_content p fs) (mf_pos fs) data),
                                         mf_pos := mf_pos fs + length data \<rparr>)),
     w_seek_start = (\<lambda>offset fs. (Ok offset, fs\<lparr> mf_pos := unat offset \<rparr>)),
     w_seek_end = (\<lambda>fs. (if length (memory_content p fs) < 2 ^ 64 then Ok (of_nat (length (memory_content p fs)))
                          else Err (IoError KOther ''capacity overflow''),
                         fs\<lparr> mf_pos := length (memory_content p fs) \<rparr>)) \<rparr>"

definition memory_file_system :: "('p, 'p memory_files) file_system" where
  "memory_file_system = \<lparr>
     fs_create_new = (\<lambda>p fs. if mf_files fs p = None
        then (Ok (memory_writer p), fs\<lparr> mf_files := (mf_files fs)(p \<mapsto> []), mf_pos := 0 \<rparr>)
        else (Err (IoError KAlreadyExists ''file exists''), fs)),
     fs_remove_file = (\<lambda>p fs. if mf_files fs p = None then (Err (IoError KNotFound ''no such file''), fs)
        else (Ok (), fs\<lparr> mf_files := (mf_files fs)(p := None) \<rparr>)) \<rparr>"

interpretation memory_file: seek_writer "memory_writer p" "memory_content p" mf_pos for p
  by unfold_locales (auto simp: memory_writer_def memory_content_def unat_of_nat_u64 split: if_splits)

lemma memory_open_file: "open_file mf_files p (memory_writer p) (memory_content p) mf_pos"
  unfolding open_file_def
proof (intro conjI allI memory_file.seek_writer_axioms)
  show "writer_keeps (\<lambda>fs. mf_files fs = base(p \<mapsto> memory_content p fs)) (memory_writer p)" for base
    by (simp add: writer_keeps_def memory_writer_def memory_content_def) (metis fun_upd_upd)
qed

lemma memory_created:
  assumes "fs_create_new memory_file_system p fs = (Ok W, fs')"
  shows "mf_files fs p = None \<and> W = memory_writer p \<and> mf_files fs' = (mf_files fs)(p \<mapsto> [])"
  using assms by (auto simp: memory_file_system_def split: if_splits)

interpretation memory_store: file_store mf_files memory_file_system
proof (unfold_locales, goal_cases)
  case (1 p fs W fs')
  from memory_created [OF this] show ?case by simp
next
  case (7 p fs W fs')
  from memory_created [OF this] show ?case using memory_open_file [of p] by (fastforce simp: memory_content_def)
qed (auto simp: memory_file_system_def split: if_splits)

end
