(* ===== verification/Ffi_Pack.thy ===== *)
theory Ffi_Pack
  imports Ffi_Archive File_Store
begin

text \<open>
  The packing functions of the C interface (\<open>rasen-archive-ffi/src/pack.rs\<close>) and the readers
  and writers made of callbacks (\<open>io.rs\<close>).  The host's state behind the callbacks is a type
  variable: one for the readers, threaded through all inputs, and one for the writer; a
  callback that is null is \<open>None\<close>.
\<close>

section \<open>Structures\<close>

record rasen_pack_summary =
  rps_archive_len :: u64
  rps_entry_count :: u32
  rps_chunk_count :: u32

definition summary_to_ffi :: "pack_summary \<Rightarrow> rasen_pack_summary" where
  "summary_to_ffi value = \<lparr> rps_archive_len = ps_archive_len value, rps_entry_count = ps_entry_count value,
     rps_chunk_count = ps_chunk_count value \<rparr>"

record rasen_input_file =
  rf_path :: "bytes option"
  rf_path_len :: usize
  rf_data :: "bytes option"
  rf_data_len :: usize

text \<open>
  A read callback gets the destination and gives a status, the destination's contents and
  the count, which the library initialises to zero.
\<close>

type_synonym 'r read_fn = "bytes \<Rightarrow> nat \<Rightarrow> 'r \<Rightarrow> int \<times> bytes \<times> nat \<times> 'r"

record 'r rasen_stream_input =
  si_path :: "bytes option"
  si_path_len :: usize
  si_read :: "'r read_fn option"

record 'w rasen_writer =
  rw_write :: "(bytes \<Rightarrow> 'w \<Rightarrow> int \<times> 'w) option"
  rw_seek :: "(u64 \<Rightarrow> 'w \<Rightarrow> int \<times> 'w) option"
  rw_len :: "(u64 \<Rightarrow> 'w \<Rightarrow> int \<times> u64 \<times> 'w) option"

section \<open>Callback readers and writers\<close>

definition callback_error :: "string \<Rightarrow> io_error" where
  "callback_error message = IoError KOther message"

definition callback_reader :: "'r read_fn option \<Rightarrow> 'r reader" where
  "callback_reader callback = (\<lambda>dst r.
     case callback of
       None \<Rightarrow> (Err (callback_error ''read callback is null''), dst, r)
     | Some f \<Rightarrow>
         (case f dst 0 r of (status, dst', amount, r') \<Rightarrow>
            (if status \<noteq> 0 then Err (callback_error (''read callback failed: '' @ signed_decimal status))
             else ok_or (if amount \<le> length dst then Some amount else None)
                    (callback_error ''read callback returned an oversized count''),
             dst', r')))"

text \<open>The writer's state: the host's, and the position that the library keeps.\<close>

definition call_status :: "string \<Rightarrow> int \<Rightarrow> (unit, io_error) res" where
  "call_status name status =
     (if status \<noteq> 0 then Err (callback_error (name @ '' callback failed: '' @ signed_decimal status)) else Ok ())"

definition callback_write :: "'w rasen_writer \<Rightarrow> bytes \<Rightarrow> ('w \<times> u64, nat, io_error) stm" where
  "callback_write callbacks src =
     bind_st (lift_st (ok_or (rw_write callbacks) (callback_error ''write callback is null''))) (\<lambda>write_fn.
     bind_st (\<lambda>(w, position). case write_fn src w of (status, w') \<Rightarrow> (call_status ''write'' status, w', position)) (\<lambda>_.
     bind_st (lift_st (if length src < 2 ^ 64 then Ok (of_nat (length src)) else Err (callback_error ''write size overflow''))) (\<lambda>len.
     bind_st (\<lambda>(w, position).
       case checked_add position len of
         None \<Rightarrow> (Err (callback_error ''writer position overflow''), w, position)
       | Some position' \<Rightarrow> (Ok (), w, position')) (\<lambda>_.
       lift_st (Ok (length src))))))"

text \<open>
  \<open>write_all\<close> is the default of the trait: it writes until nothing is left.  One call is
  enough, since \<open>write\<close> takes everything and never reports an interruption; nothing is
  called for empty data.
\<close>

definition callback_write_all :: "'w rasen_writer \<Rightarrow> bytes \<Rightarrow> ('w \<times> u64, unit, io_error) stm" where
  "callback_write_all callbacks src =
     (if src = [] then lift_st (Ok ()) else bind_st (callback_write callbacks src) (\<lambda>_. lift_st (Ok ())))"

datatype seek_from = Seek_Start u64 | Seek_Current int | Seek_End int

definition callback_seek_target :: "'w rasen_writer \<Rightarrow> seek_from \<Rightarrow> ('w \<times> u64, u64, io_error) stm" where
  "callback_seek_target callbacks position =
     (case position of
        Seek_Start position \<Rightarrow> lift_st (Ok position)
      | Seek_Current d \<Rightarrow>
          if d = 0 then (\<lambda>(w, position). (Ok position, w, position))
          else lift_st (Err (callback_error ''unsupported callback seek''))
      | Seek_End d \<Rightarrow>
          if d = 0 then
            bind_st (lift_st (ok_or (rw_len callbacks) (callback_error ''len callback is null''))) (\<lambda>len_fn (w, position).
              case len_fn 0 w of (status, value, w') \<Rightarrow>
                (bind_res (call_status ''len'' status) (\<lambda>_. Ok value), w', position))
          else lift_st (Err (callback_error ''unsupported callback seek'')))"

definition callback_seek :: "'w rasen_writer \<Rightarrow> seek_from \<Rightarrow> ('w \<times> u64, u64, io_error) stm" where
  "callback_seek callbacks position =
     bind_st (callback_seek_target callbacks position) (\<lambda>absolute.
     bind_st (lift_st (ok_or (rw_seek callbacks) (callback_error ''seek callback is null''))) (\<lambda>seek_fn (w, position).
       case seek_fn absolute w of (status, w') \<Rightarrow>
         (case call_status ''seek'' status of
            Ok _ \<Rightarrow> (Ok absolute, w', absolute)
          | Err e \<Rightarrow> (Err e, w', position)
          | Panic \<Rightarrow> (Panic, w', position))))"

definition callback_writer :: "'w rasen_writer \<Rightarrow> ('w \<times> u64) writer" where
  "callback_writer callbacks = \<lparr>
     w_write_all = callback_write_all callbacks,
     w_seek_start = (\<lambda>offset. callback_seek callbacks (Seek_Start offset)),
     w_seek_end = callback_seek callbacks (Seek_End 0) \<rparr>"

section \<open>Buffered inputs\<close>

fun collect_res :: "('a \<Rightarrow> ('b, 'e) res) \<Rightarrow> 'a list \<Rightarrow> ('b list, 'e) res" where
  "collect_res f [] = Ok []"
| "collect_res f (x # xs) = bind_res (f x) (\<lambda>y. bind_res (collect_res f xs) (\<lambda>ys. Ok (y # ys)))"

definition buffered_input :: "rasen_input_file \<Rightarrow> (input_file, ffi_failure) res" where
  "buffered_input file =
     bind_res (utf8 (rf_path file) (rf_path_len file) ''file.path'') (\<lambda>path.
     bind_res (ffi_bytes (rf_data file) (rf_data_len file) ''file.data'') (\<lambda>data.
       Ok \<lparr> f_path = path, f_data = data \<rparr>))"

definition buffered_inputs :: "rasen_input_file list option \<Rightarrow> usize \<Rightarrow> (input_file list, ffi_failure) res" where
  "buffered_inputs files file_count =
     bind_res (raw_slice files file_count ''files'') (\<lambda>files. collect_res buffered_input files)"

definition pack_buffered ::
  "env \<Rightarrow> 'w writer \<Rightarrow> input_file list \<Rightarrow> bytes \<Rightarrow> pack_options \<Rightarrow> 'w \<Rightarrow> ((pack_summary, error) res \<times> 'w) option" where
  "pack_buffered E W files key options w =
     (case packer_new E W key options w of
        (Err e, w) \<Rightarrow> Some (Err e, w)
      | (Panic, w) \<Rightarrow> Some (Panic, w)
      | (Ok p, w) \<Rightarrow>
          (case add_files E W files (w, p) of
             None \<Rightarrow> None
           | Some (Err e, w, p) \<Rightarrow> Some (Err e, w)
           | Some (Panic, w, p) \<Rightarrow> Some (Panic, w)
           | Some (Ok u, w, p) \<Rightarrow> (case finish E W (w, p) of (r, w, p) \<Rightarrow> Some (r, w))))"

text \<open>\<open>if let Some(out) = out.as_mut() { *out = ... }\<close>.\<close>

definition write_optional :: "'a \<Rightarrow> 'a option \<Rightarrow> 'a option" where
  "write_optional v cell = map_option (\<lambda>_. v) cell"

section \<open>Packing\<close>

text \<open>
  The bodies below may not return, when a callback interrupts its reads for ever: a step
  gives an option of what the steps of the other functions give.
\<close>

type_synonym ('s, 'a, 'e) ostm = "'s \<Rightarrow> (('a, 'e) res \<times> 's) option"

definition bind_os :: "('s, 'a, 'e) ostm \<Rightarrow> ('a \<Rightarrow> ('s, 'b, 'e) ostm) \<Rightarrow> ('s, 'b, 'e) ostm" where
  "bind_os m k s = (case m s of
      None \<Rightarrow> None
    | Some (Ok x, s') \<Rightarrow> k x s'
    | Some (Err e, s') \<Rightarrow> Some (Err e, s')
    | Some (Panic, s') \<Rightarrow> Some (Panic, s'))"

definition run_os :: "('s, 'a, 'e) stm \<Rightarrow> ('s, 'a, 'e) ostm" where
  "run_os m s = Some (m s)"

definition ffi_call_opt ::
  "('s, unit, ffi_failure) ostm \<Rightarrow> 's \<Rightarrow> bytes \<Rightarrow> (rasen_status \<times> 's \<times> bytes) option" where
  "ffi_call_opt body s msg = map_option (\<lambda>result. ffi_call (\<lambda>_. result) s msg) (body s)"

text \<open>Packing into a vector that is local to the call.\<close>

definition pack_local ::
  "env \<Rightarrow> input_file list \<Rightarrow> bytes \<Rightarrow> pack_options \<Rightarrow> ('s, pack_summary \<times> bytes, ffi_failure) ostm" where
  "pack_local E files key options s =
     map_option (\<lambda>(res, content, pos). (bind_res (from_core res) (\<lambda>summary. Ok (summary, content)), s))
       (pack_buffered E vec_writer files key options ([], 0))"

definition on_fst_os :: "('s, 'a, 'e) ostm \<Rightarrow> ('s \<times> 'b, 'a, 'e) ostm" where
  "on_fst_os m = (\<lambda>(s, b). map_option (\<lambda>(r, s'). (r, s', b)) (m s))"

definition write_summary :: "pack_summary \<Rightarrow> ('s \<times> rasen_pack_summary option, unit, ffi_failure) stm" where
  "write_summary summary = (\<lambda>(s, out_summary). (Ok (), s, write_optional (summary_to_ffi summary) out_summary))"

definition rasen_pack_memory ::
  "env \<Rightarrow> rasen_input_file list option \<Rightarrow> usize \<Rightarrow> bytes option \<Rightarrow> usize \<Rightarrow> rasen_pack_options option \<Rightarrow>
     rasen_buffer option \<times> rasen_pack_summary option \<Rightarrow> bytes \<Rightarrow>
     (rasen_status \<times> (rasen_buffer option \<times> rasen_pack_summary option) \<times> bytes) option" where
  "rasen_pack_memory E files file_count key key_len options_ptr = ffi_call_opt (
     bind_os (run_os (on_fst (required_out ''out_archive''))) (\<lambda>_.
     bind_os (run_os (lift_st (buffered_inputs files file_count))) (\<lambda>files.
     bind_os (run_os (lift_st (ffi_bytes key key_len ''key''))) (\<lambda>key.
     bind_os (run_os (lift_st (ffi_pack_options options_ptr))) (\<lambda>options.
     bind_os (pack_local E files key options) (\<lambda>(summary, content).
     bind_os (run_os (on_fst (write_out (into_buffer content)))) (\<lambda>_.
       run_os (write_summary summary))))))))"

text \<open>
  Packing into a new file of the operating system.  A failed pack removes the file and ignores
  the outcome.
\<close>

definition pack_new_file ::
  "env \<Rightarrow> (bytes, 'fs) file_system \<Rightarrow> bytes \<Rightarrow> 'fs writer \<Rightarrow> input_file list \<Rightarrow> bytes \<Rightarrow> pack_options \<Rightarrow>
     ('fs, pack_summary, ffi_failure) ostm" where
  "pack_new_file E FS output_path W files key options fs =
     map_option (\<lambda>(res, fs'). case res of
         Ok summary \<Rightarrow> (Ok summary, fs')
       | Err e \<Rightarrow> (Err (failure_from e), snd (fs_remove_file FS output_path fs'))
       | Panic \<Rightarrow> (Panic, fs'))
       (pack_buffered E W files key options fs)"

definition rasen_pack_file ::
  "env \<Rightarrow> (bytes, 'fs) file_system \<Rightarrow> bytes option \<Rightarrow> usize \<Rightarrow> rasen_input_file list option \<Rightarrow> usize \<Rightarrow> bytes option \<Rightarrow> usize \<Rightarrow>
     rasen_pack_options option \<Rightarrow> 'fs \<times> rasen_pack_summary option \<Rightarrow> bytes \<Rightarrow>
     (rasen_status \<times> ('fs \<times> rasen_pack_summary option) \<times> bytes) option" where
  "rasen_pack_file E FS output_path output_path_len files file_count key key_len options_ptr = ffi_call_opt (
     bind_os (run_os (lift_st (utf8 output_path output_path_len ''output_path''))) (\<lambda>output_path.
     bind_os (run_os (lift_st (buffered_inputs files file_count))) (\<lambda>files.
     bind_os (run_os (lift_st (ffi_bytes key key_len ''key''))) (\<lambda>key.
     bind_os (run_os (lift_st (ffi_pack_options options_ptr))) (\<lambda>options.
     bind_os (run_os (on_fst (\<lambda>fs. map_prod (map_err failure_from_io) id (fs_create_new FS output_path fs)))) (\<lambda>W.
     bind_os (on_fst_os (pack_new_file E FS output_path W files key options)) (\<lambda>summary.
       run_os (write_summary summary))))))))"

text \<open>Streams: the state is the readers' host state, the writer's, and the summary.\<close>

fun add_streams ::
  "env \<Rightarrow> 'w writer \<Rightarrow> 'r rasen_stream_input list \<Rightarrow> ('r \<times> 'w \<times> packer, unit, ffi_failure) ostm" where
  "add_streams E W [] = run_os (lift_st (Ok ()))"
| "add_streams E W (input # inputs) =
     bind_os (run_os (lift_st (utf8 (si_path input) (si_path_len input) ''input.path''))) (\<lambda>path.
     bind_os (\<lambda>(r, s). map_option (map_prod from_core id) (add_reader E W (callback_reader (si_read input)) path r s)) (\<lambda>_.
       add_streams E W inputs))"

text \<open>The packer and the writer's position live from \<open>Packer::new\<close> to the end of the call.\<close>

definition pack_inputs ::
  "env \<Rightarrow> 'w rasen_writer \<Rightarrow> 'r rasen_stream_input list \<Rightarrow> bytes \<Rightarrow> pack_options \<Rightarrow>
     ('r \<times> 'w, pack_summary, ffi_failure) ostm" where
  "pack_inputs E callbacks inputs key options = (\<lambda>(r, w).
     let W = callback_writer callbacks in
     case packer_new E W key options (w, 0) of
       (Err e, w, _) \<Rightarrow> Some (Err (failure_from e), r, w)
     | (Panic, w, _) \<Rightarrow> Some (Panic, r, w)
     | (Ok p, w) \<Rightarrow>
         map_option (\<lambda>(res, r, (w, _), _). (res, r, w))
           (bind_os (add_streams E W inputs) (\<lambda>_.
              run_os (\<lambda>(r, s). case finish E W s of (res, s') \<Rightarrow> (from_core res, r, s'))) (r, w, p)))"

definition rasen_pack_streams ::
  "env \<Rightarrow> 'r rasen_stream_input list option \<Rightarrow> usize \<Rightarrow> bytes option \<Rightarrow> usize \<Rightarrow> rasen_pack_options option \<Rightarrow>
     'w rasen_writer option \<Rightarrow> ('r \<times> 'w) \<times> rasen_pack_summary option \<Rightarrow> bytes \<Rightarrow>
     (rasen_status \<times> (('r \<times> 'w) \<times> rasen_pack_summary option) \<times> bytes) option" where
  "rasen_pack_streams E inputs input_count key key_len options_ptr writer = ffi_call_opt (
     bind_os (run_os (lift_st (raw_slice inputs input_count ''inputs''))) (\<lambda>inputs.
     bind_os (run_os (lift_st (ffi_bytes key key_len ''key''))) (\<lambda>key.
     bind_os (run_os (lift_st (required ''writer'' writer))) (\<lambda>callbacks.
     bind_os (run_os (lift_st (ffi_pack_options options_ptr))) (\<lambda>options.
     bind_os (on_fst_os (pack_inputs E callbacks inputs key options)) (\<lambda>summary.
       run_os (write_summary summary)))))))"

end
