(* ===== verification/Ffi_Pack_Correct.thy ===== *)
theory Ffi_Pack_Correct
  imports Ffi_Calls Ffi_Pack Pack_Roundtrip
begin

text \<open>
  What the packing functions of the C interface do when they return: the library's packer on
  the files that the pointers describe, whose writer is a vector, a new file, or callbacks.
\<close>

section \<open>Packing into memory\<close>

lemma pack_buffered_forget:
  "pack_with_options E W files key options w =
     map_option (\<lambda>(r, w'). (bind_res r (\<lambda>_. Ok ()), w')) (pack_buffered E W files key options w)"
  unfolding pack_with_options_def pack_buffered_def
  by (auto split: prod.splits res.splits option.splits)

lemma bind_os_Some [res_simps]:
  "bind_os m k s = Some (Ok y, t) \<longleftrightarrow> (\<exists>x s'. m s = Some (Ok x, s') \<and> k x s' = Some (Ok y, t))"
  by (auto simp: bind_os_def split: option.splits prod.splits res.splits)

lemma run_os_Some [res_simps]: "run_os m s = Some (Ok x, t) \<longleftrightarrow> m s = (Ok x, t)"
  by (simp add: run_os_def)

definition proper_os :: "('s, 'a, ffi_failure) ostm \<Rightarrow> bool" where
  "proper_os m \<longleftrightarrow> (\<forall>s r t. m s = Some (r, t) \<longrightarrow> fails_properly r)"

lemma proper_bind: "proper_os m \<Longrightarrow> (\<And>x. proper_os (k x)) \<Longrightarrow> proper_os (bind_os m k)"
  by (auto simp: proper_os_def fails_properly_def bind_os_def split: option.splits prod.splits res.splits)

lemma proper_run:
  assumes "quiet m"
  shows "proper_os (run_os m)"
  unfolding proper_os_def
proof (intro allI impI)
  fix s r t
  assume "run_os m s = Some (r, t)"
  then have "quiet_at s (r, t)" using assms by (simp add: run_os_def quiet_def) (metis)
  then show "fails_properly r" by (auto simp: quiet_at_def fails_properly_def)
qed

lemma proper_local: "proper_os (pack_local E files key options)"
  by (auto simp: proper_os_def pack_local_def intro!: real_failure)

lemma ffi_call_opt_ok:
  assumes "ffi_call_opt m s msg = Some (S_Ok, s', msg')" "proper_os m"
  shows "m s = Some (Ok (), s') \<and> msg' = msg"
proof -
  from assms(1) obtain r t where m: "m s = Some (r, t)" by (auto simp: ffi_call_opt_def)
  moreover from this have "fails_properly r" using assms(2) by (metis proper_os_def)
  ultimately show ?thesis
    using assms(1) by (cases r) (auto simp: ffi_call_opt_def ffi_call_def fails_properly_def)
qed

lemma quiet_summary: "quiet (write_summary summary)"
  by (simp add: quiet_def quiet_at_def write_summary_def case_prod_beta)

lemma fails_properly_collect: "(\<And>x. fails_properly (f x)) \<Longrightarrow> fails_properly (collect_res f xs)"
  by (induction xs) (auto intro!: real_failure)

lemma fails_properly_inputs: "fails_properly (buffered_inputs files n)"
  unfolding buffered_inputs_def buffered_input_def by (intro real_failure fails_properly_collect)

lemma fails_properly_options: "fails_properly (ffi_pack_options p)"
  unfolding ffi_pack_options_def by (cases p) (auto intro!: real_failure)

lemma pack_memory_ok:
  assumes "rasen_pack_memory E files n key key_len options_ptr (out, summary) msg = Some (S_Ok, (out', summary'), msg')"
  shows "\<exists>inputs k options s content pos.
      buffered_inputs files n = Ok inputs \<and> ffi_bytes key key_len ''key'' = Ok k \<and> ffi_pack_options options_ptr = Ok options
    \<and> pack_with_options E vec_writer inputs k options ([], 0) = Some (Ok (), content, pos)
    \<and> out' = Some (into_buffer content) \<and> summary' = write_optional s summary"
  using assms unfolding rasen_pack_memory_def
proof (rule ffi_call_opt_ok [THEN conjunct1, elim_format], goal_cases)
  case 1
  have "proper_os (case x of (summary, content) \<Rightarrow>
     bind_os (run_os (on_fst (write_out (into_buffer content)))) (\<lambda>_. run_os (write_summary summary)))" for x
    by (cases x) (auto intro!: proper_bind proper_run quiet_summary quiet_on_fst quiet_write)
  then show ?case
    by (intro proper_bind proper_run proper_local silent_quiet silent_lift silent_on_fst silent_required real_failure
        fails_properly_inputs fails_properly_options)
next
  case 2
  then show ?case
    by (auto simp: res_simps lift_st_def on_fst_def required_out_def write_out_def write_summary_def pack_local_def
        from_core_def pack_buffered_forget split: prod.splits)
qed

lemma collect_res_Ok: "collect_res f xs = Ok ys \<longleftrightarrow> list_all2 (\<lambda>x y. f x = Ok y) xs ys"
  by (induction xs arbitrary: ys) (auto simp: res_simps list_all2_Cons1)

lemma utf8_Ok: "utf8 data n name = Ok b \<longleftrightarrow> ffi_bytes data n name = Ok b \<and> utf8_valid b"
  by (auto simp: utf8_def res_simps split: if_splits)

lemma buffered_inputs_utf8:
  assumes "buffered_inputs files n = Ok inputs"
  shows "\<forall>f \<in> set inputs. utf8_valid (f_path f)"
proof
  fix f
  assume "f \<in> set inputs"
  moreover obtain xs where "list_all2 (\<lambda>x y. buffered_input x = Ok y) xs inputs"
    using assms by (auto simp: buffered_inputs_def res_simps collect_res_Ok)
  ultimately obtain x where "buffered_input x = Ok f" by (auto simp: list_all2_conv_all_nth in_set_conv_nth)
  then show "utf8_valid (f_path f)" by (auto simp: buffered_input_def res_simps utf8_Ok)
qed

section \<open>Packing into a new file\<close>

lemma pack_buffered_total:
  assumes "seek_writer W content pos" "packer_laws E" "o_chunk_size options \<le> usize_max E"
    "\<forall>f \<in> set files. utf8_valid (f_path f)"
  obtains r w' where "pack_buffered E W files key options w = Some (r, w')" "r \<noteq> Panic"
    "\<forall>x. r = Ok x \<longrightarrow> archive_of E files key options (content w')"
proof -
  obtain res w' where r: "pack_with_options E W files key options w = Some (res, w')" "res \<noteq> Panic"
    "res = Ok () \<longrightarrow> archive_of E files key options (content w')"
    using seek_writer.pack_total [OF assms] by blast
  then obtain r0 where "pack_buffered E W files key options w = Some (r0, w')" "res = bind_res r0 (\<lambda>_. Ok ())"
    by (auto simp: pack_buffered_forget)
  then show ?thesis using that [of r0 w'] r by (cases r0) auto
qed

lemma pack_buffered_keeps:
  assumes "writer_keeps I W" "pack_buffered E W files key options w = Some (r, w')" "I w"
  shows "I w'"
proof -
  obtain r0 w0 where new: "packer_new E W key options w = (r0, w0)" by fastforce
  have I0: "I w0" using packer_new_keeps [OF assms(1,3) new] .
  show ?thesis
  proof (cases r0)
    case (Ok p)
    with new assms(2) obtain r1 w1 p1 where add: "add_files E W files (w0, p) = Some (r1, w1, p1)"
      by (cases "add_files E W files (w0, p)") (auto simp: pack_buffered_def)
    have I1: "I w1" using add_files_keeps [OF assms(1) add] I0 by simp
    obtain r2 w2 p2 where fin: "finish E W (w1, p1) = (r2, w2, p2)" by (rule prod_cases3)
    have "I w2" using keepsD [OF keeps_finish [OF assms(1)] I1 fin] .
    then show ?thesis using assms(2) new Ok add fin I1 by (cases r1) (auto simp: pack_buffered_def)
  qed (use assms(2) new I0 in \<open>auto simp: pack_buffered_def\<close>)
qed

context file_store
begin

text \<open>
  Packing into a file that was just created: on success the path holds an archive of the
  files; on failure every other path is as before, and if the removal works, so is this one.
\<close>

lemma pack_new_file_total:
  assumes "packer_laws E" "o_chunk_size options \<le> usize_max E" "\<forall>f \<in> set inputs. utf8_valid (f_path f)"
    and create: "fs_create_new FS p fs = (Ok W, fs1)"
  obtains r fs' where "pack_buffered E W inputs key options fs1 = Some (r, fs')" "r \<noteq> Panic"
    "\<exists>c. files fs' = (files fs)(p \<mapsto> c) \<and> (\<forall>x. r = Ok x \<longrightarrow> archive_of E inputs key options c)"
proof -
  from unbuffered [OF create] created [OF create] obtain content pos where opn: "open_file files p W content pos"
    and fs1: "files fs1 = (files fs)(p \<mapsto> content fs1)" by auto
  then have sw: "seek_writer W content pos" and kept: "writer_keeps (\<lambda>w. files w = (files fs)(p \<mapsto> content w)) W"
    using opn by (auto simp: open_file_def)
  from pack_buffered_total [OF sw assms(1-3)] obtain r fs' where run: "pack_buffered E W inputs key options fs1 = Some (r, fs')"
    "r \<noteq> Panic" "\<forall>x. r = Ok x \<longrightarrow> archive_of E inputs key options (content fs')" .
  have "files fs' = (files fs)(p \<mapsto> content fs')" using pack_buffered_keeps [OF kept run(1)] fs1 by simp
  then show ?thesis using run that by blast
qed

end

lemma calm_collect: "(\<And>x. calm_result (f x)) \<Longrightarrow> calm_result (collect_res f xs)"
  by (induction xs) (auto intro!: calm)

lemma calm_slice: "calm_result (raw_slice data n name)"
  by (auto simp: calm_result_def raw_slice_def failure_def split: option.splits)

lemma calm_inputs: "calm_result (buffered_inputs files n)"
  unfolding buffered_inputs_def buffered_input_def by (intro calm calm_collect calm_slice)

lemma calm_options: "calm_result (ffi_pack_options p)"
  unfolding ffi_pack_options_def by (cases p) (auto intro!: calm)

text \<open>One step of a body whose outcome does not depend on the state.\<close>

lemma call_lift:
  assumes "calm_result r" "fails_properly r"
  shows "(\<exists>x. r = Ok x \<and> ffi_call_opt (bind_os (run_os (lift_st r)) k) s msg = ffi_call_opt (k x) s msg)
    \<or> (\<exists>st msg'. (\<forall>x. r \<noteq> Ok x) \<and> ffi_call_opt (bind_os (run_os (lift_st r)) k) s msg = Some (st, s, msg') \<and> st \<noteq> S_Ok \<and> st \<noteq> S_Panic)"
  using assms by (cases r) (auto simp: ffi_call_opt_def bind_os_def run_os_def lift_st_def ffi_call_def calm_result_def fails_properly_def)

definition pack_arguments ::
  "rasen_input_file list option \<Rightarrow> usize \<Rightarrow> bytes option \<Rightarrow> usize \<Rightarrow> rasen_pack_options option \<Rightarrow>
     input_file list \<Rightarrow> bytes \<Rightarrow> pack_options \<Rightarrow> bool" where
  "pack_arguments files n key key_len options_ptr inputs k options \<longleftrightarrow>
     buffered_inputs files n = Ok inputs \<and> ffi_bytes key key_len ''key'' = Ok k \<and> ffi_pack_options options_ptr = Ok options"

lemma lift_os_merge:
  "bind_os (run_os (lift_st r)) (\<lambda>x. bind_os (run_os (lift_st (r' x))) (k x)) =
     bind_os (run_os (lift_st (bind_res r (\<lambda>x. bind_res (r' x) (\<lambda>y. Ok (x, y)))))) (\<lambda>z. k (fst z) (snd z))"
proof
  show "bind_os (run_os (lift_st r)) (\<lambda>x. bind_os (run_os (lift_st (r' x))) (k x)) s =
     bind_os (run_os (lift_st (bind_res r (\<lambda>x. bind_res (r' x) (\<lambda>y. Ok (x, y)))))) (\<lambda>z. k (fst z) (snd z)) s" for s
  proof (cases r)
    case (Ok x)
    then show ?thesis by (cases "r' x") (simp_all add: bind_os_def run_os_def lift_st_def)
  qed (simp_all add: bind_os_def run_os_def lift_st_def)
qed

lemma pack_new_file_outcome:
  assumes store: "file_store files FS" and "packer_laws E" "o_chunk_size options \<le> usize_max E"
    "\<forall>f \<in> set inputs. utf8_valid (f_path f)" and create: "fs_create_new FS p fs = (Ok W, fs1)"
  obtains r fs' c where "pack_new_file E FS p W inputs key options fs1 = Some (r, fs')" "files fs p = None"
    "case r of
        Ok x \<Rightarrow> files fs' = (files fs)(p \<mapsto> c) \<and> archive_of E inputs key options c
      | Err f \<Rightarrow> (\<exists>e. f = failure_from e) \<and> (files fs' = files fs \<or> \<not> removal_works files FS \<and> files fs' = (files fs)(p \<mapsto> c))
      | Panic \<Rightarrow> False"
proof -
  from file_store.pack_new_file_total [OF assms] obtain r fs2 c where
    pk: "pack_buffered E W inputs key options fs1 = Some (r, fs2)" "r \<noteq> Panic"
    "files fs2 = (files fs)(p \<mapsto> c)" "\<forall>x. r = Ok x \<longrightarrow> archive_of E inputs key options c" by metis
  let ?fs3 = "snd (fs_remove_file FS p fs2)"
  note names = file_store.axioms(1) [OF store]
  have "files fs p = None" using file_names.created [OF names create] by simp
  moreover from file_names.create_remove [OF names this pk(3)]
  have "files ?fs3 = files fs \<or> \<not> removal_works files FS \<and> files ?fs3 = (files fs)(p \<mapsto> c)" .
  ultimately show ?thesis
    using that [of "map_err failure_from r" "case r of Err e \<Rightarrow> ?fs3 | _ \<Rightarrow> fs2" c] pk by (cases r) (auto simp: pack_new_file_def)
qed

text \<open>From the creation of the file on: the arguments are checked, the rest of \<open>rasen_pack_file\<close> runs.\<close>

lemma pack_file_filled:
  assumes store: "file_store files FS" and laws: "packer_laws E" and size: "o_chunk_size opt \<le> usize_max E"
    and utf8: "\<forall>f \<in> set i. utf8_valid (f_path f)"
  obtains st fs' summary' msg' where
    "ffi_call_opt (bind_os (run_os (on_fst (\<lambda>fs. map_prod (map_err failure_from_io) id (fs_create_new FS p fs)))) (\<lambda>W.
       bind_os (on_fst_os (pack_new_file E FS p W i k opt)) (\<lambda>summary. run_os (write_summary summary)))) (fs, summary) msg
     = Some (st, (fs', summary'), msg')"
    "st \<noteq> S_Panic"
    "st = S_Ok \<Longrightarrow> files fs p = None \<and> (\<exists>c. files fs' = (files fs)(p \<mapsto> c) \<and> archive_of E i k opt c)"
    "st \<noteq> S_Ok \<Longrightarrow> summary' = summary \<and> (files fs' = files fs
       \<or> \<not> removal_works files FS \<and> files fs p = None \<and> (\<exists>c. files fs' = (files fs)(p \<mapsto> c)))"
proof -
  note names = file_store.axioms(1) [OF store]
  obtain c fs1 where create: "fs_create_new FS p fs = (c, fs1)" by fastforce
  note eval = create ffi_call_opt_def bind_os_def run_os_def on_fst_def on_fst_os_def write_summary_def ffi_call_def
  show ?thesis
  proof (cases c)
    case (Err e)
    then show ?thesis
      using that [of "core_status (Io e)" fs1 summary] file_names.not_created [OF names, of p fs e fs1]
      by (simp add: eval failure_from_io_def failure_from_def)
  next
    case (Ok W)
    obtain r fs2 c' where pk: "pack_new_file E FS p W i k opt fs1 = Some (r, fs2)" "files fs p = None"
      "case r of Ok x \<Rightarrow> files fs2 = (files fs)(p \<mapsto> c') \<and> archive_of E i k opt c'
       | Err f \<Rightarrow> (\<exists>e. f = failure_from e) \<and> (files fs2 = files fs \<or> \<not> removal_works files FS \<and> files fs2 = (files fs)(p \<mapsto> c'))
       | Panic \<Rightarrow> False"
      by (rule pack_new_file_outcome [OF store laws size utf8 create [unfolded Ok], of k])
    show ?thesis
    proof (cases r)
      case (Ok x)
      then show ?thesis
        using that [of S_Ok fs2 "write_optional (summary_to_ffi x) summary"] pk \<open>c = Ok W\<close> by (auto simp: eval)
    next
      case (Err f)
      then have "ff_status f \<noteq> S_Ok" "ff_status f \<noteq> S_Panic"
        and "files fs2 = files fs \<or> \<not> removal_works files FS \<and> files fs2 = (files fs)(p \<mapsto> c')"
        using pk(3) by (auto simp: failure_from_def)
      moreover have "ffi_call_opt (bind_os (run_os (on_fst (\<lambda>fs. map_prod (map_err failure_from_io) id (fs_create_new FS p fs)))) (\<lambda>W.
          bind_os (on_fst_os (pack_new_file E FS p W i k opt)) (\<lambda>summary. run_os (write_summary summary)))) (fs, summary) msg
        = Some (ff_status f, (fs2, summary), set_last_error (ff_message f))"
        using Err pk(1) \<open>c = Ok W\<close> by (simp add: eval)
      ultimately show ?thesis using that [of "ff_status f" fs2 summary] pk(2) by blast
    qed (use pk in simp)
  next
    case Panic
    then show ?thesis using file_names.returns(1) [OF names, of p fs] create by simp
  qed
qed

end
