(* ===== verification/Ffi_Streams.thy ===== *)
theory Ffi_Streams
  imports Ffi_Pack_Correct
begin

text \<open>
  Packing streams through the callbacks of a host: when the host's writer behaves like a
  seekable file, so does the writer that the library makes of it, and the archive that ends
  up there holds what the read callbacks delivered.
\<close>

section \<open>What the packer keeps of a reader's state\<close>

text \<open>The packer reaches the state of a reader only through the reader.\<close>

definition reader_keeps :: "('r \<Rightarrow> bool) \<Rightarrow> 'r reader \<Rightarrow> bool" where
  "reader_keeps I rd \<longleftrightarrow> (\<forall>dst r. I r \<longrightarrow> I (snd (snd (rd dst r))))"

lemma fill_chunk_keeps_reader:
  assumes "reader_keeps I rd" "fill_chunk E rd buffer r = Some (res, buffer', r')" "I r"
  shows "I r'"
proof -
  have "reader_keeps I rd \<longrightarrow> I r \<longrightarrow> I (snd (snd (res, buffer', r')))"
  proof (rule read_chunk_loop.raw_induct
      [of "\<lambda>E rd buffer filled r out. reader_keeps I rd \<longrightarrow> I r \<longrightarrow> I (snd (snd out))", OF _ assms(2) [unfolded fill_chunk_def]], goal_cases)
    case (1 rec E rd buffer filled r out)
    show ?case
    proof (intro impI)
      assume keeps: "reader_keeps I rd" and I: "I r"
      obtain res part r1 where rd: "rd (drop filled buffer) r = (res, part, r1)" by (rule prod_cases3)
      then have I1: "I r1" using keeps I by (metis reader_keeps_def snd_conv)
      show "I (snd (snd out))"
      proof (cases res)
        case (Ok n)
        then show ?thesis using 1(2) 1(1) [of E rd _ _ r1 out] rd I I1 keeps by (auto split: if_splits)
      next
        case (Err e)
        then show ?thesis using 1(2) 1(1) [of E rd _ _ r1 out] rd I I1 keeps by (auto split: if_splits)
      qed (use 1(2) rd I I1 in \<open>auto split: if_splits\<close>)
    qed
  qed
  then show ?thesis using assms(1,3) by simp
qed

lemma pack_chunks_keeps_reader:
  assumes "reader_keeps I rd" "pack_chunks E W rd totals r s = Some out" "I r"
  shows "I (fst (snd out))"
proof -
  have "reader_keeps I rd \<longrightarrow> I r \<longrightarrow> I (fst (snd out))"
  proof (rule pack_chunks.raw_induct
      [of "\<lambda>E W rd totals r s out. reader_keeps I rd \<longrightarrow> I r \<longrightarrow> I (fst (snd out))", OF _ assms(2)], goal_cases)
    case (1 rec E W rd totals r s out)
    show ?case
    proof (intro impI)
      assume keeps: "reader_keeps I rd" and I: "I r"
      from 1(2) obtain res raw r1 where fill: "fill_chunk E rd (p_raw (snd s)) r = Some (res, raw, r1)"
        by (auto split: option.splits)
      note I1 = fill_chunk_keeps_reader [OF keeps fill I]
      show "I (fst (snd out))"
      proof (cases "\<exists>n. res = Ok n \<and> n \<noteq> 0")
        case False
        then show ?thesis using 1(2) fill I1 by (cases res) (auto simp: Let_def)
      next
        case True
        then obtain n where n: "res = Ok n" "n \<noteq> 0" by blast
        obtain step w1 p1 where "pack_chunk E W n totals (fst s, (snd s)\<lparr> p_raw := raw \<rparr>) = (step, w1, p1)"
          by (rule prod_cases3)
        then show ?thesis using 1(2) 1(1) [of E W rd _ r1 "(w1, p1)" out] fill n I1 keeps by (cases step) (auto simp: Let_def)
      qed
    qed
  qed
  then show ?thesis using assms(1,3) by blast
qed

lemma add_reader_keeps_reader:
  assumes "reader_keeps I rd" "add_reader E W rd path r s = Some (res, r', s')" "I r"
  shows "I r'"
proof (cases "p_failed (snd s)")
  case False
  then obtain s2 where inner: "add_reader_inner E W rd path r s = Some (res, r', s2)"
    using assms(2) by (auto simp: add_reader_def split: option.splits)
  obtain start w1 p1 where start: "bind_st (register_path E path) (\<lambda>names. bind_st get_packer (\<lambda>p.
       bind_st (lift_st (usize_to_u32 (length (p_chunks p)) ''chunk index'')) (\<lambda>first_chunk.
         lift_st (Ok (names, length (p_chunks p), first_chunk))))) s = (start, w1, p1)" by (rule prod_cases3)
  show ?thesis
  proof (cases start)
    case (Ok x)
    obtain np ph fi fc where x: "x = ((np, ph), fi, fc)" by (metis prod.collapse)
    from inner Ok start x obtain out where out: "pack_chunks E W rd (0, 0) r (w1, p1) = Some out"
      by (auto simp: add_reader_inner_def split: option.splits)
    obtain res2 r2 s2' where o: "out = (res2, r2, s2')" by (rule prod_cases3)
    have "r' = r2" using inner Ok start x out o by (cases res2) (auto simp: add_reader_inner_def split: prod.splits)
    then show ?thesis using pack_chunks_keeps_reader [OF assms(1) out assms(3)] o by simp
  qed (use inner start assms(3) in \<open>auto simp: add_reader_inner_def\<close>)
qed (use assms in \<open>simp add: add_reader_def\<close>)

section \<open>The host's writer\<close>

text \<open>The callbacks of a file: each either reports a failure or does what its name says.\<close>

locale host_writer =
  fixes callbacks :: "'w rasen_writer" and content :: "'w \<Rightarrow> bytes" and pos :: "'w \<Rightarrow> nat"
  assumes writes: "rw_write callbacks = Some f \<Longrightarrow> f data w = (0, w') \<Longrightarrow> pos w \<le> length (content w) \<Longrightarrow>
      content w' = overwrite (content w) (pos w) data \<and> pos w' = pos w + length data"
    and seeks: "rw_seek callbacks = Some g \<Longrightarrow> g offset w = (0, w') \<Longrightarrow> content w' = content w \<and> pos w' = unat offset"
    and measures: "rw_len callbacks = Some h \<Longrightarrow> h v w = (0, n, w') \<Longrightarrow> content w' = content w \<and> unat n = length (content w)"
begin

lemma seek_absolute:
  assumes "callback_seek callbacks (Seek_Start offset) s = (Ok m, s')"
  shows "content (fst s') = content (fst s) \<and> pos (fst s') = unat offset \<and> m = offset"
  using assms seeks
  by (cases s) (fastforce simp: callback_seek_def callback_seek_target_def bind_st_def lift_st_def ok_or_def call_status_def
      split: option.splits if_splits prod.splits)

lemma seek_back:
  assumes "callback_seek callbacks (Seek_End 0) s = (Ok m, s')"
  shows "content (fst s') = content (fst s) \<and> unat m = length (content (fst s))"
proof -
  obtain w position where s: "s = (w, position)" by fastforce
  from assms s obtain len_fn n w1 where len: "rw_len callbacks = Some len_fn" "len_fn 0 w = (0, n, w1)"
    and seek: "callback_seek callbacks (Seek_Start n) (w1, position) = (Ok m, s')"
    by (auto simp: callback_seek_def callback_seek_target_def bind_st_def lift_st_def ok_or_def call_status_def
        split: option.splits if_splits prod.splits)
  from measures [OF len] seek_absolute [OF seek] s show ?thesis by auto
qed

end

lemma call_status_no_panic [no_panic]: "call_status name status \<noteq> Panic"
  by (simp add: call_status_def)

lemma callback_target_no_panic: "fst (callback_seek_target callbacks position s) \<noteq> Panic"
  by (cases position) (auto simp: callback_seek_target_def bind_st_def lift_st_def ok_or_def bind_res_Panic
      call_status_no_panic split: option.splits prod.splits res.splits)

lemma callbacks_return:
  "fst (callback_write_all callbacks data s) \<noteq> Panic" "fst (callback_seek callbacks position s) \<noteq> Panic"
proof -
  have one: "fst (callback_write callbacks data s) \<noteq> Panic"
    unfolding callback_write_def
    by (intro no_panic) (auto intro!: no_panic split: prod.splits option.splits)
  then show "fst (callback_write_all callbacks data s) \<noteq> Panic"
    by (auto simp: callback_write_all_def bind_st_def lift_st_def split: prod.splits res.splits)
  have move: "fst (case seek_fn absolute w of (status, w') \<Rightarrow>
      (case call_status ''seek'' status of Ok _ \<Rightarrow> (Ok absolute, w', absolute) | Err e \<Rightarrow> (Err e, w', position)
       | Panic \<Rightarrow> (Panic, w', position))) \<noteq> Panic" for seek_fn absolute w position
    by (cases "seek_fn absolute w"; cases "call_status ''seek'' (fst (seek_fn absolute w))") (auto simp: call_status_no_panic)
  show "fst (callback_seek callbacks position s) \<noteq> Panic"
    unfolding callback_seek_def
    by (intro no_panic callback_target_no_panic) (auto simp: move split: prod.split)
qed

sublocale host_writer \<subseteq> stream: seek_writer "callback_writer callbacks" "\<lambda>s. content (fst s)" "\<lambda>s. pos (fst s)"
proof (unfold_locales, goal_cases)
  case (1 data s s')
  then show ?case
    using writes
    by (cases s; cases "data = []")
      (fastforce simp: callback_writer_def callback_write_all_def callback_write_def bind_st_def lift_st_def ok_or_def
        call_status_def overwrite_def split: option.splits if_splits prod.splits)+
qed (auto simp: callback_writer_def callbacks_return dest: seek_absolute seek_back)

context host_writer
begin

lemma stream_writer: "seek_writer (callback_writer callbacks) (\<lambda>s. content (fst s)) (\<lambda>s. pos (fst s))"
  by (rule stream.seek_writer_axioms)

end

text \<open>A host that keeps a file in memory, and one that reads from memory.\<close>

definition memory_host :: "(bytes \<times> nat) rasen_writer" where
  "memory_host = \<lparr>
     rw_write = Some (\<lambda>data (content, pos). (0, overwrite content pos data, pos + length data)),
     rw_seek = Some (\<lambda>offset (content, pos). (0, content, unat offset)),
     rw_len = Some (\<lambda>v (content, pos). if length content < 2 ^ 64 then (0, of_nat (length content), content, pos)
                                       else (1, v, content, pos)) \<rparr>"

interpretation memory_host: host_writer memory_host fst snd
  by unfold_locales (auto simp: memory_host_def unat_of_nat_u64 split: if_splits)

definition memory_read :: "bytes read_fn" where
  "memory_read dst n r = (0, take (length dst) r @ drop (length r) dst, min (length dst) (length r), drop (length dst) r)"

lemma memory_read_is_slice: "callback_reader (Some memory_read) = slice_reader"
  by (auto simp: fun_eq_iff callback_reader_def memory_read_def slice_reader_def ok_or_def Let_def min_def)

section \<open>The host's readers\<close>

text \<open>
  The streams of a call share the host's state: each delivers its own bytes, in its own
  pieces, or fails, and reading one does not disturb the others.
\<close>

definition separate_streams :: "'r rasen_stream_input list \<Rightarrow> ('r \<Rightarrow> bytes) list \<Rightarrow> bool" where
  "separate_streams inputs rests \<longleftrightarrow> length inputs = length rests
     \<and> (\<forall>i < length inputs. (\<exists>patience. byte_reader (callback_reader (si_read (inputs ! i))) (rests ! i) patience)
          \<and> (\<forall>j < length inputs. j \<noteq> i \<longrightarrow>
               (\<forall>d. reader_keeps (\<lambda>r. (rests ! j) r = d) (callback_reader (si_read (inputs ! i))))))"

lemma separate_Cons:
  assumes "separate_streams (input # inputs) rests"
  obtains rest rests' where "rests = rest # rests'" "separate_streams inputs rests'"
    "\<exists>patience. byte_reader (callback_reader (si_read input)) rest patience"
    "\<forall>rest' \<in> set rests'. \<forall>d. reader_keeps (\<lambda>r. rest' r = d) (callback_reader (si_read input))"
proof -
  from assms obtain rest rests' where r: "rests = rest # rests'" "length inputs = length rests'"
    by (cases rests) (auto simp: separate_streams_def)
  have all: "\<forall>i < Suc (length inputs). (\<exists>patience. byte_reader (callback_reader (si_read ((input # inputs) ! i))) (rests ! i) patience)
      \<and> (\<forall>j < Suc (length inputs). j \<noteq> i \<longrightarrow>
           (\<forall>d. reader_keeps (\<lambda>r. (rests ! j) r = d) (callback_reader (si_read ((input # inputs) ! i)))))"
    using assms by (simp add: separate_streams_def)
  have zero: "\<exists>patience. byte_reader (callback_reader (si_read input)) rest patience"
    "\<forall>j < Suc (length inputs). j \<noteq> 0 \<longrightarrow> (\<forall>d. reader_keeps (\<lambda>r. (rests ! j) r = d) (callback_reader (si_read input)))"
    using spec [OF all, of 0] r(1) by simp_all
  have "reader_keeps (\<lambda>r. (rests' ! j) r = d) (callback_reader (si_read input))" if "j < length inputs" for j d
    using zero(2) [rule_format, of "Suc j" d] that r(1) by simp
  then have "\<forall>rest' \<in> set rests'. \<forall>d. reader_keeps (\<lambda>r. rest' r = d) (callback_reader (si_read input))"
    using r(2) by (metis in_set_conv_nth)
  note zero(1) this
  moreover have "separate_streams inputs rests'"
    unfolding separate_streams_def
  proof (intro conjI allI impI r(2))
    fix i assume "i < length inputs"
    then show "\<exists>patience. byte_reader (callback_reader (si_read (inputs ! i))) (rests' ! i) patience"
      using all [rule_format, of "Suc i"] r(1) by auto
  next
    fix i j d assume "i < length inputs" "j < length inputs" "j \<noteq> i"
    then show "reader_keeps (\<lambda>r. (rests' ! j) r = d) (callback_reader (si_read (inputs ! i)))"
      using all [rule_format, of "Suc i"] r(1) by (auto dest!: conjunct2 spec [of _ "Suc j"])
  qed
  ultimately show ?thesis using that r(1) by blast
qed

text \<open>What the streams stand for: the path of each, and the bytes it still delivers.\<close>

definition stream_inputs ::
  "'r rasen_stream_input list \<Rightarrow> ('r \<Rightarrow> bytes) list \<Rightarrow> 'r \<Rightarrow> input_file list \<Rightarrow> bool" where
  "stream_inputs inputs rests r files \<longleftrightarrow>
     list_all2 (\<lambda>(input, rest) f. utf8 (si_path input) (si_path_len input) ''input.path'' = Ok (f_path f) \<and> f_data f = rest r)
       (zip inputs rests) files"

lemma add_streams_total:
  assumes laws: "packer_laws E" and sw: "seek_writer W content pos"
  shows "packer_state E content pos w p gs \<Longrightarrow> separate_streams inputs rests \<Longrightarrow>
    \<exists>res r' w' p'. add_streams E W inputs (r, w, p) = Some (res, r', w', p') \<and> calm_result res \<and> fails_properly res
      \<and> (res = Ok () \<longrightarrow> p_options p' = p_options p \<and> p_key p' = p_key p
           \<and> (\<exists>hs files. packer_state E content pos w' p' (gs @ hs) \<and> stream_inputs inputs rests r files \<and> stored_as E files hs))"
proof (induction inputs arbitrary: rests r w p gs)
  case Nil
  then show ?case
    by (auto simp: run_os_def lift_st_def calm_result_def fails_properly_def stream_inputs_def stored_as_def
        intro!: exI [of _ "[]"])
next
  case (Cons input inputs)
  obtain rest rests' where rests: "rests = rest # rests'" "separate_streams inputs rests'"
    "\<exists>patience. byte_reader (callback_reader (si_read input)) rest patience"
    "\<forall>rest' \<in> set rests'. \<forall>d. reader_keeps (\<lambda>r. rest' r = d) (callback_reader (si_read input))"
    by (rule separate_Cons [OF Cons.prems(2)])
  let ?rd = "callback_reader (si_read input)" and ?path = "utf8 (si_path input) (si_path_len input) ''input.path''"
  show ?case
  proof (cases ?path)
    case path: (Ok path)
    then have utf8: "utf8_valid path" by (auto simp: utf8_def res_simps split: if_splits)
    obtain patience where "packing ?rd rest patience W content pos" using rests(3) sw by (auto simp: packing_def)
    from packing.add_reader_total [OF this laws Cons.prems(1) utf8] obtain res r1 w1 p1 where
      add: "add_reader E W ?rd path r (w, p) = Some (res, r1, w1, p1)" "res \<noteq> Panic" and
      ok: "res = Ok () \<Longrightarrow> p_options p1 = p_options p \<and> p_key p1 = p_key p
         \<and> (\<exists>n new. normalize_path E path = Ok n \<and> concat new = rest r \<and> packer_state E content pos w1 p1 (gs @ [(n, new)]))"
      by blast
    have others: "rest' r1 = rest' r" if "rest' \<in> set rests'" for rest'
      using add_reader_keeps_reader [OF rests(4) [rule_format, OF that] add(1)] by blast
    show ?thesis
    proof (cases res)
      case (Err e)
      then show ?thesis
        using add path by (simp add: bind_os_def run_os_def lift_st_def from_core_def calm_result_def fails_properly_def failure_from_def)
    next
      case res: (Ok u)
      then obtain n new where n: "p_options p1 = p_options p" "p_key p1 = p_key p" "normalize_path E path = Ok n"
        "concat new = rest r" "packer_state E content pos w1 p1 (gs @ [(n, new)])" using ok by auto
      from Cons.IH [OF n(5) rests(2), of r1] obtain res2 r2 w2 p2 where
        rec: "add_streams E W inputs (r1, w1, p1) = Some (res2, r2, w2, p2)" "calm_result res2" "fails_properly res2" and
        ok2: "res2 = Ok () \<longrightarrow> p_options p2 = p_options p1 \<and> p_key p2 = p_key p1
           \<and> (\<exists>hs files. packer_state E content pos w2 p2 ((gs @ [(n, new)]) @ hs) \<and> stream_inputs inputs rests' r1 files
                \<and> stored_as E files hs)" by blast
      have "add_streams E W (input # inputs) (r, w, p) = Some (res2, r2, w2, p2)"
        using add path res rec by (simp add: bind_os_def run_os_def lift_st_def from_core_def)
      moreover have "\<exists>hs files. packer_state E content pos w2 p2 (gs @ hs) \<and> stream_inputs (input # inputs) rests r files
          \<and> stored_as E files hs" if "res2 = Ok ()"
      proof -
        from ok2 that obtain hs files where h: "packer_state E content pos w2 p2 ((gs @ [(n, new)]) @ hs)"
          "stream_inputs inputs rests' r1 files" "stored_as E files hs" by blast
        have "stream_inputs inputs rests' r files"
          using h(2) unfolding stream_inputs_def
          by (rule list.rel_mono_strong) (use others in \<open>auto dest: set_zip_rightD\<close>)
        with h n path rests(1) show ?thesis
          by (intro exI [of _ "(n, new) # hs"] exI [of _ "\<lparr> f_path = path, f_data = rest r \<rparr> # files"])
            (simp add: stream_inputs_def stored_as_def)
      qed
      ultimately show ?thesis using rec ok2 n(1,2) by auto
    qed (use add in simp)
  next
    case (Err f)
    moreover have "calm_result ?path" "fails_properly ?path" by (intro calm, intro real_failure)
    ultimately show ?thesis by (simp add: bind_os_def run_os_def lift_st_def calm_result_def fails_properly_def)
  next
    case Panic
    moreover have "calm_result ?path" by (intro calm)
    ultimately show ?thesis by (simp add: calm_result_def)
  qed
qed

lemma pack_inputs_total:
  assumes host: "host_writer callbacks content pos" and laws: "packer_laws E" and size: "o_chunk_size options \<le> usize_max E"
    and streams: "separate_streams inputs rests"
  obtains res r' w' where "pack_inputs E callbacks inputs key options (r, w) = Some (res, r', w')" "calm_result res" "fails_properly res"
    "\<forall>s. res = Ok s \<longrightarrow> (\<exists>files. stream_inputs inputs rests r files \<and> archive_of E files key options (content w'))"
proof -
  let ?W = "callback_writer callbacks" and ?c = "\<lambda>s. content (fst s)" and ?p = "\<lambda>s. pos (fst s)"
  have sw: "seek_writer ?W ?c ?p" by (rule host_writer.stream_writer [OF host])
  obtain r0 s0 where new: "packer_new E ?W key options (w, 0) = (r0, s0)" by (rule prod.exhaust)
  note wp0 = seek_writer.wp_packer_new [OF sw laws size, of key "(w, 0)"]
  have np0: "r0 \<noteq> Panic" using wp_no_panic [OF wp0] unfolding new fst_conv .
  show ?thesis
  proof (cases r0)
    case (Err e)
    then show ?thesis
      using that [of "Err (failure_from e)" r "fst s0"] new
      by (cases s0) (simp add: pack_inputs_def calm_result_def fails_properly_def failure_from_def)
  next
    case (Ok p)
    from wp_Ok [OF wp0 new [unfolded Ok]] have p: "p_options p = options" "p_key p = key"
      "packer_state E ?c ?p s0 p []" by auto
    from add_streams_total [OF laws sw p(3) streams, of r] obtain res r1 s1 p1 where
      add: "add_streams E ?W inputs (r, s0, p) = Some (res, r1, s1, p1)" "calm_result res" "fails_properly res" and
      ok: "res = Ok () \<longrightarrow> p_options p1 = options \<and> p_key p1 = key
         \<and> (\<exists>hs files. packer_state E ?c ?p s1 p1 ([] @ hs) \<and> stream_inputs inputs rests r files \<and> stored_as E files hs)"
      unfolding p(1,2) by blast
    show ?thesis
    proof (cases res)
      case (Err f)
      then show ?thesis
        using that [of "Err f" r1 "fst s1"] new Ok add
        by (cases s1) (simp add: pack_inputs_def bind_os_def calm_result_def fails_properly_def)
    next
      case res: (Ok u)
      with ok obtain hs files where h: "p_options p1 = options" "p_key p1 = key" "packer_state E ?c ?p s1 p1 hs"
        "stream_inputs inputs rests r files" "stored_as E files hs" by auto
      obtain r2 s2 p2 where fin: "finish E ?W (s1, p1) = (r2, s2, p2)" by (rule prod_cases3)
      note wp2 = seek_writer.wp_finish_archive [OF sw laws h(3,5,1,2)]
      have np2: "r2 \<noteq> Panic" using wp_no_panic [OF wp2] unfolding fin fst_conv .
      have run: "pack_inputs E callbacks inputs key options (r, w) = Some (from_core r2, r1, fst s2)"
        using new Ok add res fin by (cases s2) (simp add: pack_inputs_def bind_os_def run_os_def)
      have "archive_of E files key options (content (fst s2))" if "from_core r2 = Ok s" for s
        using wp_Ok [OF wp2, of s "(s2, p2)"] fin that by (cases r2) (simp_all add: from_core_def)
      moreover have "calm_result (from_core r2)" "fails_properly (from_core r2)"
        using np2 by (intro calm, assumption) (intro real_failure)
      ultimately show ?thesis using that run h(4) by blast
    qed (use add in \<open>simp add: calm_result_def\<close>)
  qed (use np0 in simp)
qed

end
