(* ===== verification/Sample_Files.thy ===== *)
theory Sample_Files
  imports File_Store Sample_Pack
begin

text \<open>The sample archive packed into a file of the file system in memory.\<close>

definition file_state :: "('p \<Rightarrow> bytes option) \<Rightarrow> 'p \<Rightarrow> bytes \<Rightarrow> nat \<Rightarrow> 'p memory_files" where
  "file_state base p content n = \<lparr> mf_files = base(p \<mapsto> content), mf_pos = n, mf_shown = [] \<rparr>"

lemma file_state_files [simp]: "mf_files (file_state base p content n) = base(p \<mapsto> content)"
  by (simp add: file_state_def)

interpretation file_run: plain_writer "memory_writer p" "file_state base p" for base p
  by unfold_locales (simp_all add: memory_writer_def memory_content_def file_state_def)

lemma memory_create:
  "base p = None \<Longrightarrow> fs_create_new memory_file_system p \<lparr> mf_files = base, mf_pos = n, mf_shown = [] \<rparr> = (Ok (memory_writer p), file_state base p [] 0)"
  by (simp add: memory_file_system_def file_state_def)

lemma memory_removal: "removal_works mf_files memory_file_system"
  by (simp add: removal_works_def memory_file_system_def)

end
