(* ===== verification/Ffi_Properties.thy ===== *)
theory Ffi_Properties
  imports Ffi_Session Ffi_Streams Sample_Files
begin

text \<open>
  The properties of the C interface: archives packed into memory through it read back through
  it, whole runs of a host neither panic nor leak or doubly destroy a source, and failed
  calls leave their outputs alone.
\<close>

section \<open>Archives in memory\<close>

lemma ffi_bytes_self [simp]: "ffi_bytes (Some b) (length b) name = Ok b"
  by (simp add: ffi_bytes_def)

lemma ffi_bytes_buffer [simp]: "ffi_bytes (rb_data (into_buffer b)) (rb_len (into_buffer b)) name = Ok b"
  by (simp add: ffi_bytes_def into_buffer_def default_buffer_def)

lemma memory_is_slice: "ffi_source_of E (Memory b) = slice_source E b"
  by (simp add: ffi_source_of_def slice_source_def)

lemma open_memory_opens:
  assumes "ffi_bytes data n ''data'' = Ok b" "ffi_bytes key key_len ''key'' = Ok k"
    "open_with_limits E (slice_source E b) k (ffi_limits l) = Ok A"
  shows "rasen_archive_open_memory E data n key key_len l (Some cell) msg
    = (S_Ok, Some (Some \<lparr> ra_inner = A, ra_source = Memory b \<rparr>), msg)"
  using assms by (simp add: rasen_archive_open_memory_def ffi_call_def bind_st_def lift_st_def required_out_def required_def
      write_out_def ffi_open_def memory_is_slice from_core_def)

lemma archive_read_reads:
  assumes "utf8_valid path" "read E (ra_inner a) path = Ok b"
  shows "rasen_archive_read E (Some a) (Some path) (length path) (Some cell) msg = (S_Ok, Some (into_buffer b), msg)"
  using assms by (simp add: rasen_archive_read_def ffi_call_def bind_st_def lift_st_def required_out_def required_def
      write_out_def utf8_def read_buffer_def archive_ref_def from_core_def)

section \<open>Properties\<close>

text \<open>
  C11: round trip through the C interface.  If \<open>rasen_pack_memory\<close> returns \<open>Ok\<close> with a buffer,
  then \<open>rasen_archive_open_memory\<close> on that buffer with the same key returns \<open>Ok\<close> and a handle,
  provided the limits admit the header and the files, and \<open>rasen_archive_read\<close> through this
  handle gives, for every input's path, a buffer with exactly the input's data.
\<close>

theorem c_interface_round_trip:
  assumes "packer_laws E" "lz4_pure E" "2 ^ 32 - 1 \<le> usize_max E"
    and inputs: "buffered_inputs files n = Ok inputs" "\<forall>f \<in> set inputs. length (f_data f) \<le> usize_max E"
    and options: "ffi_pack_options options_ptr = Ok options" "o_chunk_size options \<le> usize_max E"
    and pack: "rasen_pack_memory E files n key key_len options_ptr (out, summary) msg = Some (S_Ok, (Some buffer, summary'), msg')"
    and content: "ffi_bytes (rb_data buffer) (rb_len buffer) ''data'' = Ok content" "length content \<le> usize_max E"
      "length content < 2 ^ 64"
    and limits: "\<forall>h rest. read_header content = Ok (h, rest) \<longrightarrow> validate_limits E h (clamped (ffi_limits l)) = Ok ()"
      "inputs_fit E (clamped (ffi_limits l)) options inputs"
  shows "\<exists>a. rasen_archive_open_memory E (rb_data buffer) (rb_len buffer) key key_len l (Some None) msg1 = (S_Ok, Some (Some a), msg1)
    \<and> (\<forall>f \<in> set inputs. rasen_archive_read E (Some a) (Some (f_path f)) (length (f_path f)) (Some b) msg2
         = (S_Ok, Some (into_buffer (f_data f)), msg2))"
proof -
  from pack_memory_ok [OF pack] inputs(1) options(1) obtain k c pos where k: "ffi_bytes key key_len ''key'' = Ok k"
    and pk: "pack_with_options E vec_writer inputs k options ([], 0) = Some (Ok (), c, pos)" "buffer = into_buffer c"
    by auto
  have c: "c = content" using content(1) pk(2) by simp
  note utf8 = buffered_inputs_utf8 [OF inputs(1)]
  have "archive_of E inputs k options content"
    using vec_writer.pack_total [OF assms(1) options(2) utf8, of k "([], 0)"] pk(1) c by auto
  then obtain A where A: "open_with_limits E (slice_source E content) k (ffi_limits l) = Ok A"
    "\<forall>f \<in> set inputs. read E A (f_path f) = Ok (f_data f)"
    using archive_reads_back [OF _ assms(1-3) slice_src.backed [OF content(3,2)] slice_src.safe slice_src.stable [OF content(2)]
        limits inputs(2)] by blast
  let ?a = "\<lparr> ra_inner = A, ra_source = Memory content \<rparr>"
  show ?thesis
    using open_memory_opens [OF content(1) k A(1)] archive_read_reads [of _ E ?a] A(2) utf8
    by (intro exI [of _ ?a]) simp
qed

text \<open>The witness: the sample archive, packed and read through the C interface.\<close>

definition demo_inputs :: "rasen_input_file list" where
  "demo_inputs = [\<lparr> rf_path = Some [0x61], rf_path_len = 1, rf_data = Some [9, 9, 9, 9, 5], rf_data_len = 5 \<rparr>]"

lemma demo_buffered_inputs: "buffered_inputs (Some demo_inputs) 1 = Ok [demo_file]"
  by (simp add: buffered_inputs_def raw_slice_def demo_inputs_def buffered_input_def utf8_def ffi_bytes_def demo_file_def)

lemma demo_pack_memory:
  "rasen_pack_memory sample_env (Some demo_inputs) 1 (Some [7]) 1 (Some (options_to_ffi demo_options)) (Some default_buffer, None) []
    = Some (S_Ok, (Some (into_buffer demo_bytes), None), [])"
proof -
  have "pack_buffered sample_env vec_writer [demo_file] [7] demo_options ([], 0)
    = Some (fst (finish sample_env vec_writer ((demo_payload, 81), demo_done 81)), demo_bytes, 210)"
    using vec_run.demo_finish by (simp add: pack_buffered_def vec_run.demo_new demo_file_def vec_run.demo_add [simplified] demo_done_def)
  then show ?thesis
    using vec_run.demo_finish demo_buffered_inputs
    by (simp add: rasen_pack_memory_def ffi_call_opt_def ffi_call_def bind_os_def run_os_def on_fst_def required_out_def
        required_def lift_st_def options_ffi_inverse pack_local_def from_core_def write_out_def write_summary_def
        write_optional_def ffi_bytes_def)
qed

theorem c_interface_round_trip_witness:
  "\<exists>a. rasen_archive_read sample_env (Some a) (Some [0x61]) 1 (Some default_buffer) []
     = (S_Ok, Some (into_buffer [9, 9, 9, 9, 5]), [])"
proof -
  have "ffi_limits None = runtime_default" by (simp add: ffi_limits_def)
  note fits = demo_limits [of "ffi_limits None", OF disjI1 [OF this]]
  show ?thesis
    using c_interface_round_trip [OF sample_packer_laws sample_env_pure _ demo_buffered_inputs _ options_ffi_inverse _
        demo_pack_memory ffi_bytes_buffer _ _ fits, of "[]" default_buffer "[]"]
    by (auto simp: demo_max demo_file_def demo_options_def length_demo)
qed

text \<open>
  C12: packing into a file writes a whole archive or leaves no trace.  \<open>rasen_pack_file\<close>
  returns with a status that is not a caught panic.  If it is \<open>Ok\<close>, the output path was free
  and is the only path that changed, and the new file holds an archive of the inputs.  If it
  is not, the summary is as it was, and so are the files, unless the system refuses to remove
  the file that the call had created.
\<close>

theorem pack_file_all_or_nothing:
  assumes store: "file_store files FS" and laws: "packer_laws E"
    and sizes: "\<forall>options. ffi_pack_options options_ptr = Ok options \<longrightarrow> o_chunk_size options \<le> usize_max E"
  shows "\<exists>st fs' summary' msg'. rasen_pack_file E FS out_path out_len inputs n key key_len options_ptr (fs, summary) msg
        = Some (st, (fs', summary'), msg') \<and> st \<noteq> S_Panic
    \<and> (if st = S_Ok
       then \<exists>p inputs' k options c. utf8 out_path out_len ''output_path'' = Ok p
          \<and> pack_arguments inputs n key key_len options_ptr inputs' k options
          \<and> files fs p = None \<and> files fs' = (files fs)(p \<mapsto> c) \<and> archive_of E inputs' k options c
       else summary' = summary \<and> (files fs' = files fs
          \<or> \<not> removal_works files FS \<and> (\<exists>p c. utf8 out_path out_len ''output_path'' = Ok p
               \<and> files fs p = None \<and> files fs' = (files fs)(p \<mapsto> c))))"
    (is "\<exists>st fs' summary' msg'. ?call = _ \<and> _")
proof -
  let ?pre = "bind_res (utf8 out_path out_len ''output_path'') (\<lambda>p. bind_res (bind_res (buffered_inputs inputs n) (\<lambda>i.
      bind_res (bind_res (ffi_bytes key key_len ''key'') (\<lambda>k. bind_res (ffi_pack_options options_ptr) (\<lambda>opt. Ok (k, opt))))
        (\<lambda>y. Ok (i, y)))) (\<lambda>y. Ok (p, y)))"
  let ?rest = "\<lambda>(p, i, k, opt). bind_os (run_os (on_fst (\<lambda>fs. map_prod (map_err failure_from_io) id (fs_create_new FS p fs)))) (\<lambda>W.
     bind_os (on_fst_os (pack_new_file E FS p W i k opt)) (\<lambda>summary. run_os (write_summary summary)))"
  have merged: "?call = ffi_call_opt (bind_os (run_os (lift_st ?pre)) ?rest) (fs, summary) msg"
    unfolding rasen_pack_file_def lift_os_merge by (simp add: case_prod_unfold)
  have "calm_result ?pre" "fails_properly ?pre"
    by (intro calm calm_inputs calm_options, intro real_failure fails_properly_inputs fails_properly_options)
  from call_lift [OF this, of ?rest "(fs, summary)" msg] merged
  consider (run) z where "?pre = Ok z" "?call = ffi_call_opt (?rest z) (fs, summary) msg"
    | (refused) st msg' where "?call = Some (st, (fs, summary), msg')" "st \<noteq> S_Ok" "st \<noteq> S_Panic"
    by (elim disjE) auto
  then show ?thesis
  proof cases
    case (run z)
    obtain p i k opt where z: "z = (p, i, k, opt)" by (metis prod.collapse)
    with run(1) have args: "utf8 out_path out_len ''output_path'' = Ok p" "pack_arguments inputs n key key_len options_ptr i k opt"
      by (auto simp: res_simps pack_arguments_def)
    then have "o_chunk_size opt \<le> usize_max E" "\<forall>f \<in> set i. utf8_valid (f_path f)"
      using sizes buffered_inputs_utf8 [of inputs n i] by (auto simp: pack_arguments_def)
    then obtain st fs' summary' msg' where packed: "ffi_call_opt (?rest z) (fs, summary) msg = Some (st, (fs', summary'), msg')" "st \<noteq> S_Panic"
        "st = S_Ok \<Longrightarrow> files fs p = None \<and> (\<exists>c. files fs' = (files fs)(p \<mapsto> c) \<and> archive_of E i k opt c)"
        "st \<noteq> S_Ok \<Longrightarrow> summary' = summary \<and> (files fs' = files fs
           \<or> \<not> removal_works files FS \<and> files fs p = None \<and> (\<exists>c. files fs' = (files fs)(p \<mapsto> c)))"
      unfolding z prod.case by (rule pack_file_filled [OF store laws]) blast
    have call: "?call = Some (st, (fs', summary'), msg')" using run(2) packed(1) by simp
    show ?thesis
    proof (cases "st = S_Ok")
      case True
      with packed(3) args have "\<exists>p inputs' k options c. utf8 out_path out_len ''output_path'' = Ok p
          \<and> pack_arguments inputs n key key_len options_ptr inputs' k options
          \<and> files fs p = None \<and> files fs' = (files fs)(p \<mapsto> c) \<and> archive_of E inputs' k options c" by blast
      then show ?thesis using call True by simp
    next
      case False
      with packed(4) args have "summary' = summary \<and> (files fs' = files fs
          \<or> \<not> removal_works files FS \<and> (\<exists>p c. utf8 out_path out_len ''output_path'' = Ok p
               \<and> files fs p = None \<and> files fs' = (files fs)(p \<mapsto> c)))" by blast
      then show ?thesis using call False packed(2) by simp
    qed
  next
    case refused
    then show ?thesis by auto
  qed
qed

text \<open>The witness: the sample archive is written into a new file, whose contents are an archive.\<close>

lemma demo_pack_file:
  assumes "base [0x6F] = None"
  shows "rasen_pack_file sample_env memory_file_system (Some [0x6F]) 1 (Some demo_inputs) 1 (Some [7]) 1
     (Some (options_to_ffi demo_options)) (\<lparr> mf_files = base, mf_pos = 0, mf_shown = [] \<rparr>, None) []
   = Some (S_Ok, (file_state base [0x6F] demo_bytes 210, None), [])"
proof -
  have "pack_buffered sample_env (memory_writer [0x6F]) [demo_file] [7] demo_options (file_state base [0x6F] [] 0)
    = Some (Ok \<lparr> ps_archive_len = 210, ps_entry_count = 1, ps_chunk_count = 2 \<rparr>, file_state base [0x6F] demo_bytes 210)"
    using file_run.demo_finish [of "[0x6F]" base]
    by (simp add: pack_buffered_def file_run.demo_new demo_file_def file_run.demo_add [simplified] demo_done_def)
  then show ?thesis
    using demo_buffered_inputs
    by (simp add: rasen_pack_file_def ffi_call_opt_def ffi_call_def bind_os_def run_os_def on_fst_def on_fst_os_def lift_st_def
        options_ffi_inverse demo_buffered_inputs memory_create [of base, OF assms] pack_new_file_def write_summary_def
        write_optional_def ffi_bytes_def utf8_def)
qed

theorem pack_file_all_or_nothing_witness:
  "\<exists>inputs k options. archive_of sample_env inputs k options demo_bytes"
proof -
  have "\<forall>options. ffi_pack_options (Some (options_to_ffi demo_options)) = Ok options \<longrightarrow> o_chunk_size options \<le> usize_max sample_env"
    by (simp add: options_ffi_inverse) (simp add: demo_options_def demo_max)
  from pack_file_all_or_nothing [OF memory_store.file_store_axioms sample_packer_laws this, of "Some [0x6F]" 1 "Some demo_inputs" 1
      "Some [7]" 1 "\<lparr> mf_files = Map.empty, mf_pos = 0, mf_shown = [] \<rparr>" None "[]"]
  obtain p inputs k options c where "utf8 (Some [0x6F]) 1 ''output_path'' = Ok p" "[[0x6F] \<mapsto> demo_bytes] = [p \<mapsto> c]"
    "archive_of sample_env inputs k options c"
    unfolding demo_pack_file [of Map.empty, OF refl] by auto
  moreover from this(1) have "p = [0x6F]" by (simp add: utf8_def ffi_bytes_def)
  ultimately show ?thesis by (metis fun_upd_same option.inject)
qed

text \<open>
  C13: packing streams writes an archive of what the streams deliver.  For a host whose writer
  callbacks behave like a file and whose read callbacks deliver their bytes in any pieces, or
  fail at any time, \<open>rasen_pack_streams\<close> returns with a status that is not a caught panic.  If
  it is \<open>Ok\<close>, the host's file is an archive of the paths with the bytes that the streams had
  at the start of the call; if it is not, the summary is as it was.
\<close>

theorem pack_streams_writes_archive:
  assumes laws: "packer_laws E"
    and sizes: "\<forall>options. ffi_pack_options options_ptr = Ok options \<longrightarrow> o_chunk_size options \<le> usize_max E"
    and host: "\<forall>callbacks. writer = Some callbacks \<longrightarrow> host_writer callbacks content pos"
    and streams: "\<forall>ins. raw_slice inputs n ''inputs'' = Ok ins \<longrightarrow> separate_streams ins rests"
  shows "\<exists>st r' w' summary' msg'. rasen_pack_streams E inputs n key key_len options_ptr writer ((r, w), summary) msg
        = Some (st, ((r', w'), summary'), msg') \<and> st \<noteq> S_Panic
    \<and> (if st = S_Ok
       then \<exists>ins files k options. raw_slice inputs n ''inputs'' = Ok ins \<and> stream_inputs ins rests r files
          \<and> ffi_bytes key key_len ''key'' = Ok k \<and> ffi_pack_options options_ptr = Ok options
          \<and> archive_of E files k options (content w')
       else summary' = summary)"
    (is "\<exists>st r' w' summary' msg'. ?call = _ \<and> _")
proof -
  let ?pre = "bind_res (raw_slice inputs n ''inputs'') (\<lambda>ins. bind_res (bind_res (ffi_bytes key key_len ''key'') (\<lambda>k.
      bind_res (bind_res (required ''writer'' writer) (\<lambda>c. bind_res (ffi_pack_options options_ptr) (\<lambda>opt. Ok (c, opt))))
        (\<lambda>y. Ok (k, y)))) (\<lambda>y. Ok (ins, y)))"
  let ?rest = "\<lambda>(ins, k, c, opt). bind_os (on_fst_os (pack_inputs E c ins k opt)) (\<lambda>summary. run_os (write_summary summary))"
  have merged: "?call = ffi_call_opt (bind_os (run_os (lift_st ?pre)) ?rest) ((r, w), summary) msg"
    unfolding rasen_pack_streams_def lift_os_merge by (simp add: case_prod_unfold)
  have "calm_result ?pre" "fails_properly ?pre"
    by (intro calm calm_slice calm_options, intro real_failure fails_properly_options)
  from call_lift [OF this, of ?rest "((r, w), summary)" msg] merged
  consider (run) z where "?pre = Ok z" "?call = ffi_call_opt (?rest z) ((r, w), summary) msg"
    | (refused) st msg' where "?call = Some (st, ((r, w), summary), msg')" "st \<noteq> S_Ok" "st \<noteq> S_Panic"
    by (elim disjE) auto
  then show ?thesis
  proof cases
    case (run z)
    obtain ins k c opt where z: "z = (ins, k, c, opt)" by (metis prod.collapse)
    with run(1) have args: "raw_slice inputs n ''inputs'' = Ok ins" "ffi_bytes key key_len ''key'' = Ok k"
      "writer = Some c" "ffi_pack_options options_ptr = Ok opt"
      by (auto simp: res_simps required_def split: option.splits)
    obtain res r' w' where pack: "pack_inputs E c ins k opt (r, w) = Some (res, r', w')" "calm_result res" "fails_properly res"
      "\<forall>s. res = Ok s \<longrightarrow> (\<exists>files. stream_inputs ins rests r files \<and> archive_of E files k opt (content w'))"
      by (rule pack_inputs_total [OF host [rule_format, OF args(3)] laws sizes [rule_format, OF args(4)]
            streams [rule_format, OF args(1)]])
    note eval = run(2) z pack(1) ffi_call_opt_def bind_os_def run_os_def on_fst_os_def write_summary_def ffi_call_def
    show ?thesis
    proof (cases res)
      case (Ok s)
      then obtain files where "stream_inputs ins rests r files" "archive_of E files k opt (content w')" using pack(4) by blast
      with args have "\<exists>ins files k options. raw_slice inputs n ''inputs'' = Ok ins \<and> stream_inputs ins rests r files
          \<and> ffi_bytes key key_len ''key'' = Ok k \<and> ffi_pack_options options_ptr = Ok options
          \<and> archive_of E files k options (content w')" by (intro exI conjI)
      moreover have "?call = Some (S_Ok, ((r', w'), write_optional (summary_to_ffi s) summary), msg)" using Ok by (simp add: eval)
      ultimately show ?thesis by simp
    next
      case (Err f)
      then have "ff_status f \<noteq> S_Ok" "ff_status f \<noteq> S_Panic" using pack(2,3) by (simp_all add: calm_result_def fails_properly_def)
      moreover have "?call = Some (ff_status f, ((r', w'), summary), set_last_error (ff_message f))" using Err by (simp add: eval)
      ultimately show ?thesis by simp
    qed (use pack in \<open>simp add: calm_result_def\<close>)
  next
    case refused
    then show ?thesis by auto
  qed
qed

text \<open>The witness: one stream that reads from memory, into a file that the host keeps in memory.\<close>

definition demo_streams :: "bytes rasen_stream_input list" where
  "demo_streams = [\<lparr> si_path = Some [0x61], si_path_len = 1, si_read = Some memory_read \<rparr>]"

theorem pack_streams_writes_archive_witness:
  "\<exists>st r' w' s msg'. rasen_pack_streams sample_env (Some demo_streams) 1 (Some [7]) 1 (Some (options_to_ffi demo_options))
        (Some memory_host) (([9, 9, 9, 9, 5], ([], 0)), None) [] = Some (st, ((r', w'), s), msg') \<and> st \<noteq> S_Panic
     \<and> (st = S_Ok \<longrightarrow> archive_of sample_env [demo_file] [7] demo_options (fst w'))"
proof -
  have "\<forall>options. ffi_pack_options (Some (options_to_ffi demo_options)) = Ok options \<longrightarrow> o_chunk_size options \<le> usize_max sample_env"
    by (simp add: options_ffi_inverse) (simp add: demo_options_def demo_max)
  moreover have slice: "raw_slice (Some demo_streams) (Suc 0) name = Ok ins \<longleftrightarrow> ins = demo_streams" for name "ins"
    by (auto simp: raw_slice_def demo_streams_def)
  have "separate_streams demo_streams [\<lambda>r. r]"
    using slice_reader.byte_reader_axioms by (auto simp: separate_streams_def demo_streams_def memory_read_is_slice)
  then have "\<forall>ins. raw_slice (Some demo_streams) 1 ''inputs'' = Ok ins \<longrightarrow> separate_streams ins [\<lambda>r. r]" by (simp add: slice)
  moreover have "\<forall>callbacks. Some memory_host = Some callbacks \<longrightarrow> host_writer callbacks fst snd"
    using memory_host.host_writer_axioms by simp
  moreover have "stream_inputs demo_streams [\<lambda>r. r] [9, 9, 9, 9, 5] files \<longleftrightarrow> files = [demo_file]" for files
    by (auto simp: stream_inputs_def demo_streams_def demo_file_def utf8_def ffi_bytes_def list_all2_Cons1)
  ultimately show ?thesis
    using pack_streams_writes_archive [OF sample_packer_laws, of "Some (options_to_ffi demo_options)" "Some memory_host" fst snd
        "Some demo_streams" 1 "[\<lambda>r. r]" "Some [7]" 1 "[9, 9, 9, 9, 5]" "([], 0)" None "[]"]
    by (auto simp: slice options_ffi_inverse ffi_bytes_def split: if_splits)
qed

text \<open>A call that changes its output only when it succeeds, and the last message only when it fails.\<close>

definition keeps_outputs :: "('s \<Rightarrow> bytes \<Rightarrow> rasen_status \<times> 's \<times> bytes) \<Rightarrow> bool" where
  "keeps_outputs f \<longleftrightarrow> (\<forall>s msg. case f s msg of (st, s', msg') \<Rightarrow> (st \<noteq> S_Ok \<longrightarrow> s' = s) \<and> (st = S_Ok \<longrightarrow> msg' = msg))"

lemma keeps_outputs_call: "quiet m \<Longrightarrow> keeps_outputs (ffi_call m)"
  unfolding keeps_outputs_def by (auto dest: ffi_call_quiet)

text \<open>The same beside a count: the output is the first component of the cells.\<close>

definition keeps_cell :: "('s \<times> nat \<Rightarrow> bytes \<Rightarrow> rasen_status \<times> ('s \<times> nat) \<times> bytes) \<Rightarrow> bool" where
  "keeps_cell f \<longleftrightarrow> (\<forall>s msg. case f s msg of (st, s', msg') \<Rightarrow> (st \<noteq> S_Ok \<longrightarrow> fst s' = fst s) \<and> (st = S_Ok \<longrightarrow> msg' = msg))"

lemma keeps_cell_open_source: "keeps_cell (rasen_archive_open_source E c key key_len l)"
  unfolding keeps_cell_def
proof (intro allI)
  fix s :: "rasen_archive option option \<times> nat" and msg
  obtain cell n where s: "s = (cell, n)" by fastforce
  obtain st cells msg' where call: "rasen_archive_open_source E c key key_len l s msg = (st, cells, msg')" by (rule prod_cases3)
  obtain cell' n' where cells: "cells = (cell', n')" by fastforce
  have "st \<noteq> S_Ok \<Longrightarrow> cell' = cell" using open_source_outcome [OF call [unfolded s cells]] by simp
  moreover have "st = S_Ok \<Longrightarrow> msg' = msg"
    using open_source_message call unfolding s by blast
  ultimately show "case rasen_archive_open_source E c key key_len l s msg of (st, s', msg') \<Rightarrow>
      (st \<noteq> S_Ok \<longrightarrow> fst s' = fst s) \<and> (st = S_Ok \<longrightarrow> msg' = msg)"
    using call by (simp add: s cells)
qed

lemma keeps_cell_scratch_new: "keeps_cell rasen_scratch_new"
  by (auto simp: keeps_cell_def rasen_scratch_new_def ffi_call_def bind_st_def lift_st_def on_fst_def store_out_def
      required_out_def required_def ok_or_def write_out_def failure_def split: option.splits)

text \<open>
  C16: failed calls leave their outputs alone.  This holds for the functions that write a
  handle, a record, a number or a buffer of the library, whatever the handle, pointers and
  lengths they are given: if the status is not \<open>Ok\<close>, the output is as it was before the call;
  if it is, the thread's last message is.  The functions that read into memory of the caller
  are not among them, for they fill it piece by piece before a later piece fails.
\<close>

theorem failed_calls_keep_outputs:
  "keeps_outputs (rasen_archive_open_memory E data n key key_len l)
   \<and> keeps_outputs (rasen_archive_open_file E open_path data n key key_len l)
   \<and> keeps_cell (rasen_archive_open_source E source key key_len l)
   \<and> keeps_outputs (rasen_archive_info_of a) \<and> keeps_outputs (rasen_archive_entry_at a i)
   \<and> keeps_outputs (rasen_archive_entry E a data n) \<and> keeps_outputs (rasen_archive_entry_by_id a asset)
   \<and> keeps_outputs (rasen_archive_contains E a data n) \<and> keeps_outputs (rasen_archive_contains_id a asset)
   \<and> keeps_outputs (rasen_archive_read E a data n) \<and> keeps_outputs (rasen_archive_read_by_id E a asset)
   \<and> keeps_outputs (rasen_archive_read_chunk E a data n c)
   \<and> keeps_outputs (rasen_archive_read_range E a data n offset len)
   \<and> keeps_outputs (rasen_archive_read_range_exact E a data n offset len)
   \<and> keeps_outputs (rasen_hash_path E data n) \<and> keeps_outputs (rasen_normalize_path E data n)
   \<and> keeps_outputs rasen_archive_limits_runtime \<and> keeps_outputs rasen_archive_limits_tooling
   \<and> keeps_outputs rasen_pack_options_default \<and> keeps_cell rasen_scratch_new"
  unfolding rasen_archive_open_memory_def rasen_archive_open_file_def ffi_reads rasen_hash_path_def rasen_normalize_path_def
    rasen_archive_limits_runtime_def rasen_archive_limits_tooling_def rasen_pack_options_default_def
  by (intro conjI keeps_cell_open_source keeps_cell_scratch_new keeps_outputs_call quiet_intros real_failure) simp_all

text \<open>
  C15: no run of a host makes the library panic.  However a host opens archives from memory,
  files and callbacks, queries them and frees them, every later call on a null handle or on
  one it holds, with any arguments, reports something other than a caught panic, and the
  thread's last message is a C string.
\<close>

theorem host_calls_never_panic:
  assumes "env_safe E" "host_reachable E h" "a \<in> insert None (Some ` set (h_archives h))"
  shows "fst (run_query E a q (h_message h)) \<noteq> S_Panic \<and> 0 \<notin> set (snd (run_query E a q (h_message h)))"
proof -
  have ok: "host_ok E h" using host_reachable_ok [OF assms(2,1)] .
  then have "a = Some b \<Longrightarrow> handle_ok E b" for b using assms(3) by (auto simp: host_ok_def)
  then show ?thesis using query_calm [OF assms(1)] query_message ok by (simp add: host_ok_def)
qed

lemma sample_host:
  "\<exists>a. host_reachable sample_env \<lparr> h_archives = [a], h_given = 0, h_destroyed = 0, h_message = [] \<rparr>"
proof -
  let ?a = "\<lparr> ra_inner = demo_archive, ra_source = Memory demo_bytes \<rparr>"
  have "rasen_archive_open_memory sample_env (Some demo_bytes) (length demo_bytes) (Some [7]) (length [7 :: u8]) None (Some None)
      (h_message new_host) = (S_Ok, Some (Some ?a), [])"
    using open_memory_opens [OF ffi_bytes_self ffi_bytes_self, of sample_env demo_bytes "[7]" None demo_archive]
      demo_open by (simp add: ffi_limits_def demo_source_def new_host_def)
  from host_reachable.step [OF host_reachable.start host_step.open_memory [OF this]]
  have "host_reachable sample_env \<lparr> h_archives = [?a], h_given = 0, h_destroyed = 0, h_message = [] \<rparr>"
    by (simp add: opened_def new_host_def)
  then show ?thesis by blast
qed

theorem host_calls_never_panic_witness:
  "\<exists>a msg. host_reachable sample_env \<lparr> h_archives = [a], h_given = 0, h_destroyed = 0, h_message = [] \<rparr>
     \<and> fst (run_query sample_env (Some a) (Q_Read_Into (Some [0x62]) 1 5 (Some [0, 0, 0, 0, 0])) []) \<noteq> S_Panic"
proof -
  obtain a where a: "host_reachable sample_env \<lparr> h_archives = [a], h_given = 0, h_destroyed = 0, h_message = [] \<rparr>"
    using sample_host by blast
  from host_calls_never_panic [OF sample_env_safe this, of "Some a"] a show ?thesis by auto
qed

text \<open>
  C14: a source given to the library is destroyed exactly once.  In every state a host can
  reach, the number of callback sources with a destroy callback that were handed to
  \<open>rasen_archive_open_source\<close> is the number of calls of destroy callbacks plus those that
  handles still own; once every handle is freed, each has been destroyed, and none twice.
\<close>

theorem sources_destroyed_once:
  assumes "env_safe E" "host_reachable E h"
  shows "h_given h = h_destroyed h + live_sources (h_archives h) \<and> (h_archives h \<noteq> [] \<or> h_given h = h_destroyed h)"
  using host_reachable_ok [OF assms(2,1)] by (auto simp: host_ok_def live_sources_def)

text \<open>The witness: opening fails because the source has no read callback; the source is destroyed.\<close>

definition deaf_source :: callback_source where
  "deaf_source = \<lparr> cb_len = 210, cb_read_at = None, cb_destroy = True \<rparr>"

theorem sources_destroyed_once_witness:
  "\<exists>h. host_reachable sample_env h \<and> h_given h = 1 \<and> h_destroyed h + live_sources (h_archives h) = 1"
proof -
  obtain st out n msg where c: "rasen_archive_open_source sample_env deaf_source None 0 None (Some None, h_destroyed new_host)
      (h_message new_host) = (st, (out, n), msg)" by (metis prod.collapse)
  moreover have "\<exists>o'. out = Some o'" using open_source_outcome [OF c] by (auto split: if_splits)
  ultimately obtain o' where "rasen_archive_open_source sample_env deaf_source None 0 None (Some None, h_destroyed new_host)
      (h_message new_host) = (st, (Some o', n), msg)" by auto
  moreover have "callback_safe deaf_source" by (simp add: callback_safe_def deaf_source_def)
  ultimately have "host_step sample_env new_host
      ((opened new_host o' msg)\<lparr> h_given := h_given new_host + of_bool (cb_destroy deaf_source), h_destroyed := n \<rparr>)"
    by (metis host_step.open_source)
  from host_reachable.step [OF host_reachable.start this] obtain h where h: "host_reachable sample_env h" "h_given h = 1"
    by (simp add: new_host_def deaf_source_def)
  from sources_destroyed_once [OF sample_env_safe h(1)] h show ?thesis by auto
qed

section \<open>Where the code departs from the header\<close>

text \<open>
  The header promises that outputs are unchanged on error.  A range read whose count pointer
  is null has filled the caller's buffer when it reports the null pointer, and creating a
  scratch handle with a null output leaves the handle allocated for ever.
\<close>

lemma null_count_fills_buffer:
  assumes "utf8 path n ''path'' = Ok p" "0 < len" "read_range_into E (ra_inner a) p offset (take len memory) = (Ok k, dst)"
  shows "rasen_archive_read_range_into E (Some a) path n offset len (Some memory, None) msg
    = (S_NullPointer, (Some (dst @ drop len memory), None), set_last_error (chars ''out_read is null''))"
  using assms
  by (simp add: rasen_archive_read_range_into_def ffi_call_def bind_st_def lift_st_def archive_ref_def on_fst_def on_snd_def
      on_bytes_mut_def core_st_def from_core_def store_out_def required_out_def required_def failure_def)

lemma null_scratch_leaks:
  "rasen_scratch_new (None, live) msg = (S_NullPointer, (None, Suc live), set_last_error (chars ''out is null''))"
  by (simp add: rasen_scratch_new_def ffi_call_def bind_st_def lift_st_def on_fst_def store_out_def required_out_def
      required_def failure_def)

end
