(* ===== verification/Cli_Text.thy ===== *)
theory Cli_Text
  imports Packer Error_Text
begin

text \<open>
  What the commands print (\<open>commands.rs\<close>): the lines as the standard library's formatting
  gives them, without the newline that \<open>println!\<close> adds.
\<close>

section \<open>Formatting\<close>

text \<open>\<open>{:<width}\<close> of a number.\<close>

definition padded_decimal :: "nat \<Rightarrow> nat \<Rightarrow> bytes" where
  "padded_decimal width n = chars (decimal n @ replicate (width - length (decimal n)) (CHR '' ''))"

definition bool_text :: "bool \<Rightarrow> string" where
  "bool_text b = (if b then ''true'' else ''false'')"

section \<open>Ratios\<close>

text \<open>
  Ratios are \<open>f64\<close> values.  The model has them as fractions of natural numbers: a quotient is
  rounded to the nearest binary64 number, ties to even, with a significand of 53 bits.  The
  sizes have 64 bits, so that no value here is too large or too small for a normal number.
\<close>

definition round_half_even :: "nat \<Rightarrow> nat \<Rightarrow> nat" where
  "round_half_even n d =
     (let q = n div d; r = n mod d in if d < 2 * r \<or> d = 2 * r \<and> odd q then q + 1 else q)"

fun bit_length :: "nat \<Rightarrow> nat" where
  "bit_length n = (if n = 0 then 0 else Suc (bit_length (n div 2)))"

declare bit_length.simps [simp del]

definition f64_nearest :: "nat \<Rightarrow> nat \<Rightarrow> nat \<times> nat" where
  "f64_nearest n d =
     (if n = 0 then (0, 1)
      else let up = bit_length d + 53 - bit_length n; down = bit_length n - (bit_length d + 53);
               a = n * 2 ^ up; b = d * 2 ^ down in
        if 2 ^ 53 * b \<le> a then (round_half_even a (2 * b) * 2 ^ (down + 1), 2 ^ up)
        else (round_half_even a b * 2 ^ down, 2 ^ up))"

text \<open>\<open>stored as f64 / size as f64\<close>: each conversion rounds, and so does the division.\<close>

definition f64_quotient :: "nat \<Rightarrow> nat \<Rightarrow> nat \<times> nat" where
  "f64_quotient stored original =
     (let (a, b) = f64_nearest stored 1; (c, d) = f64_nearest original 1 in f64_nearest (a * d) (b * c))"

definition size_ratio :: "nat \<Rightarrow> nat \<Rightarrow> nat \<times> nat" where
  "size_ratio original stored = (if original = 0 then (1, 1) else f64_quotient stored original)"

text \<open>\<open>{:.places}\<close> of a ratio.\<close>

definition fixed_decimal :: "nat \<Rightarrow> nat \<times> nat \<Rightarrow> string" where
  "fixed_decimal places ratio =
     (let v = round_half_even (fst ratio * 10 ^ places) (snd ratio); digits = decimal (v mod 10 ^ places) in
        decimal (v div 10 ^ places) @ ''.'' @ replicate (places - length digits) (CHR ''0'') @ digits)"

text \<open>Rounding is off by at most half a unit.\<close>

lemma round_half_even_near:
  assumes "0 < d"
  shows "2 * (round_half_even n d * d) \<le> 2 * n + d" "2 * n \<le> 2 * (round_half_even n d * d) + d"
proof -
  define q where "q = n div d"
  have n: "n = q * d + n mod d" "n mod d < d" using assms by (simp_all add: q_def)
  have r: "round_half_even n d = (if d < 2 * (n mod d) \<or> d = 2 * (n mod d) \<and> odd q then q + 1 else q)"
    by (simp add: round_half_even_def Let_def q_def)
  have "2 * (round_half_even n d * d) \<le> 2 * n + d \<and> 2 * n \<le> 2 * (round_half_even n d * d) + d"
  proof (cases "d < 2 * (n mod d) \<or> d = 2 * (n mod d) \<and> odd q")
    case True
    then have "round_half_even n d * d = q * d + d" "d \<le> 2 * (n mod d)" by (auto simp: r)
    with n show ?thesis by linarith
  next
    case False
    then have "round_half_even n d * d = q * d" "2 * (n mod d) \<le> d" by (auto simp: r)
    with n show ?thesis by linarith
  qed
  then show "2 * (round_half_even n d * d) \<le> 2 * n + d" "2 * n \<le> 2 * (round_half_even n d * d) + d" by simp_all
qed

section \<open>Lines\<close>

definition archive_mode :: "archive \<Rightarrow> string" where
  "archive_mode A = (if a_paths_stripped A then ''production'' else ''debug'')"

text \<open>The first line of a listing ends with a newline of its own.\<close>

definition listing_head :: "archive \<Rightarrow> bytes" where
  "listing_head A = chars (''mode='' @ archive_mode A @ '', protection='' @ protection_to_string (a_protection A)
     @ '', chunk='' @ decimal (unat (a_chunk_size A)) @ '' bytes, alignment='' @ decimal (unat (a_alignment A)) @ '' bytes'') @ [10]"

definition listing_row :: "archive \<Rightarrow> entry \<Rightarrow> bytes" where
  "listing_row A entry =
     padded_hex 16 (en_path_hash entry)
     @ chars ''  chunks='' @ padded_decimal 4 (unat (en_chunk_count entry))
     @ chars '' stored='' @ padded_decimal 10 (unat (en_stored_size entry))
     @ chars '' original='' @ padded_decimal 10 (unat (en_original_size entry))
     @ chars ('' ratio='' @ fixed_decimal 3 (size_ratio (unat (en_original_size entry)) (unat (en_stored_size entry))) @ ''  '')
     @ (if a_paths_stripped A then [] else en_path entry)"

definition verify_line :: "nat \<Rightarrow> nat \<Rightarrow> bytes" where
  "verify_line entries chunks = chars (''verified '' @ decimal entries @ '' entries, '' @ decimal chunks @ '' chunks'')"

definition info_lines :: "archive \<Rightarrow> nat \<Rightarrow> nat \<Rightarrow> nat \<Rightarrow> nat \<Rightarrow> bytes list" where
  "info_lines A archive_size chunk_count original_bytes stored_bytes = map chars
     [''format_version='' @ decimal (unat VERSION),
      ''mode='' @ archive_mode A,
      ''archive_bytes='' @ decimal archive_size,
      ''entry_count='' @ decimal (length (a_entries A)),
      ''chunk_count='' @ decimal chunk_count,
      ''chunk_size='' @ decimal (unat (a_chunk_size A)),
      ''alignment='' @ decimal (unat (a_alignment A)),
      ''original_bytes='' @ decimal original_bytes,
      ''stored_bytes='' @ decimal stored_bytes,
      ''compression_ratio='' @ fixed_decimal 6 (size_ratio original_bytes stored_bytes),
      ''paths_stripped='' @ bool_text (a_paths_stripped A),
      ''protection='' @ protection_to_string (a_protection A)]"

text \<open>\<open>display\<close> is the lossy text of the output's path.\<close>

definition pack_line :: "string \<Rightarrow> pack_options \<Rightarrow> pack_summary \<Rightarrow> bytes" where
  "pack_line display options summary = chars (''packed '' @ decimal (unat (ps_entry_count summary)) @ '' files, ''
     @ decimal (unat (ps_chunk_count summary)) @ '' chunks, '' @ decimal (unat (ps_archive_len summary)) @ '' bytes -> '' @ display
     @ '' (mode='' @ pack_mode_to_string (o_mode options) @ '', protection='' @ protection_to_string (o_protection options)
     @ '', chunk='' @ decimal (o_chunk_size options div 1024) @ '' KiB, align='' @ decimal (unat (o_alignment options)) @ '')'')"

end
