(* ===== verification/Cli.thy ===== *)
theory Cli
  imports File_Store Cli_Text "HOL-Library.List_Lexorder"
begin

text \<open>
  The command-line packer (\<open>rasen-packer\<close>): its options and dispatch (\<open>main.rs\<close>), and the
  commands (\<open>commands.rs\<close>), with what they print.  Parsing the command line is the library
  \<open>clap\<close>'s.
\<close>

section \<open>Paths of the operating system\<close>

text \<open>
  An absolute path is the list of its components behind the root; \<open>..\<close> may occur, since
  \<open>path::absolute\<close> does not resolve it.  \<open>file_name\<close> is the last component if it is a name.
\<close>

datatype component = Normal bytes | Parent_Dir

type_synonym os_path = "component list"

definition file_name :: "os_path \<Rightarrow> bytes option" where
  "file_name p = (if p = [] then None else case List.last p of Normal n \<Rightarrow> Some n | Parent_Dir \<Rightarrow> None)"

definition parent_path :: "os_path \<Rightarrow> os_path option" where
  "parent_path p = (if p = [] then None else Some (butlast p))"

definition join_path :: "os_path \<Rightarrow> bytes \<Rightarrow> os_path" where
  "join_path p name = p @ [Normal name]"

definition strip_path_prefix :: "os_path \<Rightarrow> os_path \<Rightarrow> os_path option" where
  "strip_path_prefix p base = (if take (length base) p = base then Some (drop (length base) p) else None)"

definition component_bytes :: "component \<Rightarrow> bytes" where
  "component_bytes c = (case c of Normal n \<Rightarrow> n | Parent_Dir \<Rightarrow> [dot, dot])"

fun path_bytes :: "os_path \<Rightarrow> bytes" where
  "path_bytes [] = []"
| "path_bytes [c] = component_bytes c"
| "path_bytes (c # cs) = component_bytes c @ [slash] @ path_bytes cs"

definition path_to_str :: "os_path \<Rightarrow> bytes option" where
  "path_to_str p = (if utf8_valid (path_bytes p) then Some (path_bytes p) else None)"

section \<open>Errors and the operating system\<close>

text \<open>The kinds of \<open>Box<dyn Error>\<close> that the commands return.\<close>

datatype cli_error = Cli_Error error | Cli_Io io_error | Cli_Prefix

definition invalid_arg :: "string \<Rightarrow> io_error" where
  "invalid_arg message = IoError KInvalidInput message"

record file_type =
  ft_is_dir :: bool
  ft_is_file :: bool

record dir_entry =
  de_name :: bytes
  de_type :: "(file_type, io_error) res"

text \<open>
  The operating system, beyond creating and removing files: the first two operations take a
  path as the user wrote it.  \<open>os_open\<close> gives a reader with its own state, \<open>os_source\<close> a
  source.  The writer of a new file stands for the file behind a \<open>BufWriter\<close>, which
  \<open>os_flush\<close> empties.  \<open>os_process_id\<close> and \<open>os_stamp\<close> are the numbers in temporary names,
  \<open>os_display\<close> is the lossy display of a path.  \<open>os_print\<close> writes to the standard output.
\<close>

record ('fs, 'r) operating_system = "(os_path, 'fs) file_system" +
  os_absolute :: "bytes \<Rightarrow> (os_path, io_error) res"
  os_canonicalize_arg :: "bytes \<Rightarrow> 'fs \<Rightarrow> (os_path, io_error) res"
  os_canonicalize :: "os_path \<Rightarrow> 'fs \<Rightarrow> (os_path, io_error) res"
  os_read_dir :: "os_path \<Rightarrow> 'fs \<Rightarrow> ((dir_entry, io_error) res list, io_error) res"
  os_open :: "os_path \<Rightarrow> 'fs \<Rightarrow> ('r reader \<times> 'r, io_error) res"
  os_flush :: "os_path \<Rightarrow> ('fs, unit, io_error) stm"
  os_sync_all :: "os_path \<Rightarrow> ('fs, unit, io_error) stm"
  os_rename :: "os_path \<Rightarrow> os_path \<Rightarrow> ('fs, unit, io_error) stm"
  os_write :: "bytes \<Rightarrow> bytes \<Rightarrow> ('fs, unit, io_error) stm"
  os_source :: "bytes \<Rightarrow> 'fs \<Rightarrow> (source, io_error) res"
  os_print :: "bytes \<Rightarrow> ('fs, unit, io_error) stm"
  os_process_id :: nat
  os_stamp :: nat
  os_display :: "os_path \<Rightarrow> string"

definition cli_io :: "('a, io_error) res \<Rightarrow> ('a, cli_error) res" where
  "cli_io r = map_err Cli_Io r"

section \<open>Options\<close>

datatype mode_arg = Mode_Debug | Mode_Production
datatype protection_arg = Arg_Xor | Arg_Aead

record pack_args =
  pa_input_dir :: bytes
  pa_archive :: bytes
  pa_mode :: mode_arg
  pa_protection :: protection_arg
  pa_chunk_kib :: "usize option"
  pa_alignment :: "u32 option"

definition mode_of_arg :: "mode_arg \<Rightarrow> pack_mode" where
  "mode_of_arg m = (case m of Mode_Debug \<Rightarrow> Debug | Mode_Production \<Rightarrow> Production)"

definition protection_of_arg :: "protection_arg \<Rightarrow> protection" where
  "protection_of_arg p = (case p of Arg_Xor \<Rightarrow> Xor | Arg_Aead \<Rightarrow> Aead)"

definition pack_args_options :: "env \<Rightarrow> pack_args \<Rightarrow> (pack_options, io_error) res" where
  "pack_args_options E args =
     (let options = default_pack_options\<lparr> o_mode := mode_of_arg (pa_mode args),
                                          o_protection := protection_of_arg (pa_protection args) \<rparr> in
      bind_res (case pa_chunk_kib args of
                  None \<Rightarrow> Ok options
                | Some chunk_kib \<Rightarrow>
                    bind_res (ok_or (usize_mul E chunk_kib 1024) (IoError KInvalidInput ''chunk size overflow'')) (\<lambda>size.
                      Ok (options\<lparr> o_chunk_size := size \<rparr>))) (\<lambda>options.
        Ok (case pa_alignment args of None \<Rightarrow> options | Some a \<Rightarrow> options\<lparr> o_alignment := a \<rparr>)))"

section \<open>Collecting the input files\<close>

definition normalized_output_path :: "('fs, 'r) operating_system \<Rightarrow> bytes \<Rightarrow> 'fs \<Rightarrow> (os_path, io_error) res" where
  "normalized_output_path os output fs =
     bind_res (os_absolute os output) (\<lambda>absolute.
     bind_res (ok_or (file_name absolute) (invalid_arg ''output has no file name'')) (\<lambda>name.
     bind_res (ok_or (parent_path absolute) (invalid_arg ''output has no parent directory'')) (\<lambda>dir.
     bind_res (os_canonicalize os dir fs) (\<lambda>parent.
       Ok (join_path parent name)))))"

text \<open>The name in the archive of a file below the root.\<close>

definition virtual_path :: "env \<Rightarrow> ('fs, 'r) operating_system \<Rightarrow> os_path \<Rightarrow> os_path \<Rightarrow> (bytes, cli_error) res" where
  "virtual_path E os root disk_path =
     bind_res (ok_or (strip_path_prefix disk_path root) Cli_Prefix) (\<lambda>relative.
     bind_res (ok_or (path_to_str relative)
                (Cli_Io (invalid_arg (''input path is not valid UTF-8: '' @ os_display os relative)))) (\<lambda>path.
       map_err Cli_Error (normalize_path E path)))"

text \<open>The entries of one directory: directories are pushed, files are appended.\<close>

fun collect_entries ::
  "env \<Rightarrow> ('fs, 'r) operating_system \<Rightarrow> os_path \<Rightarrow> os_path \<Rightarrow> os_path option \<Rightarrow> os_path \<Rightarrow>
     (dir_entry, io_error) res list \<Rightarrow> os_path list \<times> (bytes \<times> os_path) list \<Rightarrow>
     (os_path list \<times> (bytes \<times> os_path) list, cli_error) res" where
  "collect_entries E os root output existing dir [] found = Ok found"
| "collect_entries E os root output existing dir (e # es) found =
     bind_res (cli_io e) (\<lambda>entry.
     bind_res (cli_io (de_type entry)) (\<lambda>file_type.
     let disk_path = join_path dir (de_name entry);
         excluded = (disk_path = output \<or> existing = Some disk_path) in
     if ft_is_dir file_type then
       collect_entries E os root output existing dir es (fst found @ [disk_path], snd found)
     else if ft_is_file file_type \<and> \<not> excluded then
       bind_res (virtual_path E os root disk_path) (\<lambda>path.
         collect_entries E os root output existing dir es (fst found, snd found @ [(path, disk_path)]))
     else collect_entries E os root output existing dir es found))"

partial_function (option) collect_loop ::
  "env \<Rightarrow> ('fs, 'r) operating_system \<Rightarrow> os_path \<Rightarrow> os_path \<Rightarrow> os_path option \<Rightarrow> 'fs \<Rightarrow>
     os_path list \<times> (bytes \<times> os_path) list \<Rightarrow> ((bytes \<times> os_path) list, cli_error) res option" where
  "collect_loop E os root output existing fs found =
     (if fst found = [] then Some (Ok (snd found))
      else let dir = List.last (fst found) in
        case bind_res (cli_io (os_read_dir os dir fs)) (\<lambda>es.
               collect_entries E os root output existing dir es (butlast (fst found), snd found)) of
          Ok found' \<Rightarrow> collect_loop E os root output existing fs found'
        | Err e \<Rightarrow> Some (Err e)
        | Panic \<Rightarrow> Some Panic)"

definition collect_files ::
  "env \<Rightarrow> ('fs, 'r) operating_system \<Rightarrow> os_path \<Rightarrow> os_path \<Rightarrow> os_path option \<Rightarrow> 'fs \<Rightarrow>
     ((bytes \<times> os_path) list, cli_error) res option" where
  "collect_files E os root output existing fs = collect_loop E os root output existing fs ([root], [])"

section \<open>The temporary file\<close>

fun lower_hex :: "nat \<Rightarrow> string" where
  "lower_hex n = (if n < 16 then [char_of (unat (hex_digit n))] else lower_hex (n div 16) @ [char_of (unat (hex_digit (n mod 16)))])"

declare lower_hex.simps [simp del]

definition temp_name :: "('fs, 'r) operating_system \<Rightarrow> bytes \<Rightarrow> nat \<Rightarrow> bytes" where
  "temp_name os name attempt =
     name @ chars (''.tmp.'' @ decimal (os_process_id os) @ ''.'' @ lower_hex (os_stamp os) @ ''.'' @ decimal attempt)"

fun create_temp_loop ::
  "('fs, 'r) operating_system \<Rightarrow> os_path \<Rightarrow> bytes \<Rightarrow> nat list \<Rightarrow> ('fs, os_path \<times> 'fs writer, io_error) stm" where
  "create_temp_loop os parent name [] = lift_st (Err (IoError KAlreadyExists ''could not allocate temporary output name''))"
| "create_temp_loop os parent name (attempt # attempts) = (\<lambda>fs.
     let path = join_path parent (temp_name os name attempt) in
     case fs_create_new os path fs of
       (Ok W, fs') \<Rightarrow> (Ok (path, W), fs')
     | (Err e, fs') \<Rightarrow>
         if io_kind_of e = KAlreadyExists then create_temp_loop os parent name attempts fs' else (Err e, fs')
     | (Panic, fs') \<Rightarrow> (Panic, fs'))"

definition create_temp :: "('fs, 'r) operating_system \<Rightarrow> os_path \<Rightarrow> ('fs, os_path \<times> 'fs writer, io_error) stm" where
  "create_temp os output =
     bind_st (lift_st (ok_or (parent_path output) (invalid_arg ''output has no parent directory''))) (\<lambda>parent.
     bind_st (lift_st (ok_or (file_name output) (invalid_arg ''output has no file name''))) (\<lambda>name.
       create_temp_loop os parent name [0..<128]))"

section \<open>Packing a directory\<close>

definition io_step :: "('s, 'a, io_error) stm \<Rightarrow> ('s, 'a, cli_error) stm" where
  "io_step m = (\<lambda>s. case m s of (r, s') \<Rightarrow> (cli_io r, s'))"

fun add_disk_files ::
  "env \<Rightarrow> ('fs, 'r) operating_system \<Rightarrow> 'fs writer \<Rightarrow> (bytes \<times> os_path) list \<Rightarrow> 'fs \<times> packer \<Rightarrow>
     ((unit, cli_error) res \<times> 'fs \<times> packer) option" where
  "add_disk_files E os W [] s = Some (Ok (), s)"
| "add_disk_files E os W ((virtual, disk) # files) s =
     (case cli_io (os_open os disk (fst s)) of
        Ok (rd, r) \<Rightarrow>
          (case add_reader E W rd virtual r s of
             None \<Rightarrow> None
           | Some (Ok u, r', s') \<Rightarrow> add_disk_files E os W files s'
           | Some (Err e, r', s') \<Rightarrow> Some (Err (Cli_Error e), s')
           | Some (Panic, r', s') \<Rightarrow> Some (Panic, s'))
      | Err e \<Rightarrow> Some (Err e, s)
      | Panic \<Rightarrow> Some (Panic, s))"

text \<open>The end of the closure: the file reaches the disk and takes the name of the output.\<close>

definition publish ::
  "('fs, 'r) operating_system \<Rightarrow> os_path \<Rightarrow> os_path \<Rightarrow> pack_summary \<Rightarrow> ('fs, pack_summary, cli_error) stm" where
  "publish os temp_path output summary =
     bind_st (io_step (os_flush os temp_path)) (\<lambda>_.
     bind_st (io_step (os_sync_all os temp_path)) (\<lambda>_.
     bind_st (io_step (os_rename os temp_path output)) (\<lambda>_.
       lift_st (Ok summary))))"

definition pack_temp ::
  "env \<Rightarrow> ('fs, 'r) operating_system \<Rightarrow> os_path \<Rightarrow> 'fs writer \<Rightarrow> os_path \<Rightarrow> (bytes \<times> os_path) list \<Rightarrow> bytes \<Rightarrow> pack_options \<Rightarrow>
     'fs \<Rightarrow> ((pack_summary, cli_error) res \<times> 'fs) option" where
  "pack_temp E os temp_path W output files key options fs =
     (case packer_new E W key options fs of
        (Err e, fs) \<Rightarrow> Some (Err (Cli_Error e), fs)
      | (Panic, fs) \<Rightarrow> Some (Panic, fs)
      | (Ok p, fs) \<Rightarrow>
          (case add_disk_files E os W files (fs, p) of
             None \<Rightarrow> None
           | Some (Err e, fs, p) \<Rightarrow> Some (Err e, fs)
           | Some (Panic, fs, p) \<Rightarrow> Some (Panic, fs)
           | Some (Ok u, fs, p) \<Rightarrow>
               (case finish E W (fs, p) of
                  (Ok summary, fs, p) \<Rightarrow> Some (publish os temp_path output summary fs)
                | (Err e, fs, p) \<Rightarrow> Some (Err (Cli_Error e), fs)
                | (Panic, fs, p) \<Rightarrow> Some (Panic, fs))))"

text \<open>
  \<open>sort_unstable_by\<close> on the names: the order of equal names, which the packer refuses anyway,
  is the stable one here.
\<close>

definition sort_files :: "(bytes \<times> os_path) list \<Rightarrow> (bytes \<times> os_path) list" where
  "sort_files files = sort_key (\<lambda>f. map unat (fst f)) files"

definition existing_path :: "('fs, 'r) operating_system \<Rightarrow> os_path \<Rightarrow> 'fs \<Rightarrow> (os_path option, io_error) res" where
  "existing_path os output fs =
     (case os_canonicalize os output fs of
        Ok path \<Rightarrow> Ok (Some path)
      | Err e \<Rightarrow> if io_kind_of e = KNotFound then Ok None else Err e
      | Panic \<Rightarrow> Panic)"

text \<open>A failed attempt to remove the temporary file only prints a warning.\<close>

definition remove_temp ::
  "('fs, 'r) operating_system \<Rightarrow> os_path \<Rightarrow> (pack_summary, cli_error) res \<times> 'fs \<Rightarrow> (pack_summary, cli_error) res \<times> 'fs" where
  "remove_temp os temp_path result =
     (case result of
        (Err e, fs) \<Rightarrow> (Err e, snd (fs_remove_file os temp_path fs))
      | _ \<Rightarrow> result)"

definition pack_dir ::
  "env \<Rightarrow> ('fs, 'r) operating_system \<Rightarrow> bytes \<Rightarrow> bytes \<Rightarrow> pack_options \<Rightarrow> bytes \<Rightarrow> 'fs \<Rightarrow>
     ((pack_summary, cli_error) res \<times> 'fs) option" where
  "pack_dir E os root output options key fs =
     (case bind_res (cli_io (os_canonicalize_arg os root fs)) (\<lambda>root.
           bind_res (cli_io (normalized_output_path os output fs)) (\<lambda>output.
           bind_res (cli_io (existing_path os output fs)) (\<lambda>existing.
             Ok (root, output, existing)))) of
        Err e \<Rightarrow> Some (Err e, fs)
      | Panic \<Rightarrow> Some (Panic, fs)
      | Ok (root, output, existing) \<Rightarrow>
          (case collect_files E os root output existing fs of
             None \<Rightarrow> None
           | Some (Err e) \<Rightarrow> Some (Err e, fs)
           | Some Panic \<Rightarrow> Some (Panic, fs)
           | Some (Ok files) \<Rightarrow>
               (case create_temp os output fs of
                  (Err e, fs) \<Rightarrow> Some (Err (Cli_Io e), fs)
                | (Panic, fs) \<Rightarrow> Some (Panic, fs)
                | (Ok (temp_path, W), fs) \<Rightarrow>
                    map_option (remove_temp os temp_path)
                      (pack_temp E os temp_path W output (sort_files files) key options fs))))"

section \<open>Printing\<close>

text \<open>\<open>println!\<close> panics if the standard output cannot be written.\<close>

definition print_line :: "('fs, 'r) operating_system \<Rightarrow> bytes \<Rightarrow> ('fs, unit, cli_error) stm" where
  "print_line os line = (\<lambda>fs. case os_print os (line @ [10]) fs of
      (Ok u, fs') \<Rightarrow> (Ok (), fs')
    | (Err e, fs') \<Rightarrow> (Panic, fs')
    | (Panic, fs') \<Rightarrow> (Panic, fs'))"

fun print_lines :: "('fs, 'r) operating_system \<Rightarrow> bytes list \<Rightarrow> ('fs, unit, cli_error) stm" where
  "print_lines os [] = lift_st (Ok ())"
| "print_lines os (line # lines) = bind_st (print_line os line) (\<lambda>_. print_lines os lines)"

text \<open>
  The whole of the source's \<open>pack_dir\<close>: the model's \<open>pack_dir\<close> returns the summary, and the
  line names the output as it was resolved before packing.
\<close>

definition pack_and_report ::
  "env \<Rightarrow> ('fs, 'r) operating_system \<Rightarrow> bytes \<Rightarrow> bytes \<Rightarrow> pack_options \<Rightarrow> bytes \<Rightarrow> 'fs \<Rightarrow>
     ((unit, cli_error) res \<times> 'fs) option" where
  "pack_and_report E os root output options key fs =
     map_option (\<lambda>(r, fs').
         bind_st (lift_st r) (\<lambda>summary.
         bind_st (lift_st (cli_io (normalized_output_path os output fs))) (\<lambda>target.
           print_line os (pack_line (os_display os target) options summary))) fs')
       (pack_dir E os root output options key fs)"

section \<open>Reading commands\<close>

definition open_tooling :: "env \<Rightarrow> ('fs, 'r) operating_system \<Rightarrow> bytes \<Rightarrow> bytes \<Rightarrow> 'fs \<Rightarrow> (archive, cli_error) res" where
  "open_tooling E os path key fs =
     bind_res (cli_io (os_source os path fs)) (\<lambda>file.
       map_err Cli_Error (open_with_limits E file key tooling_default))"

definition list_archive :: "env \<Rightarrow> ('fs, 'r) operating_system \<Rightarrow> bytes \<Rightarrow> bytes \<Rightarrow> ('fs, unit, cli_error) stm" where
  "list_archive E os path key = (\<lambda>fs.
     bind_st (lift_st (open_tooling E os path key fs)) (\<lambda>A.
     bind_st (print_line os (listing_head A)) (\<lambda>_.
       print_lines os (map (listing_row A) (a_entries A)))) fs)"

text \<open>The checked sums over the entries.\<close>

fun sum_entries :: "(entry \<Rightarrow> u64) \<Rightarrow> string \<Rightarrow> entry list \<Rightarrow> u64 \<Rightarrow> (u64, cli_error) res" where
  "sum_entries f message [] acc = Ok acc"
| "sum_entries f message (entry # entries) acc =
     bind_res (ok_or (checked_add acc (f entry)) (Cli_Io (invalid_arg message))) (\<lambda>acc.
       sum_entries f message entries acc)"

definition verify_archive :: "env \<Rightarrow> ('fs, 'r) operating_system \<Rightarrow> bytes \<Rightarrow> bytes \<Rightarrow> ('fs, unit, cli_error) stm" where
  "verify_archive E os path key = (\<lambda>fs.
     bind_st (lift_st (open_tooling E os path key fs)) (\<lambda>A.
     bind_st (lift_st (map_err Cli_Error (verify E A))) (\<lambda>_.
     bind_st (lift_st (sum_entries (\<lambda>entry. ucast (en_chunk_count entry)) ''chunk count overflow'' (a_entries A) 0)) (\<lambda>chunk_count.
       print_line os (verify_line (length (a_entries A)) (unat chunk_count))))) fs)"

text \<open>The loop adds the three sums entry by entry, in this order.\<close>

fun info_sums :: "entry list \<Rightarrow> u64 \<times> u64 \<times> u64 \<Rightarrow> (u64 \<times> u64 \<times> u64, cli_error) res" where
  "info_sums [] sums = Ok sums"
| "info_sums (entry # entries) (chunks, original, stored) =
     bind_res (ok_or (checked_add chunks (ucast (en_chunk_count entry))) (Cli_Io (invalid_arg ''chunk count overflow''))) (\<lambda>chunks.
     bind_res (ok_or (checked_add original (en_original_size entry)) (Cli_Io (invalid_arg ''original byte count overflow''))) (\<lambda>original.
     bind_res (ok_or (checked_add stored (en_stored_size entry)) (Cli_Io (invalid_arg ''stored byte count overflow''))) (\<lambda>stored.
       info_sums entries (chunks, original, stored))))"

definition info_archive :: "env \<Rightarrow> ('fs, 'r) operating_system \<Rightarrow> bytes \<Rightarrow> bytes \<Rightarrow> ('fs, unit, cli_error) stm" where
  "info_archive E os path key = (\<lambda>fs.
     bind_st (lift_st (cli_io (os_source os path fs))) (\<lambda>file.
     bind_st (lift_st (cli_io (src_len file))) (\<lambda>archive_size.
     bind_st (lift_st (map_err Cli_Error (open_with_limits E file key tooling_default))) (\<lambda>A.
     bind_st (lift_st (info_sums (a_entries A) (0, 0, 0))) (\<lambda>(chunks, original, stored).
       print_lines os (info_lines A (unat archive_size) (unat chunks) (unat original) (unat stored)))))) fs)"

definition extract_one ::
  "env \<Rightarrow> ('fs, 'r) operating_system \<Rightarrow> bytes \<Rightarrow> bytes \<Rightarrow> bytes \<Rightarrow> bytes \<Rightarrow> ('fs, unit, cli_error) stm" where
  "extract_one E os archive_path virtual output key = (\<lambda>fs.
     bind_st (lift_st (open_tooling E os archive_path key fs)) (\<lambda>A.
     bind_st (lift_st (map_err Cli_Error (read E A virtual))) (\<lambda>data.
       io_step (os_write os output data))) fs)"

section \<open>Dispatch\<close>

definition DEFAULT_KEY :: bytes where
  "DEFAULT_KEY = chars ''example-key''"

datatype command =
    Pack_Command pack_args
  | List_Command bytes
  | Verify_Command bytes
  | Info_Command bytes
  | Extract_Command bytes bytes bytes

definition run_command ::
  "env \<Rightarrow> ('fs, 'r) operating_system \<Rightarrow> bytes \<Rightarrow> command \<Rightarrow> 'fs \<Rightarrow> ((unit, cli_error) res \<times> 'fs) option" where
  "run_command E os key command fs =
     (case command of
        Pack_Command args \<Rightarrow>
          (case cli_io (pack_args_options E args) of
             Ok options \<Rightarrow> pack_and_report E os (pa_input_dir args) (pa_archive args) options key fs
           | Err e \<Rightarrow> Some (Err e, fs)
           | Panic \<Rightarrow> Some (Panic, fs))
      | List_Command archive \<Rightarrow> Some (list_archive E os archive key fs)
      | Verify_Command archive \<Rightarrow> Some (verify_archive E os archive key fs)
      | Info_Command archive \<Rightarrow> Some (info_archive E os archive key fs)
      | Extract_Command archive virtual output \<Rightarrow> Some (extract_one E os archive virtual output key fs))"

end
