(* ===== verification/Cli_Correct.thy ===== *)
theory Cli_Correct
  imports Cli Pack_Roundtrip
begin

text \<open>
  Correctness of the commands: what \<open>pack\<close> collects, that collecting ends on finite trees, and
  that packing a directory replaces the output in one step or not at all.
\<close>

section \<open>What the commands rely on\<close>

text \<open>
  A file behind a \<open>BufWriter\<close>: the writer is a seekable writer of the contents; until it is
  flushed the path may show less than that, and no other path changes.
\<close>

definition buffered_file ::
  "('fs \<Rightarrow> os_path \<Rightarrow> bytes option) \<Rightarrow> os_path \<Rightarrow> 'fs writer \<Rightarrow> ('fs, unit, io_error) stm \<Rightarrow> ('fs \<Rightarrow> bytes) \<Rightarrow> ('fs \<Rightarrow> nat) \<Rightarrow> bool" where
  "buffered_file files p W flush content pos \<longleftrightarrow> seek_writer W content pos
     \<and> (\<forall>base. writer_keeps (\<lambda>fs. \<exists>c. files fs = base(p \<mapsto> c)) W)
     \<and> (\<forall>base c fs. files fs = base(p \<mapsto> c) \<longrightarrow>
          (case flush fs of
             (Ok _, fs') \<Rightarrow> files fs' = base(p \<mapsto> content fs)
           | (Err e, fs') \<Rightarrow> \<exists>c'. files fs' = base(p \<mapsto> c')
           | (Panic, fs') \<Rightarrow> False))"

locale cli_files = file_names files os
  for files :: "'fs \<Rightarrow> os_path \<Rightarrow> bytes option" and os :: "('fs, 'r) operating_system" +
  assumes buffered: "fs_create_new os p fs = (Ok W, fs') \<Longrightarrow>
      \<exists>content pos. buffered_file files p W (os_flush os p) content pos \<and> content fs' = []"
    and synced: "os_sync_all os p fs = (s, fs') \<Longrightarrow> s \<noteq> Panic \<and> files fs' = files fs"
    and renamed: "os_rename os p q fs = (s, fs') \<Longrightarrow> s \<noteq> Panic
      \<and> files fs' = (if s = Ok () then ((files fs)(p := None))(q := files fs p) else files fs)"
    and opens: "os_open os p fs \<noteq> Panic" "os_open os p fs = Ok (rd, r) \<Longrightarrow>
      \<exists>rest patience. byte_reader rd rest patience \<and> files fs p = Some (rest r)"
    and lists: "os_read_dir os dir fs \<noteq> Panic" "os_read_dir os dir fs = Ok es \<Longrightarrow> Panic \<notin> set es"
      "os_read_dir os dir fs = Ok es \<Longrightarrow> Ok e \<in> set es \<Longrightarrow> de_type e \<noteq> Panic
         \<and> (\<forall>t. de_type e = Ok t \<and> ft_is_file t \<longrightarrow> files fs (join_path dir (de_name e)) \<noteq> None)"
    and resolves: "os_absolute os arg \<noteq> Panic" "os_canonicalize_arg os arg fs \<noteq> Panic" "os_canonicalize os p fs \<noteq> Panic"

section \<open>Collecting\<close>

text \<open>The subdirectories and the regular files that a directory's entries name.\<close>

definition entry_dirs :: "os_path \<Rightarrow> (dir_entry, io_error) res list \<Rightarrow> os_path list" where
  "entry_dirs dir es = concat (map (\<lambda>e. case e of
      Ok x \<Rightarrow> (case de_type x of Ok t \<Rightarrow> if ft_is_dir t then [join_path dir (de_name x)] else [] | _ \<Rightarrow> [])
    | _ \<Rightarrow> []) es)"

definition entry_files :: "os_path \<Rightarrow> (dir_entry, io_error) res list \<Rightarrow> os_path list" where
  "entry_files dir es = concat (map (\<lambda>e. case e of
      Ok x \<Rightarrow> (case de_type x of
                 Ok t \<Rightarrow> if \<not> ft_is_dir t \<and> ft_is_file t then [join_path dir (de_name x)] else []
               | _ \<Rightarrow> [])
    | _ \<Rightarrow> []) es)"

lemma entry_simps [simp]:
  "entry_dirs dir [] = []" "entry_files dir [] = []"
  "de_type x = Ok t \<Longrightarrow> entry_dirs dir (Ok x # es) = (if ft_is_dir t then [join_path dir (de_name x)] else []) @ entry_dirs dir es"
  "de_type x = Ok t \<Longrightarrow> entry_files dir (Ok x # es)
     = (if \<not> ft_is_dir t \<and> ft_is_file t then [join_path dir (de_name x)] else []) @ entry_files dir es"
  by (simp_all add: entry_dirs_def entry_files_def)

text \<open>The directories at or below one, and the files in them.\<close>

inductive below :: "('fs, 'r) operating_system \<Rightarrow> 'fs \<Rightarrow> os_path \<Rightarrow> os_path \<Rightarrow> bool" for os fs where
  here: "below os fs dir dir"
| deeper: "os_read_dir os dir fs = Ok es \<Longrightarrow> sub \<in> set (entry_dirs dir es) \<Longrightarrow> below os fs sub x \<Longrightarrow> below os fs dir x"

definition regular_files :: "('fs, 'r) operating_system \<Rightarrow> 'fs \<Rightarrow> os_path \<Rightarrow> os_path set" where
  "regular_files os fs dir = {f. \<exists>d es. below os fs dir d \<and> os_read_dir os d fs = Ok es \<and> f \<in> set (entry_files d es)}"

inductive_simps below_unfold: "below os fs dir x"

lemma regular_files_step:
  assumes "os_read_dir os dir fs = Ok es"
  shows "regular_files os fs dir = set (entry_files dir es) \<union> (\<Union>sub \<in> set (entry_dirs dir es). regular_files os fs sub)"
  unfolding regular_files_def using assms by (subst below_unfold) (auto intro: below.intros)

text \<open>The tree is finite: a rank that exceeds the sum of the ranks of the subdirectories.\<close>

definition tree_rank :: "('fs, 'r) operating_system \<Rightarrow> 'fs \<Rightarrow> (os_path \<Rightarrow> nat) \<Rightarrow> bool" where
  "tree_rank os fs rank \<longleftrightarrow> (\<forall>dir es. os_read_dir os dir fs = Ok es \<longrightarrow> sum_list (map rank (entry_dirs dir es)) < rank dir)"

definition kept_files :: "os_path \<Rightarrow> os_path option \<Rightarrow> os_path set \<Rightarrow> os_path set" where
  "kept_files output existing F = {f \<in> F. f \<noteq> output \<and> existing \<noteq> Some f}"

lemma collect_entries_spec:
  assumes "collect_entries E os root output existing dir es found = Ok found'"
  shows "fst found' = fst found @ entry_dirs dir es
    \<and> (\<exists>new. snd found' = snd found @ new \<and> snd ` set new = kept_files output existing (set (entry_files dir es))
         \<and> (\<forall>(v, d) \<in> set new. virtual_path E os root d = Ok v))"
  using assms
proof (induction es arbitrary: found)
  case Nil
  then show ?case by (auto simp: kept_files_def intro!: exI [of _ "[]"])
next
  case (Cons e es)
  from Cons.prems obtain x t where x: "e = Ok x" "de_type x = Ok t"
    by (auto simp: res_simps cli_io_def)
  let ?d = "join_path dir (de_name x)"
  consider (dir) "ft_is_dir t" | (kept) "\<not> ft_is_dir t" "ft_is_file t" "?d \<noteq> output" "existing \<noteq> Some ?d"
    | (other) "\<not> ft_is_dir t" "\<not> ft_is_file t \<or> ?d = output \<or> existing = Some ?d" by blast
  then show ?case
  proof cases
    case dir
    with Cons.prems x have "collect_entries E os root output existing dir es (fst found @ [?d], snd found) = Ok found'"
      by (simp add: cli_io_def)
    from Cons.IH [OF this] show ?thesis using dir x by simp
  next
    case kept
    with Cons.prems x obtain v where v: "virtual_path E os root ?d = Ok v"
      and rest: "collect_entries E os root output existing dir es (fst found, snd found @ [(v, ?d)]) = Ok found'"
      by (auto simp: cli_io_def res_simps Let_def)
    from Cons.IH [OF rest] obtain new where "fst found' = fst found @ entry_dirs dir es"
      "snd found' = snd found @ [(v, ?d)] @ new" "snd ` set new = kept_files output existing (set (entry_files dir es))"
      "\<forall>(v, d) \<in> set new. virtual_path E os root d = Ok v" by auto
    then show ?thesis
      using kept x v by (intro conjI exI [of _ "(v, ?d) # new"]) (auto simp: kept_files_def)
  next
    case other
    with Cons.prems x have "collect_entries E os root output existing dir es found = Ok found'"
      by (auto simp: cli_io_def)
    from Cons.IH [OF this] show ?thesis using other x by (auto simp: kept_files_def)
  qed
qed

lemma collect_loop_spec:
  assumes "collect_loop E os root target existing fs found = Some res" "res = Ok out"
  shows "snd ` set out = snd ` set (snd found)
      \<union> kept_files target existing (\<Union>d \<in> set (fst found). regular_files os fs d)
    \<and> (\<forall>(v, d) \<in> set out. (v, d) \<in> set (snd found) \<or> virtual_path E os root d = Ok v)"
proof -
  have "res = Ok out \<longrightarrow> snd ` set out = snd ` set (snd found)
      \<union> kept_files target existing (\<Union>d \<in> set (fst found). regular_files os fs d)
    \<and> (\<forall>(v, d) \<in> set out. (v, d) \<in> set (snd found) \<or> virtual_path E os root d = Ok v)"
  proof (rule collect_loop.raw_induct [of "\<lambda>E os root target existing fs found res. res = Ok out \<longrightarrow>
      snd ` set out = snd ` set (snd found) \<union> kept_files target existing (\<Union>d \<in> set (fst found). regular_files os fs d)
    \<and> (\<forall>(v, d) \<in> set out. (v, d) \<in> set (snd found) \<or> virtual_path E os root d = Ok v)", OF _ assms(1)], goal_cases)
    case (1 rec E os root target existing fs found res)
    show ?case
    proof (cases "fst found = []")
      case True
      then show ?thesis using 1(2) by (auto simp: kept_files_def)
    next
      case False
      let ?dir = "List.last (fst found)"
      let ?step = "bind_res (cli_io (os_read_dir os ?dir fs)) (\<lambda>es.
        collect_entries E os root target existing ?dir es (butlast (fst found), snd found))"
      show ?thesis
      proof (intro impI)
        assume res: "res = Ok out"
        then obtain found' where step: "?step = Ok found'" and rest: "rec E os root target existing fs found' = Some res"
          using 1(2) False by (cases ?step) (auto simp: Let_def)
        from step obtain es where es: "os_read_dir os ?dir fs = Ok es"
          "collect_entries E os root target existing ?dir es (butlast (fst found), snd found) = Ok found'"
          by (auto simp: res_simps cli_io_def)
        from collect_entries_spec [OF es(2)] obtain new where new: "fst found' = butlast (fst found) @ entry_dirs ?dir es"
          "snd found' = snd found @ new" "snd ` set new = kept_files target existing (set (entry_files ?dir es))"
          "\<forall>(v, d) \<in> set new. virtual_path E os root d = Ok v" by auto
        have "set (fst found) = insert ?dir (set (butlast (fst found)))"
          using False by (metis append_butlast_last_id set_append list.set(1) list.set(2) Un_insert_right Un_empty_right)
        then have "(\<Union>d \<in> set (fst found). regular_files os fs d)
          = set (entry_files ?dir es) \<union> (\<Union>d \<in> set (fst found'). regular_files os fs d)"
          using regular_files_step [OF es(1)] new(1) by auto
        then show "snd ` set out = snd ` set (snd found)
            \<union> kept_files target existing (\<Union>d \<in> set (fst found). regular_files os fs d)
          \<and> (\<forall>(v, d) \<in> set out. (v, d) \<in> set (snd found) \<or> virtual_path E os root d = Ok v)"
          using 1(1) [OF rest] res new(2-4) by (auto simp: kept_files_def)
      qed
    qed
  qed
  then show ?thesis using assms(2) by blast
qed

context cli_files
begin

lemma virtual_path_no_panic: "virtual_path E os root d \<noteq> Panic"
  unfolding virtual_path_def by (intro no_panic)

lemma collect_entries_no_panic:
  "Panic \<notin> set es \<Longrightarrow> \<forall>e. Ok e \<in> set es \<longrightarrow> de_type e \<noteq> Panic \<Longrightarrow>
   collect_entries E os root target existing dir es found \<noteq> Panic"
proof (induction es arbitrary: found)
  case (Cons e es)
  then show ?case
    by (cases e) (auto simp: cli_io_def bind_res_Panic Let_def virtual_path_no_panic map_err_no_panic)
qed simp

text \<open>On a finite tree the loop ends; it never panics.\<close>

lemma collect_loop_total:
  assumes "tree_rank os fs rank"
  shows "\<exists>res. collect_loop E os root target existing fs found = Some res \<and> res \<noteq> Panic"
proof (induction "sum_list (map rank (fst found))" arbitrary: found rule: less_induct)
  case less
  show ?case
  proof (cases "fst found = []")
    case True
    then show ?thesis by (simp add: collect_loop.simps)
  next
    case False
    let ?dir = "List.last (fst found)"
    let ?step = "bind_res (cli_io (os_read_dir os ?dir fs)) (\<lambda>es.
        collect_entries E os root target existing ?dir es (butlast (fst found), snd found))"
    have "collect_entries E os root target existing ?dir es s \<noteq> Panic" if "os_read_dir os ?dir fs = Ok es" for es s
      using lists(2,3) [OF that] by (intro collect_entries_no_panic) blast+
    then have np: "?step \<noteq> Panic"
      by (intro bind_no_panic) (auto simp: cli_io_def map_err_no_panic lists(1) res_simps)
    show ?thesis
    proof (cases ?step)
      case (Ok found')
      then obtain es where es: "os_read_dir os ?dir fs = Ok es"
        "collect_entries E os root target existing ?dir es (butlast (fst found), snd found) = Ok found'"
        by (auto simp: res_simps cli_io_def)
      have "fst found' = butlast (fst found) @ entry_dirs ?dir es" using collect_entries_spec [OF es(2)] by simp
      moreover have "sum_list (map rank (entry_dirs ?dir es)) < rank ?dir" using assms es(1) by (simp add: tree_rank_def)
      moreover have "fst found = butlast (fst found) @ [?dir]" using False by simp
      from arg_cong [OF this, of "\<lambda>ds. sum_list (map rank ds)"]
      have "sum_list (map rank (fst found)) = sum_list (map rank (butlast (fst found))) + rank ?dir"
        by (simp only: map_append sum_list_append list.map sum_list.Cons sum_list.Nil add_0_right)
      ultimately have "sum_list (map rank (fst found')) < sum_list (map rank (fst found))" by simp
      from less [OF this] Ok False show ?thesis by (simp add: collect_loop.simps [of E os root target existing fs found] Let_def)
    qed (use np False in \<open>simp_all add: collect_loop.simps [of E os root target existing fs found] Let_def\<close>)
  qed
qed

lemma collect_files_total:
  assumes "tree_rank os fs rank"
  obtains res where "collect_files E os root target existing fs = Some res" "res \<noteq> Panic"
    "\<forall>out. res = Ok out \<longrightarrow> snd ` set out = kept_files target existing (regular_files os fs root)
       \<and> (\<forall>(v, d) \<in> set out. virtual_path E os root d = Ok v)"
proof -
  from collect_loop_total [OF assms, of E root target existing "([root], [])"] obtain res where
    res: "collect_loop E os root target existing fs ([root], []) = Some res" "res \<noteq> Panic" by blast
  have "\<forall>out. res = Ok out \<longrightarrow> snd ` set out = kept_files target existing (regular_files os fs root)
       \<and> (\<forall>(v, d) \<in> set out. virtual_path E os root d = Ok v)"
    using collect_loop_spec [OF res(1)] by (auto simp: kept_files_def)
  then show ?thesis using that res by (simp add: collect_files_def)
qed

end

section \<open>Packing a directory\<close>

text \<open>The inputs as the packer sees them: names, and contents of the files on disk.\<close>

definition disk_inputs :: "(os_path \<Rightarrow> bytes option) \<Rightarrow> (bytes \<times> os_path) list \<Rightarrow> input_file list" where
  "disk_inputs disk ds = map (\<lambda>(v, d). \<lparr> f_path = v, f_data = the (disk d) \<rparr>) ds"

context cli_files
begin

lemma create_temp_loop_outcome:
  "create_temp_loop os parent name attempts fs = (r, fs') \<Longrightarrow>
   case r of
     Ok (temp, W) \<Rightarrow> \<exists>i fs1. temp = join_path parent (temp_name os name i) \<and> files fs1 = files fs
        \<and> fs_create_new os temp fs1 = (Ok W, fs')
   | Err e \<Rightarrow> files fs' = files fs
   | Panic \<Rightarrow> False"
proof (induction attempts arbitrary: fs)
  case Nil
  then show ?case by (auto simp: lift_st_def)
next
  case (Cons i attempts)
  let ?path = "join_path parent (temp_name os name i)"
  obtain c fs1 where c: "fs_create_new os ?path fs = (c, fs1)" by fastforce
  show ?case
  proof (cases c)
    case (Ok W)
    then show ?thesis using Cons.prems c by (auto simp: Let_def)
  next
    case (Err e)
    have same: "files fs1 = files fs" using not_created c Err by metis
    show ?thesis
    proof (cases "io_kind_of e = KAlreadyExists")
      case True
      then have "create_temp_loop os parent name attempts fs1 = (r, fs')" using Cons.prems c Err by (simp add: Let_def)
      from Cons.IH [OF this] same show ?thesis by (simp split: res.splits prod.splits)
    next
      case False
      then show ?thesis using Cons.prems c Err same by (auto simp: Let_def)
    qed
  next
    case Panic
    then show ?thesis using returns(1) [of ?path fs] c by simp
  qed
qed

lemma create_temp_outcome:
  assumes "create_temp os target fs = (r, fs')"
  shows "case r of
     Ok (temp, W) \<Rightarrow> temp \<noteq> target \<and> (\<exists>fs1. files fs1 = files fs \<and> fs_create_new os temp fs1 = (Ok W, fs'))
   | Err e \<Rightarrow> files fs' = files fs
   | Panic \<Rightarrow> False"
proof (cases "parent_path target = None \<or> file_name target = None")
  case True
  then show ?thesis using assms by (auto simp: create_temp_def bind_st_def lift_st_def ok_or_def split: option.splits)
next
  case False
  then obtain parent name where pn: "parent_path target = Some parent" "file_name target = Some name" by auto
  then have t: "target = join_path parent name"
    by (auto simp: parent_path_def file_name_def join_path_def split: if_splits component.splits)
      (metis append_butlast_last_id)
  have "temp_name os name i \<noteq> name" for i by (simp add: temp_name_def chars_def)
  then have "join_path parent (temp_name os name i) \<noteq> target" for i by (simp add: t join_path_def)
  moreover have "create_temp_loop os parent name [0..<128] fs = (r, fs')" using assms pn by (simp add: create_temp_def)
  ultimately show ?thesis
    using create_temp_loop_outcome [of parent name "[0..<128]" fs r fs'] by (fastforce split: res.splits prod.splits)
qed

text \<open>
  Adding the collected files: the temporary file \<open>temp\<close> is the only path that changes, so the
  inputs are read as they were at the start.
\<close>

lemma add_disk_files_total:
  assumes laws: "packer_laws E" and sw: "seek_writer W content pos"
    and kept: "writer_keeps (\<lambda>fs. \<exists>c. files fs = base(temp \<mapsto> c)) W"
  shows "packer_state E content pos fs p gs \<Longrightarrow> \<exists>c. files fs = base(temp \<mapsto> c) \<Longrightarrow>
      \<forall>(v, d) \<in> set ds. utf8_valid v \<and> d \<noteq> temp \<Longrightarrow>
    \<exists>res fs' p'. add_disk_files E os W ds (fs, p) = Some (res, fs', p') \<and> res \<noteq> Panic \<and> (\<exists>c. files fs' = base(temp \<mapsto> c))
      \<and> (res = Ok () \<longrightarrow> p_options p' = p_options p \<and> p_key p' = p_key p
           \<and> (\<exists>hs. packer_state E content pos fs' p' (gs @ hs)
                \<and> list_all2 (\<lambda>(v, d) g. normalize_path E v = Ok (fst g) \<and> base d = Some (concat (snd g))) ds hs))"
proof (induction ds arbitrary: fs p gs)
  case Nil
  then show ?case by (auto intro!: exI [of _ "[]"])
next
  case (Cons f ds)
  obtain v d where f: "f = (v, d)" by fastforce
  have vd: "utf8_valid v" "d \<noteq> temp" using Cons.prems(3) f by auto
  show ?case
  proof (cases "os_open os d fs")
    case (Ok opened)
    obtain rd r where o: "opened = (rd, r)" by fastforce
    obtain rest patience where rd: "byte_reader rd rest patience" "files fs d = Some (rest r)"
      using opens(2) [of d fs rd r] Ok o by auto
    have data: "base d = Some (rest r)" using rd(2) Cons.prems(2) vd(2) by auto
    have "packing rd rest patience W content pos" using rd(1) sw by (simp add: packing_def)
    from packing.add_reader_total [OF this laws Cons.prems(1) vd(1)] obtain res r' fs1 p1 where
      add: "add_reader E W rd v r (fs, p) = Some (res, r', fs1, p1)" "res \<noteq> Panic" and
      ok: "res = Ok () \<Longrightarrow> p_options p1 = p_options p \<and> p_key p1 = p_key p
         \<and> (\<exists>n new. normalize_path E v = Ok n \<and> concat new = rest r \<and> packer_state E content pos fs1 p1 (gs @ [(n, new)]))"
      by blast
    have I1: "\<exists>c. files fs1 = base(temp \<mapsto> c)" using add_reader_keeps [OF kept add(1)] Cons.prems(2) by simp
    show ?thesis
    proof (cases res)
      case (Err e)
      then show ?thesis using f Ok o add I1 by (simp add: cli_io_def del: fun_upd_apply)
    next
      case res: (Ok u)
      then obtain n new where n: "p_options p1 = p_options p" "p_key p1 = p_key p" "normalize_path E v = Ok n"
        "concat new = rest r" "packer_state E content pos fs1 p1 (gs @ [(n, new)])" using ok by auto
      from Cons.IH [OF n(5) I1] Cons.prems(3) obtain res2 fs2 p2 where
        rec: "add_disk_files E os W ds (fs1, p1) = Some (res2, fs2, p2)" "res2 \<noteq> Panic" "\<exists>c. files fs2 = base(temp \<mapsto> c)" and
        ok2: "res2 = Ok () \<Longrightarrow> p_options p2 = p_options p1 \<and> p_key p2 = p_key p1
           \<and> (\<exists>hs. packer_state E content pos fs2 p2 ((gs @ [(n, new)]) @ hs)
                \<and> list_all2 (\<lambda>(v, d) g. normalize_path E v = Ok (fst g) \<and> base d = Some (concat (snd g))) ds hs)" by (auto simp del: fun_upd_apply)
      have "\<exists>hs. packer_state E content pos fs2 p2 (gs @ hs)
          \<and> list_all2 (\<lambda>(v, d) g. normalize_path E v = Ok (fst g) \<and> base d = Some (concat (snd g))) (f # ds) hs"
        if "res2 = Ok ()"
      proof -
        from ok2 [OF that] obtain hs where "packer_state E content pos fs2 p2 ((gs @ [(n, new)]) @ hs)"
          "list_all2 (\<lambda>(v, d) g. normalize_path E v = Ok (fst g) \<and> base d = Some (concat (snd g))) ds hs" by blast
        then show ?thesis using n(3,4) f data by (intro exI [of _ "(n, new) # hs"]) simp
      qed
      then show ?thesis using f Ok o add res rec ok2 n(1,2) by (auto simp: cli_io_def simp del: fun_upd_apply)
    qed (use add in simp)
  next
    case (Err e)
    then show ?thesis using f Cons.prems(2) by (simp add: cli_io_def)
  qed (use opens(1) [of d fs] in simp)
qed

lemma publish_outcome:
  assumes buf: "buffered_file files temp W (os_flush os temp) content pos" and "files fs = base(temp \<mapsto> c)"
    and base: "base temp = None" "temp \<noteq> target" and run: "publish os temp target summary fs = (r, fs')"
  shows "case r of
      Ok s \<Rightarrow> files fs' = base(target \<mapsto> content fs)
    | Err e \<Rightarrow> \<exists>c. files fs' = base(temp \<mapsto> c)
    | Panic \<Rightarrow> False"
proof -
  obtain r1 fs1 where fl: "os_flush os temp fs = (r1, fs1)" by fastforce
  have flushed: "case r1 of Ok _ \<Rightarrow> files fs1 = base(temp \<mapsto> content fs) | Err e \<Rightarrow> \<exists>c'. files fs1 = base(temp \<mapsto> c') | Panic \<Rightarrow> False"
    using buf assms(2) fl unfolding buffered_file_def by (metis (no_types, lifting) case_prod_conv)
  show ?thesis
  proof (cases r1)
    case (Ok u)
    obtain r2 fs2 where sy: "os_sync_all os temp fs1 = (r2, fs2)" by fastforce
    obtain r3 fs3 where rn: "os_rename os temp target fs2 = (r3, fs3)" by fastforce
    have f2: "files fs2 = base(temp \<mapsto> content fs)" "r2 \<noteq> Panic" using synced [OF sy] flushed Ok by simp_all
    have f3: "r3 \<noteq> Panic" "files fs3 = (if r3 = Ok () then base(target \<mapsto> content fs) else base(temp \<mapsto> content fs))"
      using renamed [OF rn] f2(1) base by (auto simp: fun_eq_iff)
    show ?thesis
      using run fl sy rn Ok f2 f3 by (cases r2; cases r3) (auto simp: publish_def bind_st_def io_step_def cli_io_def lift_st_def)
  qed (use run fl flushed in \<open>auto simp: publish_def bind_st_def io_step_def cli_io_def\<close>)
qed

lemma stored_as_disk:
  assumes "list_all2 (\<lambda>(v, d) g. normalize_path E v = Ok (fst g) \<and> disk d = Some (concat (snd g))) ds hs"
  shows "stored_as E (disk_inputs disk ds) hs"
  unfolding stored_as_def disk_inputs_def list_all2_map1
  by (rule list_all2_mono [OF assms]) auto

lemma pack_temp_total:
  assumes laws: "packer_laws E" and fits: "o_chunk_size options \<le> usize_max E"
    and create: "fs_create_new os temp fs1 = (Ok W, fs2)" and target: "temp \<noteq> target"
    and ds: "\<forall>(v, d) \<in> set ds. utf8_valid v \<and> d \<noteq> temp"
  obtains r fs' where "pack_temp E os temp W target ds key options fs2 = Some (r, fs')"
    "case r of
        Ok s \<Rightarrow> \<exists>c. files fs' = (files fs1)(target \<mapsto> c) \<and> archive_of E (disk_inputs (files fs1) ds) key options c
      | Err e \<Rightarrow> \<exists>c. files fs' = (files fs1)(temp \<mapsto> c)
      | Panic \<Rightarrow> False"
proof -
  let ?base = "files fs1"
  let ?I = "\<lambda>fs. \<exists>c. files fs = ?base(temp \<mapsto> c)"
  obtain content pos where buf: "buffered_file files temp W (os_flush os temp) content pos"
    using buffered [OF create] by blast
  then have sw: "seek_writer W content pos" and kept: "writer_keeps ?I W" by (auto simp: buffered_file_def)
  have absent: "?base temp = None" and I2: "?I fs2" using created [OF create] by auto
  obtain r0 w0 where new: "packer_new E W key options fs2 = (r0, w0)" by fastforce
  note wp0 = seek_writer.wp_packer_new [OF sw laws fits, of key fs2]
  have np0: "r0 \<noteq> Panic" using wp_no_panic [OF wp0] unfolding new fst_conv .
  have I0: "?I w0" using packer_new_keeps [OF kept I2 new] .
  show ?thesis
  proof (cases r0)
    case (Err e)
    then show ?thesis using that new I0 by (simp add: pack_temp_def)
  next
    case (Ok p)
    from wp_Ok [OF wp0 new [unfolded Ok]] have p: "p_options p = options" "p_key p = key"
      "packer_state E content pos w0 p []" by auto
    from add_disk_files_total [OF laws sw kept p(3) I0 ds] obtain r1 w1 p1 where
      add: "add_disk_files E os W ds (w0, p) = Some (r1, w1, p1)" "r1 \<noteq> Panic" "?I w1" and
      ok: "r1 = Ok () \<Longrightarrow> p_options p1 = p_options p \<and> p_key p1 = p_key p
           \<and> (\<exists>hs. packer_state E content pos w1 p1 hs
                \<and> list_all2 (\<lambda>(v, d) g. normalize_path E v = Ok (fst g) \<and> ?base d = Some (concat (snd g))) ds hs)"
      by auto
    show ?thesis
    proof (cases r1)
      case (Err e)
      then show ?thesis using that new Ok add by (simp add: pack_temp_def)
    next
      case r1: (Ok u)
      then obtain hs where hs: "p_options p1 = options" "p_key p1 = key" "packer_state E content pos w1 p1 hs"
        "stored_as E (disk_inputs ?base ds) hs" using ok p(1,2) stored_as_disk by auto
      obtain r2 w2 p2 where fin: "finish E W (w1, p1) = (r2, w2, p2)" by (rule prod_cases3)
      note wp2 = seek_writer.wp_finish_archive [OF sw laws hs(3,4,1,2)]
      have np2: "r2 \<noteq> Panic" using wp_no_panic [OF wp2] unfolding fin fst_conv .
      have I2: "?I w2" using keepsD [OF keeps_finish [OF kept] add(3) fin] .
      show ?thesis
      proof (cases r2)
        case (Err e)
        then show ?thesis using that new Ok add r1 fin I2 by (simp add: pack_temp_def)
      next
        case r2: (Ok summary)
        from wp_Ok [OF wp2 fin [unfolded r2]] have arch: "archive_of E (disk_inputs ?base ds) key options (content w2)" by simp
        obtain r3 fs3 where pub: "publish os temp target summary w2 = (r3, fs3)" by fastforce
        obtain c where c: "files w2 = ?base(temp \<mapsto> c)" using I2 by blast
        have "pack_temp E os temp W target ds key options fs2 = Some (r3, fs3)"
          using new Ok add r1 fin r2 pub by (simp add: pack_temp_def)
        then show ?thesis using that publish_outcome [OF buf c absent target pub] arch by (cases r3) auto
      qed (use np2 in simp)
    qed (use add in simp)
  qed (use np0 in simp)
qed

lemma resolved_no_panic:
  "bind_res (cli_io (os_canonicalize_arg os root fs)) (\<lambda>root.
     bind_res (cli_io (normalized_output_path os target fs)) (\<lambda>target.
     bind_res (cli_io (existing_path os target fs)) (\<lambda>existing. Ok (root, target, existing)))) \<noteq> Panic"
  unfolding cli_io_def normalized_output_path_def existing_path_def
  by (intro no_panic resolves) (auto split: res.splits simp: resolves)

text \<open>The files that were collected are packed into the temporary file, which takes the name of the output.\<close>

lemma pack_collected_outcome:
  assumes laws: "packer_laws E" "o_chunk_size options \<le> usize_max E"
    and ds: "\<forall>(v, d) \<in> set ds. utf8_valid v \<and> files fs d \<noteq> None"
  obtains r fs' where
    "(case create_temp os target fs of
        (Err e, fs) \<Rightarrow> Some (Err (Cli_Io e), fs)
      | (Panic, fs) \<Rightarrow> Some (Panic, fs)
      | (Ok (temp_path, W), fs) \<Rightarrow>
          map_option (remove_temp os temp_path) (pack_temp E os temp_path W target ds key options fs)) = Some (r, fs')"
    "case r of
        Ok s \<Rightarrow> \<exists>c. files fs' = (files fs)(target \<mapsto> c) \<and> archive_of E (disk_inputs (files fs) ds) key options c
      | Err e \<Rightarrow> files fs' = files fs
          \<or> \<not> removal_works files os \<and> (\<exists>temp c. files fs temp = None \<and> files fs' = (files fs)(temp \<mapsto> c))
      | Panic \<Rightarrow> False"
proof -
  obtain c fs1 where create: "create_temp os target fs = (c, fs1)" by fastforce
  note outcome = create_temp_outcome [OF create]
  show ?thesis
  proof (cases c)
    case (Ok tw)
    obtain temp W where tw: "tw = (temp, W)" by fastforce
    with outcome Ok obtain fs0 where t: "temp \<noteq> target" "files fs0 = files fs" "fs_create_new os temp fs0 = (Ok W, fs1)" by auto
    have absent: "files fs temp = None" using created [OF t(3)] t(2) by simp
    then have "\<forall>(v, d) \<in> set ds. utf8_valid v \<and> d \<noteq> temp" using ds by auto
    from pack_temp_total [OF laws t(3,1) this, of key] obtain r fs2 where
      run: "pack_temp E os temp W target ds key options fs1 = Some (r, fs2)" and
      r: "case r of
        Ok s \<Rightarrow> \<exists>c. files fs2 = (files fs)(target \<mapsto> c) \<and> archive_of E (disk_inputs (files fs) ds) key options c
      | Err e \<Rightarrow> \<exists>c. files fs2 = (files fs)(temp \<mapsto> c)
      | Panic \<Rightarrow> False" unfolding t(2) by blast
    show ?thesis
    proof (cases r)
      case (Ok s)
      then show ?thesis using that [of r fs2] r create \<open>c = Ok tw\<close> tw run by (simp add: remove_temp_def)
    next
      case (Err e)
      let ?fs3 = "snd (fs_remove_file os temp fs2)"
      from r Err obtain c' where "files fs2 = (files fs)(temp \<mapsto> c')" by auto
      from create_remove [OF absent this] absent
      have "files ?fs3 = files fs
          \<or> \<not> removal_works files os \<and> (\<exists>temp c. files fs temp = None \<and> files ?fs3 = (files fs)(temp \<mapsto> c))" by blast
      then show ?thesis using that [of r ?fs3] create \<open>c = Ok tw\<close> tw run Err by (simp add: remove_temp_def)
    qed (use r in simp)
  next
    case (Err e)
    then show ?thesis using that [of "Err (Cli_Io e)" fs1] create outcome by simp
  qed (use outcome in simp)
qed

text \<open>Every regular file of a tree exists.\<close>

lemma entry_files_exist:
  assumes "os_read_dir os dir fs = Ok es" "d \<in> set (entry_files dir es)"
  shows "files fs d \<noteq> None"
proof -
  from assms(2) obtain e where "e \<in> set es" "d \<in> set (entry_files dir [e])" by (auto simp: entry_files_def)
  then obtain x t where "Ok x \<in> set es" "de_type x = Ok t" "ft_is_file t" "d = join_path dir (de_name x)"
    by (cases e; cases "de_type (case e of Ok x \<Rightarrow> x)") (auto simp: entry_files_def split: res.splits if_splits)
  with lists(3) [OF assms(1), of x] show ?thesis by auto
qed

lemma regular_files_exist: "d \<in> regular_files os fs dir \<Longrightarrow> files fs d \<noteq> None"
  unfolding regular_files_def using entry_files_exist by blast

end

section \<open>The report of a pack\<close>

text \<open>A pack that succeeded had resolved its output, which its line then names.\<close>

lemma pack_reports:
  assumes "pack_dir E os root out options key fs = Some (Ok s, fs')"
  obtains target where "normalized_output_path os out fs = Ok target"
    "pack_and_report E os root out options key fs = Some (print_line os (pack_line (os_display os target) options s) fs')"
proof (cases "normalized_output_path os out fs")
  case (Ok target)
  then show ?thesis using that assms by (simp add: pack_and_report_def bind_st_def lift_st_def cli_io_def)
qed (use assms in \<open>cases "os_canonicalize_arg os root fs"; simp add: pack_dir_def cli_io_def\<close>)+

section \<open>What the reading commands add up\<close>

text \<open>The entries partition the chunks, so sums over the entries are sums over the chunk table.\<close>

lemma entry_chunks_range:
  assumes "entry_first e + entry_count e \<le> length cs"
  shows "entry_chunks cs e = map ((!) cs) (entry_range e)"
  using assms by (intro nth_equalityI) (simp_all add: entry_chunks_def entry_range_def)

lemma sum_over_entries:
  fixes f :: "chunk \<Rightarrow> nat"
  assumes "layout_ok es cs toc_offset chunk_size alignment aead max_total"
  shows "(\<Sum>e\<leftarrow>es. \<Sum>c\<leftarrow>entry_chunks cs e. f c) = (\<Sum>c\<leftarrow>cs. f c)"
proof -
  let ?R = "concat (map entry_range es)"
  have R: "distinct ?R" "set ?R = {..<length cs}" and e: "\<forall>e \<in> set es. entry_first e + entry_count e \<le> length cs"
    using assms by (simp_all add: layout_ok_def entry_ok_def)
  have "(\<Sum>c\<leftarrow>entry_chunks cs e. f c) = (\<Sum>i\<leftarrow>entry_range e. f (cs ! i))" if "e \<in> set es" for e
    using e that by (simp add: entry_chunks_range comp_def)
  then have "(\<Sum>e\<leftarrow>es. \<Sum>c\<leftarrow>entry_chunks cs e. f c) = (\<Sum>e\<leftarrow>es. \<Sum>i\<leftarrow>entry_range e. f (cs ! i))"
    by (simp cong: map_cong)
  also have "\<dots> = (\<Sum>i\<leftarrow>?R. f (cs ! i))" by (induction es) simp_all
  also have "\<dots> = (\<Sum>i \<in> {..<length cs}. f (cs ! i))" using R by (simp add: sum_list_distinct_conv_sum_set)
  also have "\<dots> = (\<Sum>c\<leftarrow>cs. f c)" by (simp add: sum_list_sum_nth atLeast0LessThan)
  finally show ?thesis .
qed

lemma sum_list_bounded:
  fixes f :: "'a \<Rightarrow> nat"
  assumes "\<And>x. x \<in> set xs \<Longrightarrow> f x \<le> b"
  shows "(\<Sum>x\<leftarrow>xs. f x) \<le> length xs * b"
  using assms by (induction xs) (simp_all add: add_mono)

definition stored_total :: "archive \<Rightarrow> nat" where
  "stored_total A = (\<Sum>c\<leftarrow>a_chunks A. unat (c_stored_size c))"

definition original_total :: "archive \<Rightarrow> nat" where
  "original_total A = (\<Sum>c\<leftarrow>a_chunks A. unat (c_original_size c))"

lemma archive_totals:
  assumes "archive_wf E A"
  shows "(\<Sum>e\<leftarrow>a_entries A. unat (en_chunk_count e)) = length (a_chunks A)" (is ?count)
    and "(\<Sum>e\<leftarrow>a_entries A. unat (en_original_size e)) = original_total A" (is ?original)
    and "(\<Sum>e\<leftarrow>a_entries A. unat (en_stored_size e)) = stored_total A" (is ?stored)
    and "length (a_chunks A) < 2 ^ 32" "original_total A < 2 ^ 64" "stored_total A < 2 ^ 64"
proof -
  from assms obtain toc toc_offset max_total where es: "a_entries A = map entry_from toc"
    and layout: "layout_ok toc (a_chunks A) toc_offset (unat (a_chunk_size A)) (unat (a_alignment A)) (a_protection A = Aead) max_total"
    and n: "length (a_chunks A) < 2 ^ 32" and size: "unat (a_chunk_size A) \<le> MAX_CHUNK_SIZE"
    by (auto simp: archive_wf_def)
  have entries: "\<forall>e \<in> set toc. entry_ok (a_chunks A) (unat (a_chunk_size A)) e"
    and chunks: "\<forall>c \<in> set (a_chunks A). chunk_ok toc_offset (unat (a_chunk_size A)) (unat (a_alignment A)) (a_protection A = Aead) c"
    using layout by (simp_all add: layout_ok_def chunks_ok_def)
  have "(\<Sum>e\<leftarrow>toc. unat (e_chunk_count e)) = (\<Sum>e\<leftarrow>toc. \<Sum>c\<leftarrow>entry_chunks (a_chunks A) e. 1)"
    using entries by (intro arg_cong [of _ _ sum_list] map_cong refl)
      (simp add: entry_ok_def length_entry_chunks sum_list_triv, simp add: entry_count_def)
  then show ?count using sum_over_entries [OF layout, of "\<lambda>_. 1"] by (simp add: es comp_def sum_list_triv)
  have "(\<Sum>e\<leftarrow>toc. unat (e_original_size e)) = (\<Sum>e\<leftarrow>toc. \<Sum>c\<leftarrow>entry_chunks (a_chunks A) e. unat (c_original_size c))"
    using entries by (intro arg_cong [of _ _ sum_list] map_cong refl) (simp add: entry_ok_def)
  then show ?original unfolding original_total_def using sum_over_entries [OF layout] by (simp add: es comp_def)
  have "(\<Sum>e\<leftarrow>toc. unat (e_stored_size e)) = (\<Sum>e\<leftarrow>toc. \<Sum>c\<leftarrow>entry_chunks (a_chunks A) e. unat (c_stored_size c))"
    using entries by (intro arg_cong [of _ _ sum_list] map_cong refl) (simp add: entry_ok_def)
  then show ?stored unfolding stored_total_def using sum_over_entries [OF layout] by (simp add: es comp_def)
  have sizes: "unat (c_original_size c) \<le> 2 ^ 27" "unat (c_stored_size c) \<le> 2 ^ 27" if "c \<in> set (a_chunks A)" for c
    using chunks [rule_format, OF that] size
    by (auto simp: chunk_ok_def chunk_payload_def MAX_CHUNK_SIZE_def split: if_splits)
  show "length (a_chunks A) < 2 ^ 32" by (rule n)
  have bound: "length (a_chunks A) * 2 ^ 27 < 2 ^ 64" using n by simp
  have "original_total A \<le> length (a_chunks A) * 2 ^ 27" "stored_total A \<le> length (a_chunks A) * 2 ^ 27"
    unfolding original_total_def stored_total_def using sizes by (intro sum_list_bounded; blast)+
  then show "original_total A < 2 ^ 64" "stored_total A < 2 ^ 64" using bound by linarith+
qed

lemma sum_entries_fits:
  assumes "unat acc + (\<Sum>e\<leftarrow>es. unat (f e)) < 2 ^ 64"
  obtains total where "sum_entries f message es acc = Ok total" "unat total = unat acc + (\<Sum>e\<leftarrow>es. unat (f e))"
  using assms
proof (induction es arbitrary: acc thesis)
  case (Cons e es)
  then obtain acc' where acc': "checked_add acc (f e) = Some acc'" "unat acc' = unat acc + unat (f e)"
    by (auto simp: checked_add_def unat_add_lem [THEN iffD1])
  show ?case
    by (rule Cons.IH [of acc']) (use Cons.prems acc' in auto)
qed simp

lemma info_sums_fit:
  assumes "unat chunks + (\<Sum>e\<leftarrow>es. unat (en_chunk_count e)) < 2 ^ 64"
    "unat original + (\<Sum>e\<leftarrow>es. unat (en_original_size e)) < 2 ^ 64"
    "unat stored + (\<Sum>e\<leftarrow>es. unat (en_stored_size e)) < 2 ^ 64"
  obtains c o' s where "info_sums es (chunks, original, stored) = Ok (c, o', s)"
    "unat c = unat chunks + (\<Sum>e\<leftarrow>es. unat (en_chunk_count e))"
    "unat o' = unat original + (\<Sum>e\<leftarrow>es. unat (en_original_size e))"
    "unat s = unat stored + (\<Sum>e\<leftarrow>es. unat (en_stored_size e))"
  using assms
proof (induction es arbitrary: chunks original stored thesis)
  case (Cons e es)
  obtain c where c: "checked_add chunks (ucast (en_chunk_count e) :: u64) = Some c" "unat c = unat chunks + unat (en_chunk_count e)"
    using Cons.prems(2) unat_ucast_u32_u64 [of "en_chunk_count e"] by (auto simp: checked_add_def unat_add_lem [THEN iffD1])
  obtain o' where o': "checked_add original (en_original_size e) = Some o'" "unat o' = unat original + unat (en_original_size e)"
    using Cons.prems(3) by (auto simp: checked_add_def unat_add_lem [THEN iffD1])
  obtain s where s: "checked_add stored (en_stored_size e) = Some s" "unat s = unat stored + unat (en_stored_size e)"
    using Cons.prems(4) by (auto simp: checked_add_def unat_add_lem [THEN iffD1])
  show ?case
    by (rule Cons.IH [of c o' s]) (use Cons.prems c o' s in auto)
qed simp

end
