(* ===== verification/Cli_Properties.thy ===== *)
theory Cli_Properties
  imports Cli_Correct Sample_Files
begin

text \<open>
  The properties of the command-line packer, and an operating system in memory that
  satisfies what the commands rely on.
\<close>

section \<open>An operating system in memory\<close>

text \<open>
  One directory, the root, whose files have the given names as far as they exist; new files
  are those of \<open>memory_file_system\<close>, written without a buffer.
\<close>

definition memory_os :: "env \<Rightarrow> bytes list \<Rightarrow> (os_path memory_files, bytes) operating_system" where
  "memory_os E names = \<lparr>
     fs_create_new = fs_create_new memory_file_system,
     fs_remove_file = fs_remove_file memory_file_system,
     os_absolute = (\<lambda>arg. Ok [Normal arg]),
     os_canonicalize_arg = (\<lambda>arg fs. Ok []),
     os_canonicalize = (\<lambda>p fs. if p = [] \<or> mf_files fs p \<noteq> None then Ok p else Err (IoError KNotFound ''not found'')),
     os_read_dir = (\<lambda>dir fs. if dir = []
        then Ok (map (\<lambda>n. Ok \<lparr> de_name = n, de_type = Ok \<lparr> ft_is_dir = False, ft_is_file = True \<rparr> \<rparr>)
                  (filter (\<lambda>n. mf_files fs [Normal n] \<noteq> None) names))
        else Err (IoError KNotFound ''not found'')),
     os_open = (\<lambda>p fs. case mf_files fs p of None \<Rightarrow> Err (IoError KNotFound ''not found'') | Some c \<Rightarrow> Ok (slice_reader, c)),
     os_flush = (\<lambda>p fs. (Ok (), fs)),
     os_sync_all = (\<lambda>p fs. (Ok (), fs)),
     os_rename = (\<lambda>p q fs. if mf_files fs p = None then (Err (IoError KNotFound ''not found''), fs)
        else (Ok (), fs\<lparr> mf_files := ((mf_files fs)(p := None))(q := mf_files fs p) \<rparr>)),
     os_write = (\<lambda>p data fs. (Ok (), fs\<lparr> mf_files := (mf_files fs)([Normal p] \<mapsto> data) \<rparr>)),
     os_source = (\<lambda>p fs. case mf_files fs [Normal p] of None \<Rightarrow> Err (IoError KNotFound ''not found'') | Some c \<Rightarrow> Ok (slice_source E c)),
     os_print = (\<lambda>text fs. (Ok (), fs\<lparr> mf_shown := mf_shown fs @ text \<rparr>)),
     os_process_id = 1, os_stamp = 2, os_display = (\<lambda>p. '''') \<rparr>"

lemma memory_buffered_file: "buffered_file mf_files p (memory_writer p) (\<lambda>fs. (Ok (), fs)) (memory_content p) mf_pos"
  unfolding buffered_file_def
proof (intro conjI allI impI memory_file.seek_writer_axioms)
  show "writer_keeps (\<lambda>fs. \<exists>c. mf_files fs = base(p \<mapsto> c)) (memory_writer p)" for base
    by (simp add: writer_keeps_def memory_writer_def) (metis fun_upd_upd)
qed (simp add: memory_content_def)

interpretation memory_cli: cli_files mf_files "memory_os E names" for E names
proof (unfold_locales, goal_cases)
  case (1 p fs W fs')
  then have "fs_create_new memory_file_system p fs = (Ok W, fs')" by (simp add: memory_os_def)
  from memory_created [OF this] show ?case by simp
next
  case (7 p fs W fs')
  then have "fs_create_new memory_file_system p fs = (Ok W, fs')" by (simp add: memory_os_def)
  from memory_created [OF this] show ?case
    using memory_buffered_file [of p] by (fastforce simp: memory_os_def memory_content_def)
next
  case (11 p fs rd r)
  then have "rd = slice_reader" "mf_files fs p = Some r" by (auto simp: memory_os_def split: option.splits)
  then show ?case using slice_reader.byte_reader_axioms by blast
qed (auto simp: memory_os_def memory_file_system_def join_path_def split: if_splits option.splits)

section \<open>Properties\<close>

lemma virtual_path_utf8: "virtual_path E os root d = Ok v \<Longrightarrow> utf8_valid v"
  by (auto simp: virtual_path_def res_simps path_to_str_def normalize_path_utf8 split: if_splits)

text \<open>
  C28: what \<open>pack\<close> collects.  On a finite directory tree collecting returns and does not panic;
  when it succeeds, it found exactly the regular files at any depth below the root, without
  the output file under its own or its resolved name, each with the normalised form of its
  path relative to the root.
\<close>

theorem collect_files_exact:
  assumes "cli_files files os" "tree_rank os fs rank"
  shows "\<exists>res. collect_files E os root target existing fs = Some res
    \<and> (case res of
          Ok out \<Rightarrow> snd ` set out = kept_files target existing (regular_files os fs root)
            \<and> (\<forall>(v, d) \<in> set out. virtual_path E os root d = Ok v)
        | Err e \<Rightarrow> True
        | Panic \<Rightarrow> False)"
proof -
  obtain res where "collect_files E os root target existing fs = Some res" "res \<noteq> Panic"
    "\<forall>out. res = Ok out \<longrightarrow> snd ` set out = kept_files target existing (regular_files os fs root)
       \<and> (\<forall>(v, d) \<in> set out. virtual_path E os root d = Ok v)"
    by (rule cli_files.collect_files_total [OF assms])
  then show ?thesis by (cases res) auto
qed

text \<open>The witness: one file on disk, which is collected under its own name.\<close>

definition demo_disk :: "os_path memory_files" where
  "demo_disk = \<lparr> mf_files = [[Normal [0x61]] \<mapsto> [9, 9, 9, 9, 5]], mf_pos = 0, mf_shown = [] \<rparr>"

abbreviation demo_os :: "(os_path memory_files, bytes) operating_system" where
  "demo_os \<equiv> memory_os sample_env [[0x61]]"

lemma memory_tree: "tree_rank (memory_os E names) fs (\<lambda>_. 1)"
proof -
  have "entry_dirs dir es = []" if "os_read_dir (memory_os E names) dir fs = Ok es" for dir es
    using that by (auto simp: memory_os_def entry_dirs_def split: if_splits)
  then show ?thesis by (simp add: tree_rank_def)
qed

lemma demo_collect:
  "collect_files sample_env demo_os [] [Normal [0x6F]] None demo_disk = Some (Ok [([0x61], [Normal [0x61]])])"
  by (simp add: collect_files_def collect_loop.simps memory_os_def demo_disk_def cli_io_def join_path_def virtual_path_def
      strip_path_prefix_def path_to_str_def component_bytes_def demo_path)

theorem collect_files_exact_witness:
  "kept_files [Normal [0x6F]] None (regular_files demo_os demo_disk []) = {[Normal [0x61]]}"
  using collect_files_exact [OF memory_cli.cli_files_axioms memory_tree, of sample_env sample_env "[[0x61]]" "[]" "[Normal [0x6F]]" None demo_disk]
  by (simp add: demo_collect)

text \<open>The collected files exist, under names that the packer takes.\<close>

lemma collected_ready:
  assumes "cli_files files os" "tree_rank os fs rank" "collect_files E os dir target existing fs = Some (Ok found)"
  shows "\<forall>(v, d) \<in> set (sort_files found). utf8_valid v \<and> files fs d \<noteq> None"
proof -
  obtain res where "collect_files E os dir target existing fs = Some res"
    "\<forall>out. res = Ok out \<longrightarrow> snd ` set out = kept_files target existing (regular_files os fs dir)
      \<and> (\<forall>(v, d) \<in> set out. virtual_path E os dir d = Ok v)"
    by (rule cli_files.collect_files_total [OF assms(1,2)])
  with assms(3) have found: "snd ` set found = kept_files target existing (regular_files os fs dir)"
    "\<forall>(v, d) \<in> set found. virtual_path E os dir d = Ok v" by simp_all
  have "utf8_valid v \<and> files fs d \<noteq> None" if "(v, d) \<in> set found" for v d
  proof -
    have "d \<in> kept_files target existing (regular_files os fs dir)" "virtual_path E os dir d = Ok v"
      using found that by force+
    then show ?thesis using virtual_path_utf8 cli_files.regular_files_exist [OF assms(1)] by (auto simp: kept_files_def)
  qed
  then show ?thesis by (auto simp: sort_files_def)
qed

text \<open>
  What a successful \<open>pack\<close> leaves on disk: only the output changed, and it holds an archive of
  the collected files, sorted by name, with the contents they had before.
\<close>

definition dir_packed ::
  "env \<Rightarrow> ('fs \<Rightarrow> os_path \<Rightarrow> bytes option) \<Rightarrow> ('fs, 'r) operating_system \<Rightarrow> bytes \<Rightarrow> bytes \<Rightarrow> pack_options \<Rightarrow> bytes \<Rightarrow>
     'fs \<Rightarrow> 'fs \<Rightarrow> bool" where
  "dir_packed E files os root output options key fs fs' \<longleftrightarrow>
     (\<exists>dir target existing found c. os_canonicalize_arg os root fs = Ok dir
        \<and> normalized_output_path os output fs = Ok target \<and> existing_path os target fs = Ok existing
        \<and> collect_files E os dir target existing fs = Some (Ok found)
        \<and> files fs' = (files fs)(target \<mapsto> c) \<and> archive_of E (disk_inputs (files fs) (sort_files found)) key options c)"

lemma pack_dir_outcome:
  assumes "cli_files files os" "packer_laws E" "o_chunk_size options \<le> usize_max E" "tree_rank os fs rank"
  obtains r fs' where "pack_dir E os root output options key fs = Some (r, fs')" "r \<noteq> Panic"
    "\<And>s. r = Ok s \<Longrightarrow> dir_packed E files os root output options key fs fs'"
    "\<And>e. r = Err e \<Longrightarrow> files fs' = files fs
       \<or> \<not> removal_works files os \<and> (\<exists>temp c. files fs temp = None \<and> files fs' = (files fs)(temp \<mapsto> c))"
proof -
  let ?pre = "bind_res (cli_io (os_canonicalize_arg os root fs)) (\<lambda>root.
           bind_res (cli_io (normalized_output_path os output fs)) (\<lambda>output.
           bind_res (cli_io (existing_path os output fs)) (\<lambda>existing. Ok (root, output, existing))))"
  show ?thesis
  proof (cases ?pre)
    case (Ok pre)
    obtain dir target existing where pre: "pre = (dir, target, existing)" by (rule prod_cases3)
    with Ok have args: "os_canonicalize_arg os root fs = Ok dir" "normalized_output_path os output fs = Ok target"
      "existing_path os target fs = Ok existing" by (auto simp: res_simps cli_io_def)
    obtain res where col: "collect_files E os dir target existing fs = Some res" "res \<noteq> Panic"
      by (rule cli_files.collect_files_total [OF assms(1,4)])
    show ?thesis
    proof (cases res)
      case res: (Ok ds)
      let ?fs = "sort_files ds"
      note ready = collected_ready [OF assms(1,4) col(1) [unfolded res]]
      from cli_files.pack_collected_outcome [OF assms(1-3) ready, of target key] obtain r fs' where
        run: "(case create_temp os target fs of
            (Err e, fs) \<Rightarrow> Some (Err (Cli_Io e), fs)
          | (Panic, fs) \<Rightarrow> Some (Panic, fs)
          | (Ok (temp_path, W), fs) \<Rightarrow>
              map_option (remove_temp os temp_path) (pack_temp E os temp_path W target ?fs key options fs)) = Some (r, fs')" and
        r: "case r of
            Ok s \<Rightarrow> \<exists>c. files fs' = (files fs)(target \<mapsto> c) \<and> archive_of E (disk_inputs (files fs) ?fs) key options c
          | Err e \<Rightarrow> files fs' = files fs
              \<or> \<not> removal_works files os \<and> (\<exists>temp c. files fs temp = None \<and> files fs' = (files fs)(temp \<mapsto> c))
          | Panic \<Rightarrow> False" by blast
      have packed: "pack_dir E os root output options key fs = Some (r, fs')" using Ok pre col(1) res run by (simp add: pack_dir_def)
      have "dir_packed E files os root output options key fs fs'" if "r = Ok s" for s
      proof -
        from r that obtain c where "files fs' = (files fs)(target \<mapsto> c)" "archive_of E (disk_inputs (files fs) ?fs) key options c"
          by auto
        then show ?thesis
          unfolding dir_packed_def
          by (intro exI [of _ dir] exI [of _ target] exI [of _ existing] exI [of _ ds] exI [of _ c] conjI args col(1) [unfolded res])
      qed
      moreover have "r \<noteq> Panic" using r by (cases r) simp_all
      moreover have "files fs' = files fs
          \<or> \<not> removal_works files os \<and> (\<exists>temp c. files fs temp = None \<and> files fs' = (files fs)(temp \<mapsto> c))"
        if "r = Err e" for e using r that by simp
      ultimately show ?thesis using that [OF packed] by blast
    next
      case (Err e)
      then show ?thesis using Ok pre col that [of "Err e" fs] by (simp add: pack_dir_def)
    qed (use col in simp)
  next
    case Panic
    have "?pre \<noteq> Panic" by (rule cli_files.resolved_no_panic [OF assms(1)])
    then show ?thesis using Panic by blast
  next
    case (Err e)
    then show ?thesis using that [of "Err e" fs] by (simp add: pack_dir_def)
  qed
qed

text \<open>
  C3: packing a directory replaces the output in one step or not at all.  On a finite tree
  \<open>pack_dir\<close> returns without a panic.  If it succeeds, the only path that changed is the
  output, which holds an archive of the collected files with the contents they had on disk.
  If it fails, no file changed, unless the system refuses to remove the temporary file, whose
  name was free before.
\<close>

theorem pack_dir_all_or_nothing:
  assumes "cli_files files os" "packer_laws E" "o_chunk_size options \<le> usize_max E" "tree_rank os fs rank"
  shows "\<exists>r fs'. pack_dir E os root output options key fs = Some (r, fs')
    \<and> (case r of
          Ok s \<Rightarrow> dir_packed E files os root output options key fs fs'
        | Err e \<Rightarrow> files fs' = files fs
            \<or> \<not> removal_works files os \<and> (\<exists>temp c. files fs temp = None \<and> files fs' = (files fs)(temp \<mapsto> c))
        | Panic \<Rightarrow> False)"
proof -
  obtain r fs' where "pack_dir E os root output options key fs = Some (r, fs')" "r \<noteq> Panic"
    "\<And>s. r = Ok s \<Longrightarrow> dir_packed E files os root output options key fs fs'"
    "\<And>e. r = Err e \<Longrightarrow> files fs' = files fs
       \<or> \<not> removal_works files os \<and> (\<exists>temp c. files fs temp = None \<and> files fs' = (files fs)(temp \<mapsto> c))"
    by (rule pack_dir_outcome [OF assms, of root "output" key]) blast
  then show ?thesis by (cases r) simp_all
qed

text \<open>
  The witness packs the directory in memory: afterwards the disk holds the file and its
  archive, the sample archive of the reader's theories.
\<close>

definition packed_disk :: "os_path memory_files" where
  "packed_disk = \<lparr> mf_files = (mf_files demo_disk)([Normal [0x6F]] \<mapsto> demo_bytes), mf_pos = 210, mf_shown = [] \<rparr>"

lemma demo_temp_free:
  "mf_files demo_disk [Normal (temp_name demo_os [0x6F] i)] = None" "[Normal (temp_name demo_os [0x6F] i)] \<noteq> [Normal [0x6F]]"
  by (simp_all add: demo_disk_def temp_name_def chars_def)

lemma demo_create_temp:
  obtains t where "create_temp demo_os [Normal [0x6F]] demo_disk = (Ok (t, memory_writer t), file_state (mf_files demo_disk) t [] 0)"
    "mf_files demo_disk t = None" "t \<noteq> [Normal [0x6F]]" "t \<noteq> [Normal [0x61]]"
proof -
  let ?t = "[Normal (temp_name demo_os [0x6F] 0)]"
  have "fs_create_new demo_os ?t demo_disk = (Ok (memory_writer ?t), file_state (mf_files demo_disk) ?t [] 0)"
    using memory_create [of "mf_files demo_disk" ?t 0] demo_temp_free(1) [of 0] by (simp add: memory_os_def demo_disk_def)
  moreover have "[0..<128] = 0 # [1..<128]" by (simp add: upt_conv_Cons)
  ultimately have "create_temp demo_os [Normal [0x6F]] demo_disk = (Ok (?t, memory_writer ?t), file_state (mf_files demo_disk) ?t [] 0)"
    by (simp add: create_temp_def bind_st_def lift_st_def parent_path_def file_name_def join_path_def Let_def)
  moreover have "?t \<noteq> [Normal [0x61]]" by (simp add: temp_name_def)
  ultimately show ?thesis using that demo_temp_free by blast
qed

lemma demo_pack_dir:
  "pack_dir sample_env demo_os [] [0x6F] demo_options [7] demo_disk
    = Some (Ok \<lparr> ps_archive_len = 210, ps_entry_count = 1, ps_chunk_count = 2 \<rparr>, packed_disk)"
proof -
  obtain t where t: "create_temp demo_os [Normal [0x6F]] demo_disk = (Ok (t, memory_writer t), file_state (mf_files demo_disk) t [] 0)"
    "mf_files demo_disk t = None" "t \<noteq> [Normal [0x6F]]" "t \<noteq> [Normal [0x61]]" by (rule demo_create_temp)
  let ?st = "file_state (mf_files demo_disk) t"
  have pre: "os_canonicalize_arg demo_os [] demo_disk = Ok []" "normalized_output_path demo_os [0x6F] demo_disk = Ok [Normal [0x6F]]"
    "existing_path demo_os [Normal [0x6F]] demo_disk = Ok None"
    by (simp_all add: normalized_output_path_def existing_path_def memory_os_def demo_disk_def file_name_def parent_path_def join_path_def)
  have "os_open demo_os [Normal [0x61]] (?st c n) = Ok (slice_reader, [9, 9, 9, 9, 5])" for c n
    using t(4) by (simp add: memory_os_def demo_disk_def)
  moreover have "publish demo_os t [Normal [0x6F]] summary (?st demo_bytes 210) = (Ok summary, packed_disk)" for summary
    using t(2,3) by (simp add: publish_def bind_st_def io_step_def cli_io_def lift_st_def memory_os_def packed_disk_def file_state_def fun_eq_iff)
  ultimately have "pack_temp sample_env demo_os t (memory_writer t) [Normal [0x6F]] [([0x61], [Normal [0x61]])] [7] demo_options (?st [] 0)
    = Some (Ok \<lparr> ps_archive_len = 210, ps_entry_count = 1, ps_chunk_count = 2 \<rparr>, packed_disk)"
    using file_run.demo_finish [of t "mf_files demo_disk"]
    by (simp add: pack_temp_def file_run.demo_new file_run.demo_add cli_io_def demo_done_def)
  then show ?thesis
    by (simp add: pack_dir_def pre cli_io_def demo_collect t(1) sort_files_def remove_temp_def)
qed

theorem pack_dir_all_or_nothing_witness:
  "dir_packed sample_env mf_files demo_os [] [0x6F] demo_options [7] demo_disk packed_disk"
proof -
  have "o_chunk_size demo_options \<le> usize_max sample_env" by (simp add: demo_options_def demo_max)
  from pack_dir_all_or_nothing [OF memory_cli.cli_files_axioms sample_packer_laws this memory_tree, of sample_env "[[0x61]]" "[]" "[0x6F]" "[7]" demo_disk]
  show ?thesis by (simp add: demo_pack_dir)
qed

text \<open>
  C2: the commands fit together.  After a successful \<open>pack\<close> of a directory, \<open>extract\<close> with the
  same key writes, for the name of every file that was collected, exactly the contents that
  file had on disk, provided that the archive is within the limits of the tools and that
  opening the output gives a source of the file that was written.
\<close>

theorem pack_then_extract:
  assumes cli: "cli_files files os" and laws: "packer_laws E" "lz4_pure E" "2 ^ 32 - 1 \<le> usize_max E"
    and size: "o_chunk_size options \<le> usize_max E" and tree: "tree_rank os fs rank"
    and run: "pack_dir E os root output options key fs = Some (Ok s, fs')"
    and args: "os_canonicalize_arg os root fs = Ok dir" "normalized_output_path os output fs = Ok target"
      "existing_path os target fs = Ok existing" "collect_files E os dir target existing fs = Some (Ok found)"
    and source: "os_source os output fs' = Ok S" "\<forall>c. files fs' target = Some c \<longrightarrow> source_backed S c"
      "source_safe S" "source_stable S"
    and limits: "\<forall>c h rest. files fs' target = Some c \<and> read_header c = Ok (h, rest)
        \<longrightarrow> validate_limits E h (clamped tooling_default) = Ok ()"
      "inputs_fit E (clamped tooling_default) options (disk_inputs (files fs) (sort_files found))"
      "\<forall>(v, d) \<in> set found. length (the (files fs d)) \<le> usize_max E"
  shows "\<forall>(v, d) \<in> set found. extract_one E os output v out key fs' = io_step (os_write os out (the (files fs d))) fs'"
proof -
  let ?inputs = "disk_inputs (files fs) (sort_files found)"
  have "dir_packed E files os root output options key fs fs'"
    by (rule pack_dir_outcome [OF cli laws(1) size tree, of root "output" key]) (use run in simp)
  with args have "\<exists>c. files fs' = (files fs)(target \<mapsto> c) \<and> archive_of E ?inputs key options c"
    by (simp add: dir_packed_def)
  then obtain c where c: "files fs' target = Some c" "archive_of E ?inputs key options c" by auto
  have "\<forall>f \<in> set ?inputs. length (f_data f) \<le> usize_max E" using limits(3) by (auto simp: disk_inputs_def sort_files_def)
  from archive_reads_back [OF c(2) laws source(2) [rule_format, OF c(1)] source(3,4) _ limits(2) this]
  obtain A where A: "open_with_limits E S key tooling_default = Ok A" "\<forall>f \<in> set ?inputs. read E A (f_path f) = Ok (f_data f)"
    using limits(1) c(1) by blast
  have "read E A v = Ok (the (files fs d))" if "(v, d) \<in> set found" for v d
    using A(2) that by (fastforce simp: disk_inputs_def sort_files_def)
  then show ?thesis
    using source(1) A(1) by (auto simp: extract_one_def open_tooling_def cli_io_def bind_st_def lift_st_def)
qed

theorem pack_then_extract_witness:
  "extract_one sample_env demo_os [0x6F] [0x61] [0x78] [7] packed_disk
    = io_step (os_write demo_os [0x78] [9, 9, 9, 9, 5]) packed_disk"
proof -
  have pre: "os_canonicalize_arg demo_os [] demo_disk = Ok []" "normalized_output_path demo_os [0x6F] demo_disk = Ok [Normal [0x6F]]"
    "existing_path demo_os [Normal [0x6F]] demo_disk = Ok None"
    by (simp_all add: normalized_output_path_def existing_path_def memory_os_def demo_disk_def file_name_def parent_path_def join_path_def)
  have size: "o_chunk_size demo_options \<le> usize_max sample_env" "2 ^ 32 - 1 \<le> usize_max sample_env"
    by (simp_all add: demo_options_def demo_max)
  have src: "os_source demo_os [0x6F] packed_disk = Ok demo_source" "mf_files packed_disk [Normal [0x6F]] = Some demo_bytes"
    by (simp_all add: memory_os_def packed_disk_def demo_source_def)
  have backed: "source_backed demo_source demo_bytes"
    unfolding demo_source_def by (rule slice_src.backed) (simp_all add: length_demo demo_max)
  note fits = demo_limits [of tooling_default, OF disjI2 [OF refl]]
  have disk: "disk_inputs (mf_files demo_disk) (sort_files [([0x61], [Normal [0x61]])]) = [demo_file]"
    by (simp add: disk_inputs_def sort_files_def demo_disk_def demo_file_def)
  from pack_then_extract [OF memory_cli.cli_files_axioms sample_packer_laws sample_env_pure size(2,1) memory_tree demo_pack_dir pre
      demo_collect src(1) _ demo_source_ok, of "[0x78]"]
  show ?thesis using backed src(2) fits by (simp add: disk) (simp add: demo_disk_def demo_max)
qed

text \<open>
  C29: the reports are those of the archive's chunk table.  For an archive that opens under
  the limits of the tools, \<open>info\<close> prints the number of its chunks and the sums of their original
  and stored sizes, although it adds them up from the entries, and none of its three overflow
  errors can occur.  \<open>verify\<close> reports all entries and all chunks if verification succeeds,
  and otherwise its error, with nothing printed.  A failing standard output is a panic, as in
  \<open>println!\<close>.
\<close>

theorem reports_match_archive:
  assumes "env_safe E" "os_source os path fs = Ok S" "source_safe S" "src_len S = Ok bytes"
    and "open_with_limits E S key tooling_default = Ok A"
  shows "run_command E os key (Info_Command path) fs
      = Some (print_lines os (info_lines A (unat bytes) (length (a_chunks A)) (original_total A) (stored_total A)) fs)
    \<and> (case verify E A of
          Ok u \<Rightarrow> run_command E os key (Verify_Command path) fs
            = Some (print_line os (verify_line (length (a_entries A)) (length (a_chunks A))) fs)
        | Err e \<Rightarrow> run_command E os key (Verify_Command path) fs = Some (Err (Cli_Error e), fs)
        | Panic \<Rightarrow> False)"
proof -
  note totals = archive_totals [OF open_with_limits_wf [OF assms(1,5)]]
  obtain c where count: "sum_entries (\<lambda>entry. ucast (en_chunk_count entry)) ''chunk count overflow'' (a_entries A) 0 = Ok c"
    "unat c = length (a_chunks A)"
    by (rule sum_entries_fits [of 0 "\<lambda>entry. ucast (en_chunk_count entry)" "a_entries A"]) (use totals in simp_all)
  obtain n original stored where sums: "info_sums (a_entries A) (0, 0, 0) = Ok (n, original, stored)"
    "unat n = length (a_chunks A)" "unat original = original_total A" "unat stored = stored_total A"
    by (rule info_sums_fit [of 0 "a_entries A" 0 0]) (use totals in simp_all)
  have "a_source A = S" using assms(5) by (auto elim: open_steps)
  then have v: "verify E A \<noteq> Panic" using verify_no_panic [OF assms(1)] assms(3) by simp
  have "case verify E A of
          Ok u \<Rightarrow> verify_archive E os path key fs
            = print_line os (verify_line (length (a_entries A)) (length (a_chunks A))) fs
        | Err e \<Rightarrow> verify_archive E os path key fs = (Err (Cli_Error e), fs)
        | Panic \<Rightarrow> False"
    using v assms(2,5) count
    by (cases "verify E A") (simp_all add: verify_archive_def open_tooling_def cli_io_def bind_st_def lift_st_def)
  moreover have "info_archive E os path key fs
      = print_lines os (info_lines A (unat bytes) (length (a_chunks A)) (original_total A) (stored_total A)) fs"
    using assms(2,4,5) sums by (simp add: info_archive_def cli_io_def bind_st_def lift_st_def)
  ultimately show ?thesis by (auto simp: run_command_def split: res.splits)
qed

text \<open>The witness: what is shown of the sample archive on disk, whose five bytes are stored in four.\<close>

theorem reports_match_archive_witness:
  "run_command sample_env demo_os [7] (Info_Command [0x6F]) packed_disk
    = Some (Ok (), packed_disk\<lparr> mf_shown := concat (map (\<lambda>line. chars line @ [10])
        [''format_version=1'', ''mode=debug'', ''archive_bytes=210'', ''entry_count=1'', ''chunk_count=2'',
         ''chunk_size=4'', ''alignment=16'', ''original_bytes=5'', ''stored_bytes=4'',
         ''compression_ratio=0.800000'', ''paths_stripped=false'', ''protection=xor'']) \<rparr>)"
proof -
  have source: "os_source demo_os [0x6F] packed_disk = Ok demo_source"
    by (simp add: memory_os_def packed_disk_def demo_source_def)
  have bytes: "src_len demo_source = Ok 210"
    by (simp add: demo_source_def slice_source_def io_len_def length_demo)
  have print: "print_lines demo_os lines disk = (Ok (), disk\<lparr> mf_shown := mf_shown disk @ concat (map (\<lambda>line. line @ [10]) lines) \<rparr>)"
    for lines disk
    by (induction lines arbitrary: disk) (simp_all add: bind_st_def lift_st_def print_line_def memory_os_def)
  let ?A = "demo_archive\<lparr> a_max_chunks_per_operation := max_chunks_per_operation (clamped tooling_default) \<rparr>"
  have opened: "open_with_limits sample_env demo_source [7] tooling_default = Ok ?A"
    by (rule demo_open_with) (simp add: sample_limits_def)
  have totals: "original_total ?A = 5" "stored_total ?A = 4" "length (a_chunks ?A) = 2"
    by (simp_all add: original_total_def stored_total_def demo_archive_def demo_chunks_def)
  have ratio: "fixed_decimal 6 (size_ratio 5 4) = ''0.800000''"
    by (simp add: fixed_decimal_def size_ratio_def f64_quotient_def f64_nearest_def round_half_even_def bit_length.simps
        decimal.simps char_of_def bit_0 Let_def)
  have "unat (210 :: u64) = 210" by simp
  from conjunct1 [OF reports_match_archive [OF sample_env_safe source demo_source_ok(1) bytes opened], unfolded totals this]
  have run: "run_command sample_env demo_os [7] (Info_Command [0x6F]) packed_disk
    = Some (print_lines demo_os (info_lines ?A 210 2 5 4) packed_disk)" .
  have lines: "info_lines ?A 210 2 5 4 = map chars
        [''format_version=1'', ''mode=debug'', ''archive_bytes=210'', ''entry_count=1'', ''chunk_count=2'',
         ''chunk_size=4'', ''alignment=16'', ''original_bytes=5'', ''stored_bytes=4'',
         ''compression_ratio=0.800000'', ''paths_stripped=false'', ''protection=xor'']"
    unfolding info_lines_def ratio
    by (rule arg_cong [of _ _ "map chars"])
      (simp add: demo_archive_def VERSION_def archive_mode_def bool_text_def protection_to_string_def decimal.simps char_of_def bit_0)
  have "mf_shown packed_disk = []" by (simp add: packed_disk_def)
  moreover have "concat (map (\<lambda>line. line @ [10]) (map chars xs)) = concat (map (\<lambda>line. chars line @ [10]) xs)" for xs
    by (simp add: comp_def)
  ultimately show ?thesis unfolding run lines print by (simp only: append_Nil)
qed

end
