(* ===== verification/Spec2Isabelle.thy ===== *)
theory Spec2Isabelle
  imports Reader_Properties Pack_Properties Ffi_Properties Cli_Properties
begin

text \<open>
  A model of \<open>rasen-archive\<close>, a Rust library for game-asset archives, with its C interface and
  its command-line packer, and the theorems that make it correct.

  \<^bold>\<open>The program.\<close>  An archive is a 60-byte header, the stored chunks of the assets, and a
  protected, compressed table of contents (\<open>SPEC.md\<close>).  The packer (\<open>pack/writer.rs\<close>) cuts every
  input into chunks, compresses and protects them, and writes the table and the header last.
  The reader (\<open>archive/reader.rs\<close>) opens untrusted bytes: it validates header, limits, table,
  layout and identifier index, and then serves whole reads, chunk reads and range reads with
  checksums.  \<open>crates/rasen-archive-ffi\<close> wraps both for C callers, with handles, callbacks and
  status codes; \<open>crates/rasen-packer\<close> is the command-line tool.

  \<^bold>\<open>Theories and sources\<close> (paths below \<open>src/crates/\<close>; a definition has the name of its function,
  type or field, with a prefix where the name occurs twice).

    \<^item> \<open>Rust_Prelude\<close>: results with a third case \<open>Panic\<close>, state passing (\<open>stm\<close>, \<open>bind_st\<close>), the rules
      \<open>no_panic\<close>, \<open>wp_st\<close>, \<open>res_simps\<close> and \<open>arith_simps\<close>, checked arithmetic, slices, UTF-8.
    \<^item> \<open>Rasen_Error\<close>, \<open>Error_Text\<close>: \<open>rasen-archive/src/error.rs\<close> and its \<open>Display\<close>.
    \<^item> \<open>Externals\<close>: the parameter \<open>env\<close>, which stands for the crates \<open>lz4_flex\<close>, \<open>chacha20poly1305\<close>,
      \<open>blake3\<close>, \<open>xxhash\<close>, \<open>getrandom\<close>, for the allocator, sorting and the width of \<open>usize\<close>; what the code
      relies on are the predicates \<open>env_safe\<close>, \<open>lz4_lawful\<close>, \<open>aead_lawful\<close> and so on, and
      \<open>sample_env\<close> is a concrete function that satisfies them.
    \<^item> \<open>Path\<close> (\<open>path.rs\<close>, \<open>hash.rs\<close>), \<open>Format_IO\<close> (\<open>format/mod.rs\<close>, \<open>model.rs\<close>, \<open>io.rs\<close>), \<open>Header\<close>
      (\<open>format/header.rs\<close>), \<open>Toc\<close> and \<open>Layout\<close> (\<open>format/toc.rs\<close>), \<open>Protect\<close> (\<open>crypto\<close>, \<open>compression\<close>).
    \<^item> \<open>Source\<close> (\<open>archive/source.rs\<close>): a source is a length and a positioned read.  It is a function,
      with which an open archive reads the same bytes at every call; what a read through the loop
      on files does with a system that changes or fails is stated on the loop itself.
    \<^item> \<open>Limits\<close>, \<open>Index\<close>, \<open>Reader\<close> (\<open>archive/reader.rs\<close>): limits, the sorted identifier index, and the
      archive as a record with every operation; the caller's buffers are the state.
    \<^item> \<open>Packer\<close> (\<open>pack/options.rs\<close>, \<open>pack/writer.rs\<close>): the packer as a record, over any reader and any
      seekable writer; the state is the writer's with the packer's.
    \<^item> \<open>Ffi_Types\<close> (\<open>rasen-archive-ffi/src/error.rs\<close>, \<open>types.rs\<close>, pointers of \<open>io.rs\<close>), \<open>Ffi_Archive\<close> and
      \<open>Ffi_Read\<close> (\<open>archive.rs\<close>, sources of \<open>io.rs\<close>), \<open>Ffi_Pack\<close> (\<open>pack.rs\<close>, callback readers and writers
      of \<open>io.rs\<close>).  A pointer is an option; an output is a cell of the state; the last message of
      the thread is passed along.
    \<^item> \<open>File_Store\<close>: the operating system's files as an interface.  \<open>Cli_Text\<close>, \<open>Cli\<close>
      (\<open>rasen-packer/src/main.rs\<close>, \<open>commands.rs\<close>): the lines the commands print, and the commands over
      an operating system.  A ratio is a binary64 quotient, correctly rounded at every step.

  \<^bold>\<open>Interfaces.\<close>  \<open>random_access\<close> (what a source in memory promises, for slices, cursors and shared
  slices), \<open>positioned_file\<close> (positioned reads of the operating system, any of which may fail) and
  \<open>steady_file\<close> (they do not, so that a file is a source of its contents), \<open>fixed_codec\<close> (little-endian
  encodings), \<open>byte_reader\<close> and \<open>seek_writer\<close> (the contracts of \<open>Read\<close>, and of
  \<open>Write\<close> with \<open>Seek\<close>, in which the packer is proved correct), \<open>steady_reader\<close> (one that does not
  fail), \<open>packing\<close> (reader and writer), \<open>host_writer\<close> (a host's writer callbacks, whose \<open>callback_writer\<close>
  is a \<open>seek_writer\<close> by \<open>sublocale\<close>), \<open>file_names\<close> and \<open>file_store\<close> (creating, filling and removing
  files), \<open>cli_files\<close> (what the commands use).  Each is interpreted on the definitions of the
  model: byte slices, vectors, callbacks and files in memory.

  \<^bold>\<open>What is shown.\<close>

    \<^item> \<open>Reader_Correct\<close>, \<open>Reader_Safety\<close>, \<open>Reader_Ranges\<close>, \<open>Reader_Properties\<close>: opening establishes the invariant
      \<open>archive_wf\<close> and never panics, whatever the bytes; lookup is sound, complete and
      unambiguous; a whole read succeeds exactly if its chunks can be read; range reads are slices
      of it, and it is settled which ranges are refused; verification decides whether every entry
      can be read, if the chunks are within the operation limit.
    \<^item> \<open>Layout\<close>, \<open>Toc\<close>, \<open>Header\<close>, \<open>Index\<close>, \<open>Limits\<close>: the validations decide declarative
      specifications, encoders and decoders are inverse, accepted headers bound the memory.
    \<^item> \<open>Packer_Correct\<close>, \<open>Pack_Finish\<close>, \<open>Pack_Roundtrip\<close>, \<open>Pack_Properties\<close>: adding a file refines
      appending to a list of stored files (\<open>packer_state\<close>); finishing leaves an archive of the
      files (\<open>archive_of\<close>), which opens and reads back; packing returns and does not panic.
    \<^item> \<open>Pack_Frame\<close>: what the packer keeps of the state around the writer.
    \<^item> \<open>Ffi_Calls\<close>, \<open>Ffi_Session\<close>, \<open>Ffi_Pack_Correct\<close>, \<open>Ffi_Streams\<close>, \<open>Ffi_Properties\<close>: the round
      trip through the C interface, whole files or no trace, archives from streams, runs of a host as a step relation \<open>host_step\<close> with its
      invariant (no panic, every source destroyed once), the calls that keep their outputs when they fail.
    \<^item> \<open>Cli_Correct\<close>, \<open>Cli_Properties\<close>: collecting a directory ends and is exact, packing it replaces
      the output in one step or not at all, extraction restores the contents, \<open>info\<close> and \<open>verify\<close>
      report the totals of the chunk table.
    \<^item> \<open>Sample_Archive\<close>, \<open>Sample_Pack\<close>, \<open>Sample_Files\<close>: one archive, evaluated in full, to which every
      theorem with hypotheses is applied.

  \<^bold>\<open>Loops and bounds.\<close>  Loops over lists and byte counts are structural or have a measure.  Loops
  that the code does not bound are partial functions into options: reading from an interrupting
  reader (\<open>read_chunk_loop\<close>, \<open>pack_chunks\<close>, \<open>file_read_loop\<close>) and walking directories (\<open>collect_loop\<close>).
  That they return is proved, with the number of interruptions (\<open>patience\<close>) or the rank of a finite
  tree (\<open>tree_rank\<close>) as the bound.  No fuel is used.  Fixed-width integers are words, with the
  code's checked operations; \<open>usize\<close> is a natural number up to \<open>usize_max\<close>; an overflow of unchecked
  arithmetic and an index out of range are \<open>Panic\<close>.

  \<^bold>\<open>Not modelled.\<close>  Third-party primitives are parameters, and so are the operating system and
  the host's callbacks.  Undefined behaviour of C callers (dangling pointers, wrong lengths) is
  outside: a pointer is null or has the memory its length claims.  What the
  commands write to the standard error (the warning about a temporary file that cannot be
  removed, the error of \<open>main\<close>), the parsing of the command line, module lists, the C header,
  tests, benchmarks and fuzz targets are left out.  A panic inside \<open>ffi_call\<close> is the status
  \<open>Panic\<close>; unwinding itself is not.
\<close>

end
